(* ===== verification/Prelude.thy ===== *)
theory Prelude
  imports Main "HOL-Library.Sublist" "HOL-Library.Char_ord" "HOL-Library.Multiset"
begin

text \<open>
  What every component shares: the named collections that the component theories fill,
  the error values of the code, the byte order of characters, and the few facts on lists
  and options that the library does not have in the form the proofs need.

  A Go \<^verbatim>\<open>string\<close> is a sequence of bytes and a HOL \<^typ>\<open>char\<close> is one of 256 bytes, so a
  Go string is a \<^typ>\<open>string\<close> here and \<^const>\<open>length\<close> is Go's \<^verbatim>\<open>len\<close>.
\<close>

named_theorems go_string \<open>unfoldings that evaluate the string routines on literals\<close>
named_theorems shape \<open>shape of the values that the decoders and builders produce\<close>
named_theorems keeps_intro \<open>introduction rules for invariants of state transformers\<close>

section \<open>Error values\<close>

text \<open>
  A Go \<^verbatim>\<open>error\<close> is modelled by its text and by the sentinel values that
  \<^verbatim>\<open>errors.Is\<close> looks for. \<open>Wrapped pre e post\<close> is the result of
  \<^verbatim>\<open>fmt.Errorf\<close> with one \<^verbatim>\<open>%w\<close>: the text around the verb and the wrapped error.
\<close>

datatype gerr =
    Msg string
  | EOF
  | StuckSerial
  | J2534Unsupported
  | CtxErr string
  | Wrapped string gerr string

text \<open>The UTF-8 bytes of an em dash and of an ellipsis, as the source's literals have them.\<close>

definition em_dash :: string where
  "em_dash = [CHR 0xE2, CHR 0x80, CHR 0x94]"

definition ellipsis :: string where
  "ellipsis = [CHR 0xE2, CHR 0x80, CHR 0xA6]"

fun err_text :: "gerr \<Rightarrow> string" where
  "err_text (Msg s) = s"
| "err_text EOF = ''EOF''"
| "err_text StuckSerial = ''serial read stuck in the kernel (Close would hang)''"
| "err_text J2534Unsupported =
     ''this adapter is J2534 (Tactrix OpenPort-class), not ELM327; MechMind cannot scan it yet ''
     @ em_dash @ '' use an ELM327/STN USB dongle''"
| "err_text (CtxErr s) = s"
| "err_text (Wrapped pre e post) = pre @ err_text e @ post"

text \<open>\<^verbatim>\<open>errors.Is\<close> follows the chain of wrapped errors.\<close>

fun err_is :: "gerr \<Rightarrow> gerr \<Rightarrow> bool" where
  "err_is (Wrapped pre e post) t = (Wrapped pre e post = t \<or> err_is e t)"
| "err_is e t = (e = t)"

section \<open>Lists and options\<close>

lemma filter_concat_map:
  "filter P (concat (map f xs)) = concat (map (\<lambda>x. filter P (f x)) xs)"
  by (induction xs) auto

lemma list_all_filter_self: "list_all P (filter P xs)"
  by (induction xs) auto

lemma take_length_le: "length (take n xs) \<le> n"
  by simp

lemma set_take_subset_list: "x \<in> set (take n xs) \<Longrightarrow> x \<in> set xs"
  by (meson in_set_takeD)

lemma prefix_dropD: "prefix ys (drop n xs) \<Longrightarrow> \<exists>as bs. xs = as @ ys @ bs"
  by (metis append_take_drop_id prefix_def)

lemma find_SomeD: "find P xs = Some x \<Longrightarrow> x \<in> set xs \<and> P x"
  by (auto simp: find_Some_iff)

lemma find_NoneD: "find P xs = None \<Longrightarrow> x \<in> set xs \<Longrightarrow> \<not> P x"
  by (auto simp: find_None_iff)

end
