(* ===== verification/GoStrings.thy ===== *)
theory GoStrings
  imports Prelude
begin

text \<open>
  The routines of Go's \<^verbatim>\<open>strings\<close> package that the program calls, on byte strings. Case
  conversion and white space are those of ASCII: a byte from 128 on is left as it is, so
  the definitions are Go's on ASCII text, which is what adapters, DTC codes, VINs, roles and
  e-mail addresses are made of. \<^verbatim>\<open>ReplaceAll\<close> is only ever called with an empty
  replacement, which is \<open>remove_all\<close>.
\<close>

section \<open>Characters\<close>

definition is_digit :: "char \<Rightarrow> bool" where
  "is_digit c \<longleftrightarrow> CHR ''0'' \<le> c \<and> c \<le> CHR ''9''"

definition is_upper :: "char \<Rightarrow> bool" where
  "is_upper c \<longleftrightarrow> CHR ''A'' \<le> c \<and> c \<le> CHR ''Z''"

definition is_lower :: "char \<Rightarrow> bool" where
  "is_lower c \<longleftrightarrow> CHR ''a'' \<le> c \<and> c \<le> CHR ''z''"

definition is_space :: "char \<Rightarrow> bool" where
  "is_space c \<longleftrightarrow> c \<in> {CHR '' '', CHR 0x09, CHR 0x0A, CHR 0x0B, CHR 0x0C, CHR 0x0D}"

definition code_of :: "char \<Rightarrow> nat" where
  "code_of c = of_char c"

definition up :: "char \<Rightarrow> char" where
  "up c = (if is_lower c then char_of (code_of c - 32) else c)"

definition low :: "char \<Rightarrow> char" where
  "low c = (if is_upper c then char_of (code_of c + 32) else c)"

lemma char_le_code: "c \<le> d \<longleftrightarrow> code_of c \<le> code_of d"
  by (simp add: less_eq_char_def code_of_def)

lemma code_of_eq_iff: "code_of c = code_of d \<longleftrightarrow> c = d"
  by (simp add: code_of_def)

lemma code_of_less: "code_of c < 256"
  by (simp add: code_of_def)

lemma code_of_char_of: "n < 256 \<Longrightarrow> code_of (char_of n) = n"
  by (simp add: code_of_def)

lemmas char_class_defs = is_digit_def is_upper_def is_lower_def

lemma is_digit_code: "is_digit c \<longleftrightarrow> 48 \<le> code_of c \<and> code_of c \<le> 57"
  by (simp add: is_digit_def char_le_code) (simp add: code_of_def)

lemma is_upper_code: "is_upper c \<longleftrightarrow> 65 \<le> code_of c \<and> code_of c \<le> 90"
  by (simp add: is_upper_def char_le_code) (simp add: code_of_def)

lemma is_lower_code: "is_lower c \<longleftrightarrow> 97 \<le> code_of c \<and> code_of c \<le> 122"
  by (simp add: is_lower_def char_le_code) (simp add: code_of_def)

lemmas char_class_code = is_digit_code is_upper_code is_lower_code

lemma code_of_up: "code_of (up c) = (if is_lower c then code_of c - 32 else code_of c)"
  using code_of_less [of c] by (simp add: up_def code_of_char_of)

lemma code_of_low: "code_of (low c) = (if is_upper c then code_of c + 32 else code_of c)"
  by (auto simp: low_def is_upper_code code_of_char_of)

lemma up_up [simp]: "up (up c) = up c"
  by (auto simp: code_of_eq_iff [symmetric] code_of_up is_lower_code)

lemma up_low [simp]: "up (low c) = up c"
  by (auto simp: code_of_eq_iff [symmetric] code_of_up code_of_low is_lower_code is_upper_code)

lemma low_up [simp]: "low (up c) = low c"
  by (auto simp: code_of_eq_iff [symmetric] code_of_up code_of_low is_lower_code is_upper_code)

lemma low_low [simp]: "low (low c) = low c"
  by (auto simp: code_of_eq_iff [symmetric] code_of_low is_lower_code is_upper_code)

lemma is_space_code: "is_space c \<longleftrightarrow> code_of c = 32 \<or> (9 \<le> code_of c \<and> code_of c \<le> 13)"
proof -
  have "is_space c \<longleftrightarrow> code_of c \<in> code_of ` {CHR '' '', CHR 0x09, CHR 0x0A, CHR 0x0B, CHR 0x0C, CHR 0x0D}"
    by (auto simp: is_space_def code_of_eq_iff)
  then show ?thesis by (auto simp: code_of_def)
qed

lemma is_space_up [simp]: "is_space (up c) \<longleftrightarrow> is_space c"
  by (auto simp: is_space_code code_of_up is_lower_code)

lemma is_space_low [simp]: "is_space (low c) \<longleftrightarrow> is_space c"
  by (auto simp: is_space_code code_of_low is_upper_code)

section \<open>Case, white space, search\<close>

definition to_upper :: "string \<Rightarrow> string" where
  "to_upper s = map up s"

definition to_lower :: "string \<Rightarrow> string" where
  "to_lower s = map low s"

definition trim_left :: "string \<Rightarrow> string" where
  "trim_left s = dropWhile is_space s"

definition trim_space :: "string \<Rightarrow> string" where
  "trim_space s = rev (trim_left (rev (trim_left s)))"

definition trim_right_char :: "char \<Rightarrow> string \<Rightarrow> string" where
  "trim_right_char c s = rev (dropWhile (\<lambda>d. d = c) (rev s))"

definition has_prefix :: "string \<Rightarrow> string \<Rightarrow> bool" where
  "has_prefix s p = prefix p s"

definition trim_prefix :: "string \<Rightarrow> string \<Rightarrow> string" where
  "trim_prefix s p = (if has_prefix s p then drop (length p) s else s)"

fun contains :: "string \<Rightarrow> string \<Rightarrow> bool" where
  "contains [] t = (t = [])"
| "contains (c # s) t = (prefix t (c # s) \<or> contains s t)"

function remove_all :: "string \<Rightarrow> string \<Rightarrow> string" where
  "remove_all t [] = []"
| "remove_all t (c # s) =
     (if t \<noteq> [] \<and> prefix t (c # s) then remove_all t (drop (length t) (c # s))
      else c # remove_all t s)"
  by pat_completeness auto
termination
  by (relation "measure (\<lambda>(t, s). length s)") auto

function str_fields :: "string \<Rightarrow> string list" where
  "str_fields s =
     (let t = dropWhile is_space s
      in if t = [] then []
         else takeWhile (\<lambda>c. \<not> is_space c) t # str_fields (dropWhile (\<lambda>c. \<not> is_space c) t))"
  by pat_completeness auto
termination
proof (relation "measure length")
  fix s t :: string
  assume t: "t = dropWhile is_space s" and ne: "t \<noteq> []"
  from t ne have hd: "\<not> is_space (hd t)"
    by (metis hd_dropWhile)
  obtain c r where "t = c # r"
    using ne by (cases t) auto
  with hd have "length (dropWhile (\<lambda>c. \<not> is_space c) t) < length t"
    by (simp add: length_dropWhile_le le_imp_less_Suc)
  also have "length t \<le> length s"
    by (simp add: t length_dropWhile_le)
  finally show "(dropWhile (\<lambda>c. \<not> is_space c) t, s) \<in> measure length"
    by simp
qed simp

declare str_fields.simps [simp del]

fun join :: "string \<Rightarrow> string list \<Rightarrow> string" where
  "join sep [] = []"
| "join sep [x] = x"
| "join sep (x # y # r) = x @ sep @ join sep (y # r)"

text \<open>\<^verbatim>\<open>strings.Split\<close> at a one-byte separator: always at least one part.\<close>

fun split_on :: "char \<Rightarrow> string \<Rightarrow> string list" where
  "split_on d [] = [[]]"
| "split_on d (c # s) =
     (if c = d then [] # split_on d s
      else (case split_on d s of [] \<Rightarrow> [[c]] | w # ws \<Rightarrow> (c # w) # ws))"

text \<open>\<^verbatim>\<open>strings.LastIndex\<close>: the last position where the text occurs, or -1.\<close>

definition last_index :: "string \<Rightarrow> string \<Rightarrow> int" where
  "last_index s t =
     (let is = filter (\<lambda>i. prefix t (drop i s)) [0..<Suc (length s)]
      in if is = [] then -1 else int (last is))"

lemmas case_defs = to_upper_def to_lower_def

lemma contains_iff: "contains s t \<longleftrightarrow> (\<exists>as bs. s = as @ t @ bs)"
proof (induction s)
  case (Cons c s)
  have "(\<exists>as bs. c # s = as @ t @ bs)
      \<longleftrightarrow> prefix t (c # s) \<or> (\<exists>as bs. s = as @ t @ bs)"
    by (auto simp: prefix_def Cons_eq_append_conv)
  with Cons.IH show ?case by simp
qed auto

lemma contains_sublist: "contains s t \<longleftrightarrow> sublist t s"
  by (simp add: contains_iff sublist_def)

lemma contains_append: "contains s t \<Longrightarrow> contains (a @ s @ b) t"
  by (metis append.assoc contains_iff)

lemma contains_self [simp]: "contains s s"
  by (metis append.right_neutral append_Nil contains_iff)

lemma contains_char: "contains s [c] \<longleftrightarrow> c \<in> set s"
  by (auto simp: contains_iff in_set_conv_decomp)

lemma to_upper_idem [simp]: "to_upper (to_upper s) = to_upper s"
  by (simp add: to_upper_def comp_def)

lemma to_upper_lower [simp]: "to_upper (to_lower s) = to_upper s"
  by (simp add: case_defs comp_def)

lemma to_lower_upper [simp]: "to_lower (to_upper s) = to_lower s"
  by (simp add: case_defs comp_def)

lemma length_to_upper [simp]: "length (to_upper s) = length s"
  by (simp add: to_upper_def)

lemma to_upper_append [simp]: "to_upper (a @ b) = to_upper a @ to_upper b"
  by (simp add: to_upper_def)

lemma to_upper_Nil_iff [simp]: "to_upper s = [] \<longleftrightarrow> s = []"
  by (simp add: to_upper_def)

lemma trim_left_map_up: "trim_left (map up s) = map up (trim_left s)"
  by (simp add: trim_left_def dropWhile_map comp_def)

lemma trim_left_map_low: "trim_left (map low s) = map low (trim_left s)"
  by (simp add: trim_left_def dropWhile_map comp_def)

lemma trim_space_to_upper: "trim_space (to_upper s) = to_upper (trim_space s)"
  by (simp add: trim_space_def to_upper_def trim_left_map_up rev_map)

lemma trim_space_to_lower: "trim_space (to_lower s) = to_lower (trim_space s)"
  by (simp add: trim_space_def to_lower_def trim_left_map_low rev_map)

lemma trim_left_idem [simp]: "trim_left (trim_left s) = trim_left s"
  by (simp add: trim_left_def)

lemma hd_trim_left: "trim_left s \<noteq> [] \<Longrightarrow> \<not> is_space (hd (trim_left s))"
  by (simp add: trim_left_def hd_dropWhile)

lemma suffix_trim_left: "suffix (trim_left s) s"
  by (metis suffix_dropWhile trim_left_def)

lemma prefix_trim_space: "prefix (trim_space s) (trim_left s)"
  by (metis rev_rev_ident suffix_to_prefix suffix_trim_left trim_space_def)

lemma length_trim_space: "length (trim_space s) \<le> length s"
  by (meson le_trans prefix_length_le prefix_trim_space suffix_length_le suffix_trim_left)

lemma trim_left_trim_space: "trim_left (trim_space s) = trim_space s"
proof (cases "trim_space s")
  case Nil
  then show ?thesis by (simp add: trim_left_def)
next
  case (Cons c r)
  with prefix_trim_space [of s] have "trim_left s \<noteq> []" and "hd (trim_left s) = c"
    by (auto simp: prefix_def)
  with hd_trim_left [of s] have "\<not> is_space c" by simp
  with Cons show ?thesis by (simp add: trim_left_def)
qed

lemma trim_space_idem [simp]: "trim_space (trim_space s) = trim_space s"
  by (metis rev_rev_ident trim_left_idem trim_left_trim_space trim_space_def)

lemma set_remove_all: "set (remove_all t s) \<subseteq> set s"
proof (induction t s rule: remove_all.induct)
  case (2 t c s)
  show ?case
  proof (cases "t \<noteq> [] \<and> prefix t (c # s)")
    case True
    with "2.IH"(1) have "set (remove_all t (drop (length t) (c # s))) \<subseteq> set (c # s)"
      using set_drop_subset [of "length t" "c # s"] by blast
    with True show ?thesis by simp
  next
    case False
    with "2.IH"(2) show ?thesis by auto
  qed
qed simp

lemma remove_all_single: "remove_all [c] s = filter (\<lambda>d. d \<noteq> c) s"
  by (induction s) auto

lemma length_remove_all: "length (remove_all t s) \<le> length s"
proof (induction t s rule: remove_all.induct)
  case (2 t c s)
  show ?case
  proof (cases "t \<noteq> [] \<and> prefix t (c # s)")
    case True
    with "2.IH"(1) have "length (remove_all t (drop (length t) (c # s))) \<le> length (c # s) - length t"
      by simp
    with True show ?thesis by simp
  next
    case False
    with "2.IH"(2) show ?thesis by auto
  qed
qed simp

lemma split_on_not_Nil [simp]: "split_on d s \<noteq> []"
  by (induction s) (auto split: list.splits)

lemma join_split_on: "join [d] (split_on d s) = s"
proof (induction s)
  case (Cons c s)
  obtain w ws where w: "split_on d s = w # ws"
    by (meson neq_Nil_conv split_on_not_Nil)
  with Cons.IH show ?case
    by (cases ws) auto
qed simp

section \<open>Numbers as text\<close>

definition digit_char :: "nat \<Rightarrow> char" where
  "digit_char d = char_of (48 + d)"

function show_nat :: "nat \<Rightarrow> string" where
  "show_nat n = (if n < 10 then [digit_char n] else show_nat (n div 10) @ [digit_char (n mod 10)])"
  by pat_completeness auto
termination
  by (relation "measure id") auto

declare show_nat.simps [simp del]

text \<open>\<^verbatim>\<open>fmt\<close>'s \<^verbatim>\<open>%d\<close>.\<close>

definition show_int :: "int \<Rightarrow> string" where
  "show_int i = (if i < 0 then CHR ''-'' # show_nat (nat (- i)) else show_nat (nat i))"

definition digit_val :: "char \<Rightarrow> nat" where
  "digit_val c = code_of c - 48"

definition read_nat :: "string \<Rightarrow> nat" where
  "read_nat s = foldl (\<lambda>n c. 10 * n + digit_val c) 0 s"

lemma digit_val_digit_char: "d < 10 \<Longrightarrow> digit_val (digit_char d) = d"
  by (simp add: digit_val_def digit_char_def code_of_char_of)

lemma is_digit_digit_char: "d < 10 \<Longrightarrow> is_digit (digit_char d)"
  by (simp add: is_digit_code digit_char_def code_of_char_of)

lemma read_show_nat: "read_nat (show_nat n) = n"
proof (induction n rule: show_nat.induct)
  case (1 n)
  show ?case
  proof (cases "n < 10")
    case True
    then show ?thesis
      by (simp add: show_nat.simps [of n] read_nat_def digit_val_digit_char)
  next
    case False
    with "1.IH" have "read_nat (show_nat (n div 10)) = n div 10" by simp
    with False show ?thesis
      by (simp add: show_nat.simps [of n] read_nat_def digit_val_digit_char)
  qed
qed

lemma show_nat_digits: "list_all is_digit (show_nat n)"
proof (induction n rule: show_nat.induct)
  case (1 n)
  then show ?case
    by (cases "n < 10") (simp_all add: show_nat.simps [of n] is_digit_digit_char)
qed

lemma show_nat_not_Nil [simp]: "show_nat n \<noteq> []"
  by (subst show_nat.simps) simp

lemma show_nat_inj: "show_nat m = show_nat n \<Longrightarrow> m = n"
  by (metis read_show_nat)

lemmas [go_string] = case_defs trim_space_def trim_left_def up_def low_def char_class_defs is_space_def
  code_of_def has_prefix_def trim_prefix_def digit_char_def

end
