(* ===== verification/Float64.thy ===== *)
theory Float64
  imports Complex_Main GoStrings "HOL-Library.Log_Nat"
begin

text \<open>
  Go's \<^verbatim>\<open>float64\<close> on an amd64 machine. A finite float64 is read as the rational number it
  denotes, and every arithmetic operation is the exact operation followed by \<open>rnd64\<close>, IEEE
  round to nearest, ties to even, with 53 significant bits and gradual underflow below
  \<open>2 powi (-1022)\<close>. Not modelled: overflow to an infinity (magnitudes from \<open>2 powi 1024\<close> on),
  NaN and the sign of zero. No JSON number is a NaN or an infinity.

  The locale \<open>rounding\<close> is what the sensor decoders and the diagnosis rules need of a
  rounding; its interpretation on \<open>rnd64\<close> discharges it.
\<close>

type_synonym float64 = rat

section \<open>Rounding\<close>

definition round_even :: "rat \<Rightarrow> int" where
  "round_even x =
     (let n = \<lfloor>x\<rfloor>; d = x - of_int n
      in if d < 1 / 2 \<or> (d = 1 / 2 \<and> even n) then n else n + 1)"

text \<open>The binary exponent: \<open>2 powi expo x \<le> \<bar>x\<bar> < 2 powi (expo x + 1)\<close> where \<open>x\<close> is not 0.\<close>

definition expo :: "rat \<Rightarrow> int" where
  "expo x =
     (let (p, q) = quotient_of \<bar>x\<bar>; k = bitlen p - bitlen q
      in if 2 powi k \<le> \<bar>x\<bar> then k else k - 1)"

definition ulp_exp :: "rat \<Rightarrow> int" where
  "ulp_exp x = max (expo x) (- 1022) - 52"

definition rnd_at :: "int \<Rightarrow> rat \<Rightarrow> rat" where
  "rnd_at e x = of_int (round_even (x / 2 powi e)) * 2 powi e"

definition rnd64 :: "rat \<Rightarrow> float64" where
  "rnd64 x = (if x = 0 then 0 else rnd_at (ulp_exp x) x)"

definition f64_add :: "float64 \<Rightarrow> float64 \<Rightarrow> float64" where
  "f64_add x y = rnd64 (x + y)"

definition f64_sub :: "float64 \<Rightarrow> float64 \<Rightarrow> float64" where
  "f64_sub x y = rnd64 (x - y)"

definition f64_mul :: "float64 \<Rightarrow> float64 \<Rightarrow> float64" where
  "f64_mul x y = rnd64 (x * y)"

definition f64_div :: "float64 \<Rightarrow> float64 \<Rightarrow> float64" where
  "f64_div x y = rnd64 (x / y)"

lemmas f64_defs = f64_add_def f64_sub_def f64_mul_def f64_div_def

lemma round_even_of_int [simp]: "round_even (of_int n) = n"
  by (simp add: round_even_def)

lemma round_even_near: "\<bar>of_int (round_even x) - x\<bar> \<le> 1 / 2"
proof -
  have "of_int \<lfloor>x\<rfloor> \<le> x" "x < of_int \<lfloor>x\<rfloor> + 1"
    by linarith+
  then show ?thesis
    by (simp add: round_even_def Let_def abs_le_iff)
qed

lemma round_even_mono: "x \<le> y \<Longrightarrow> round_even x \<le> round_even y"
proof -
  assume xy: "x \<le> y"
  show ?thesis
  proof (cases "\<lfloor>x\<rfloor> = \<lfloor>y\<rfloor>")
    case True
    with xy show ?thesis by (auto simp: round_even_def Let_def)
  next
    case False
    with floor_mono [OF xy] have "\<lfloor>x\<rfloor> + 1 \<le> \<lfloor>y\<rfloor>" by simp
    moreover have "round_even x \<le> \<lfloor>x\<rfloor> + 1" and "\<lfloor>y\<rfloor> \<le> round_even y"
      by (simp_all add: round_even_def Let_def)
    ultimately show ?thesis by linarith
  qed
qed

lemma round_even_minus: "round_even (- x) = - round_even x"
proof (cases "x = of_int \<lfloor>x\<rfloor>")
  case True
  then have "- x = of_int (- \<lfloor>x\<rfloor>)" by simp
  then have "round_even (- x) = - \<lfloor>x\<rfloor>" by (simp only: round_even_of_int)
  with True show ?thesis by (metis round_even_of_int)
next
  case False
  then have lt: "of_int \<lfloor>x\<rfloor> < x" using of_int_floor_le [of x] by linarith
  have "\<lfloor>- x\<rfloor> = - \<lfloor>x\<rfloor> - 1"
    using lt by (intro floor_unique) (auto, linarith)
  then show ?thesis
    by (auto simp: round_even_def Let_def)
qed

lemma two_powi_pos [simp]: "(0::rat) < 2 powi k"
  by simp

lemma two_powi_mono: "j \<le> k \<Longrightarrow> (2::rat) powi j \<le> 2 powi k"
  by (rule power_int_increasing) auto

lemma two_powi_less_iff: "(2::rat) powi j < 2 powi k \<longleftrightarrow> j < k"
  by (metis linorder_not_le one_less_numeral_iff order_less_irrefl power_int_strict_increasing
      semiring_norm(76) two_powi_mono order_less_le_trans)

lemma two_powi_of_nat: "(2::rat) powi int n = of_int (2 ^ n)"
  by simp

lemma bitlen_powi:
  assumes "0 < n"
  shows "2 powi (bitlen n - 1) \<le> (of_int n :: rat)" and "(of_int n :: rat) < 2 powi bitlen n"
proof -
  have b: "1 \<le> bitlen n"
    using assms by (metis bitlen_eq_zero_iff bitlen_nonneg linorder_not_le order_antisym_conv zle_diff1_eq diff_ge_0_iff_ge)
  have lo: "2 ^ nat (bitlen n - 1) \<le> n" and hi: "n < 2 ^ nat (bitlen n)"
    using bitlen_bounds [OF assms] by simp_all
  have "2 powi (bitlen n - 1) = (of_int (2 ^ nat (bitlen n - 1)) :: rat)"
    using b by (simp add: power_int_def)
  with lo show "2 powi (bitlen n - 1) \<le> (of_int n :: rat)"
    by (simp only: of_int_le_iff)
  have "2 powi bitlen n = (of_int (2 ^ nat (bitlen n)) :: rat)"
    using b by (simp add: power_int_def)
  with hi show "(of_int n :: rat) < 2 powi bitlen n"
    by (simp only: of_int_less_iff)
qed

lemma expo_bounds:
  assumes "x \<noteq> 0"
  shows "2 powi expo x \<le> \<bar>x\<bar>" and "\<bar>x\<bar> < 2 powi (expo x + 1)"
proof -
  obtain p q where pq: "quotient_of \<bar>x\<bar> = (p, q)" by fastforce
  then have q: "0 < q" and x: "\<bar>x\<bar> = of_int p / of_int q"
    by (auto dest: quotient_of_denom_pos quotient_of_div)
  have p: "0 < p"
    using assms q x by (metis abs_le_zero_iff divide_nonpos_pos linorder_not_le of_int_0_less_iff of_int_le_0_iff)
  have "\<bar>x\<bar> * of_int q = of_int p"
    using x q by simp
  also have "\<dots> < 2 powi bitlen p"
    by (rule bitlen_powi [OF p])
  also have "\<dots> = 2 powi (bitlen p - bitlen q + 1) * 2 powi (bitlen q - 1)"
    by (simp flip: power_int_add)
  also have "\<dots> \<le> 2 powi (bitlen p - bitlen q + 1) * of_int q"
    by (rule mult_left_mono [OF bitlen_powi(1) [OF q]]) simp
  finally have hi: "\<bar>x\<bar> < 2 powi (bitlen p - bitlen q + 1)"
    using q by simp
  have "(2::rat) powi (bitlen p - bitlen q - 1) * of_int q \<le> 2 powi (bitlen p - bitlen q - 1) * 2 powi bitlen q"
    by (rule mult_left_mono [OF less_imp_le [OF bitlen_powi(2) [OF q]]]) simp
  also have "\<dots> = 2 powi (bitlen p - 1)"
    by (simp flip: power_int_add)
  also have "\<dots> \<le> of_int p"
    by (rule bitlen_powi [OF p])
  finally have lo: "2 powi (bitlen p - bitlen q - 1) \<le> \<bar>x\<bar>"
    using q x by (simp add: pos_le_divide_eq)
  show "2 powi expo x \<le> \<bar>x\<bar>" and "\<bar>x\<bar> < 2 powi (expo x + 1)"
    using hi lo by (auto simp: expo_def pq Let_def)
qed

lemma expo_mono:
  assumes "x \<noteq> 0" and "\<bar>x\<bar> \<le> \<bar>y\<bar>"
  shows "expo x \<le> expo y"
proof (rule ccontr)
  assume "\<not> expo x \<le> expo y"
  then have "2 powi (expo y + 1) \<le> (2::rat) powi expo x" by (intro two_powi_mono) simp
  moreover have "y \<noteq> 0" using assms by auto
  ultimately show False
    using expo_bounds(1) [OF assms(1)] expo_bounds(2) [of y] assms(2) by linarith
qed

lemma rnd_at_mono: "x \<le> y \<Longrightarrow> rnd_at e x \<le> rnd_at e y"
  by (simp add: rnd_at_def divide_right_mono round_even_mono)

lemma rnd_at_mult [simp]: "rnd_at e (of_int n * 2 powi e) = of_int n * 2 powi e"
  by (simp add: rnd_at_def)

lemma rnd_at_minus: "rnd_at e (- x) = - rnd_at e x"
  by (simp add: rnd_at_def round_even_minus)

lemma rnd_at_powi: "e \<le> k \<Longrightarrow> rnd_at e (2 powi k) = 2 powi k"
proof -
  assume "e \<le> k"
  then have "(of_int (2 ^ nat (k - e)) :: rat) = 2 powi (k - e)"
    by (simp add: power_int_def)
  then have "(2::rat) powi k = of_int (2 ^ nat (k - e)) * 2 powi e"
    by (simp flip: power_int_add)
  then show ?thesis by (metis rnd_at_mult)
qed

lemma rnd64_0 [simp]: "rnd64 0 = 0"
  by (simp add: rnd64_def)

lemma rnd64_minus: "rnd64 (- x) = - rnd64 x"
  by (simp add: rnd64_def rnd_at_def ulp_exp_def expo_def round_even_minus)

lemma rnd64_nonneg: "0 \<le> x \<Longrightarrow> 0 \<le> rnd64 x"
  using rnd_at_mono [of 0 x "ulp_exp x"] rnd_at_mult [of "ulp_exp x" 0]
  by (simp add: rnd64_def)

lemma rnd64_mono_pos:
  assumes "0 < x" and "x \<le> y"
  shows "rnd64 x \<le> rnd64 y"
proof (cases "ulp_exp x = ulp_exp y")
  case True
  with assms show ?thesis by (simp add: rnd64_def rnd_at_mono)
next
  case False
  moreover have "expo x \<le> expo y"
    using assms by (intro expo_mono) auto
  ultimately have k: "ulp_exp x \<le> expo y" "ulp_exp y \<le> expo y" "expo x + 1 \<le> expo y"
    by (auto simp: ulp_exp_def)
  have "x \<le> 2 powi expo y"
    using expo_bounds(2) [of x] assms(1) two_powi_mono [OF k(3)] by simp
  then have "rnd64 x \<le> 2 powi expo y"
    using assms(1) rnd_at_mono [of x "2 powi expo y" "ulp_exp x"] rnd_at_powi [OF k(1)]
    by (simp add: rnd64_def)
  also have "2 powi expo y \<le> rnd64 y"
    using assms expo_bounds(1) [of y] rnd_at_mono [of "2 powi expo y" y "ulp_exp y"] rnd_at_powi [OF k(2)]
    by (simp add: rnd64_def)
  finally show ?thesis .
qed

lemma rnd64_mono: "x \<le> y \<Longrightarrow> rnd64 x \<le> rnd64 y"
proof -
  assume xy: "x \<le> y"
  consider "0 < x" | "x \<le> 0" "0 \<le> y" | "y < 0" by linarith
  then show ?thesis
  proof cases
    case 1
    with xy show ?thesis by (simp add: rnd64_mono_pos)
  next
    case 2
    then have "rnd64 x \<le> 0"
      using rnd64_nonneg [of "- x"] by (simp add: rnd64_minus)
    with 2 rnd64_nonneg [of y] show ?thesis by linarith
  next
    case 3
    with xy show ?thesis
      using rnd64_mono_pos [of "- y" "- x"] by (simp add: rnd64_minus)
  qed
qed

text \<open>A value with at most 53 significant bits is a float64 and is not changed.\<close>

lemma rnd64_exact:
  assumes n: "\<bar>n\<bar> \<le> 2 ^ 53" and k: "- 1074 \<le> k"
  shows "rnd64 (of_int n * 2 powi k) = of_int n * 2 powi k" (is "rnd64 ?x = ?x")
proof (cases "n = 0")
  case False
  then have x: "?x \<noteq> 0" by simp
  have abs: "\<bar>?x\<bar> = of_int \<bar>n\<bar> * 2 powi k"
    by (simp add: abs_mult)
  have "(of_int \<bar>n\<bar> :: rat) \<le> of_int (2 ^ 53)"
    using n by (simp only: of_int_le_iff)
  then have le: "\<bar>?x\<bar> \<le> 2 ^ 53 * 2 powi k"
    unfolding abs by (intro mult_right_mono) auto
  have p53: "(2::rat) ^ 53 * 2 powi k = 2 powi (53 + k)"
    by (simp add: power_int_add)
  show ?thesis
  proof (cases "ulp_exp ?x \<le> k")
    case True
    then have "(of_int (2 ^ nat (k - ulp_exp ?x)) :: rat) = 2 powi (k - ulp_exp ?x)"
      by (simp add: power_int_def)
    then have "?x = of_int (n * 2 ^ nat (k - ulp_exp ?x)) * 2 powi ulp_exp ?x"
      by (simp add: mult.assoc flip: power_int_add)
    with x show ?thesis
      by (metis rnd64_def rnd_at_mult)
  next
    case False
    with k have u: "ulp_exp ?x = expo ?x - 52" "k + 53 \<le> expo ?x"
      by (auto simp: ulp_exp_def)
    have "2 powi expo ?x \<le> \<bar>?x\<bar>"
      by (rule expo_bounds [OF x])
    with le p53 two_powi_mono [of "53 + k" "expo ?x"] u have "\<bar>?x\<bar> = 2 powi expo ?x"
      by (simp add: add.commute)
    then consider "?x = 2 powi expo ?x" | "?x = - (2 powi expo ?x)"
      by linarith
    moreover have "rnd_at (ulp_exp ?x) (2 powi expo ?x) = 2 powi expo ?x"
      by (rule rnd_at_powi) (simp add: u)
    moreover have "rnd64 ?x = rnd_at (ulp_exp ?x) ?x"
      using x by (simp only: rnd64_def if_False)
    ultimately show ?thesis
      by cases (metis, metis rnd_at_minus)
  qed
qed simp

text \<open>The error of a rounding in the normal range: half a unit in the last place.\<close>

lemma rnd64_error:
  assumes "x \<noteq> 0" and "- 1022 \<le> expo x"
  shows "\<bar>rnd64 x - x\<bar> \<le> \<bar>x\<bar> * 2 powi (- 53)"
proof -
  let ?u = "(2::rat) powi ulp_exp x"
  have "rnd64 x - x = (of_int (round_even (x / ?u)) - x / ?u) * ?u"
    using assms(1) by (simp add: rnd64_def rnd_at_def left_diff_distrib)
  then have "\<bar>rnd64 x - x\<bar> \<le> 1 / 2 * ?u"
    using round_even_near [of "x / ?u"] by (simp add: abs_mult mult_right_mono)
  also have "\<dots> = 2 powi (- 53) * 2 powi expo x"
    using assms(2) by (simp add: ulp_exp_def power_int_diff power_int_minus)
  also have "\<dots> \<le> 2 powi (- 53) * \<bar>x\<bar>"
    by (rule mult_left_mono [OF expo_bounds(1) [OF assms(1)]]) simp
  finally show ?thesis by (simp add: mult.commute)
qed

section \<open>What the users of the arithmetic rely on\<close>

locale rounding =
  fixes rnd :: "rat \<Rightarrow> rat"
  assumes rnd_mono: "x \<le> y \<Longrightarrow> rnd x \<le> rnd y"
    and rnd_dyadic: "\<bar>n\<bar> \<le> 2 ^ 53 \<Longrightarrow> - 1074 \<le> k \<Longrightarrow> rnd (of_int n * 2 powi k) = of_int n * 2 powi k"
    and rnd_neg: "rnd (- x) = - rnd x"
begin

lemma rnd_int: "\<bar>n\<bar> \<le> 2 ^ 53 \<Longrightarrow> rnd (of_int n) = of_int n"
  using rnd_dyadic [of n 0] by simp

lemma rnd_zero: "rnd 0 = 0"
  using rnd_int [of 0] by simp

lemma rnd_ge_0: "0 \<le> x \<Longrightarrow> 0 \<le> rnd x"
  using rnd_mono [of 0 x] by (simp add: rnd_zero)

lemma rnd_range:
  assumes "of_int a \<le> x" and "x \<le> of_int b" and "\<bar>a\<bar> \<le> 2 ^ 53" and "\<bar>b\<bar> \<le> 2 ^ 53"
  shows "of_int a \<le> rnd x" and "rnd x \<le> of_int b"
  using rnd_mono [OF assms(1)] rnd_mono [OF assms(2)] rnd_int [OF assms(3)] rnd_int [OF assms(4)]
  by simp_all

lemma rnd_abs: "rnd \<bar>x\<bar> = \<bar>rnd x\<bar>"
  using rnd_ge_0 [of x] rnd_ge_0 [of "- x"] by (auto simp: abs_if rnd_neg)

end

interpretation f64: rounding rnd64
  by unfold_locales (simp_all add: rnd64_mono rnd64_exact rnd64_minus)

section \<open>Conversions and decimal text\<close>

text \<open>
  \<^verbatim>\<open>float64(i)\<close> of an integer, \<^verbatim>\<open>int(x)\<close> (towards zero), and the text of
  \<^verbatim>\<open>%.<prec>f\<close>: \<^verbatim>\<open>strconv\<close> rounds the exact value to \<open>prec\<close> decimals, ties to even, and
  prints a minus sign for every negative value, also for one that rounds to zero.
\<close>

definition f64_of_int :: "int \<Rightarrow> float64" where
  "f64_of_int i = rnd64 (of_int i)"

definition f64_to_int :: "float64 \<Rightarrow> int" where
  "f64_to_int x = (if x < 0 then \<lceil>x\<rceil> else \<lfloor>x\<rfloor>)"

definition pad_zeros :: "nat \<Rightarrow> string \<Rightarrow> string" where
  "pad_zeros n s = replicate (n - length s) (CHR ''0'') @ s"

definition fmt_fixed :: "nat \<Rightarrow> float64 \<Rightarrow> string" where
  "fmt_fixed prec x =
     (let n = nat (round_even (\<bar>x\<bar> * 10 ^ prec))
      in (if x < 0 then [CHR ''-''] else [])
         @ show_nat (n div 10 ^ prec)
         @ (if prec = 0 then [] else CHR ''.'' # pad_zeros prec (show_nat (n mod 10 ^ prec))))"

lemma f64_of_int_exact: "\<bar>i\<bar> \<le> 2 ^ 53 \<Longrightarrow> f64_of_int i = of_int i"
  by (simp add: f64_of_int_def f64.rnd_int)

lemma f64_to_int_of_int [simp]: "f64_to_int (of_int i) = i"
  by (simp add: f64_to_int_def)

end
