(* ===== verification/Json.thy ===== *)
theory Json
  imports Float64
begin

text \<open>
  The part of \<^verbatim>\<open>encoding/json\<close> that \<^verbatim>\<open>internal/explain\<close> writes with: compact text of strings, numbers, arrays and
  objects, with the escapes of \<^verbatim>\<open>Marshal\<close> (control characters, quotes, the characters of HTML, the two line separators
  of Unicode, and a replacement for bytes that are not UTF-8). A reader is the reference: what is written from well-formed text reads back.
  A number is written as the shortest decimal that rounds to it, for magnitudes from \<open>2 powi (-19)\<close> to \<open>2 ^ 40\<close>, where \<^verbatim>\<open>Marshal\<close> uses no
  exponent.
\<close>

section \<open>UTF-8\<close>

definition in_bytes :: "nat \<Rightarrow> nat \<Rightarrow> char \<Rightarrow> bool" where
  "in_bytes lo hi c \<longleftrightarrow> lo \<le> code_of c \<and> code_of c \<le> hi"

abbreviation cont_byte :: "char \<Rightarrow> bool" where
  "cont_byte \<equiv> in_bytes 0x80 0xBF"

definition rune2 :: "char \<Rightarrow> char \<Rightarrow> bool" where
  "rune2 a b \<longleftrightarrow> in_bytes 0xC2 0xDF a \<and> cont_byte b"

definition rune3 :: "char \<Rightarrow> char \<Rightarrow> char \<Rightarrow> bool" where
  "rune3 a b c \<longleftrightarrow> in_bytes 0xE0 0xEF a \<and> cont_byte c
     \<and> in_bytes (if code_of a = 0xE0 then 0xA0 else 0x80) (if code_of a = 0xED then 0x9F else 0xBF) b"

definition rune4 :: "char \<Rightarrow> char \<Rightarrow> char \<Rightarrow> char \<Rightarrow> bool" where
  "rune4 a b c d \<longleftrightarrow> in_bytes 0xF0 0xF4 a \<and> cont_byte c \<and> cont_byte d
     \<and> in_bytes (if code_of a = 0xF0 then 0x90 else 0x80) (if code_of a = 0xF4 then 0x8F else 0xBF) b"

text \<open>The length of the multi-byte rune at the start of a text, 0 when there is no well-formed one (\<^verbatim>\<open>utf8.DecodeRune\<close>).\<close>

definition rune_size :: "string \<Rightarrow> nat" where
  "rune_size s =
     (if 2 \<le> length s \<and> rune2 (s ! 0) (s ! 1) then 2
      else if 3 \<le> length s \<and> rune3 (s ! 0) (s ! 1) (s ! 2) then 3
      else if 4 \<le> length s \<and> rune4 (s ! 0) (s ! 1) (s ! 2) (s ! 3) then 4
      else 0)"

lemmas rune_defs = rune2_def rune3_def rune4_def in_bytes_def

lemma rune_size_le: "rune_size s \<le> length s"
  by (simp add: rune_size_def)

lemma rune_cases:
  assumes "0 < rune_size s"
  obtains a b r where "s = a # b # r" "rune2 a b" "rune_size s = 2"
  | a b c r where "s = a # b # c # r" "rune3 a b c" "rune_size s = 3"
  | a b c d r where "s = a # b # c # d # r" "rune4 a b c d" "rune_size s = 4"
proof -
  consider "2 \<le> length s" "rune2 (s ! 0) (s ! 1)" "rune_size s = 2"
    | "3 \<le> length s" "rune3 (s ! 0) (s ! 1) (s ! 2)" "rune_size s = 3"
    | "4 \<le> length s" "rune4 (s ! 0) (s ! 1) (s ! 2) (s ! 3)" "rune_size s = 4"
    using assms by (auto simp: rune_size_def split: if_splits)
  then show thesis
  proof cases
    case 1
    then obtain a b r where "s = a # b # r" by (auto simp: numeral_2_eq_2 Suc_le_length_iff)
    with 1 that(1) show thesis by simp
  next
    case 2
    then obtain a b c r where "s = a # b # c # r" by (auto simp: numeral_3_eq_3 Suc_le_length_iff)
    with 2 that(2) show thesis by simp
  next
    case 3
    then obtain a b c d r where "s = a # b # c # d # r" by (auto simp: numeral_eq_Suc Suc_le_length_iff)
    with 3 that(3) show thesis by (simp add: numeral_eq_Suc)
  qed
qed

lemma rune_size_high: "0 < rune_size s \<Longrightarrow> \<forall>c \<in> set (take (rune_size s) s). 128 \<le> code_of c"
  by (erule rune_cases) (auto simp: rune_defs split: if_splits)

text \<open>Well-formed text.\<close>

function utf8_ok :: "string \<Rightarrow> bool" where
  "utf8_ok [] = True"
| "utf8_ok (c # cs) =
     (if code_of c < 128 then utf8_ok cs
      else 0 < rune_size (c # cs) \<and> utf8_ok (drop (rune_size (c # cs) - 1) cs))"
  by pat_completeness auto
termination by (relation "measure length") auto

lemma utf8_ascii: "\<forall>c \<in> set s. code_of c < 128 \<Longrightarrow> utf8_ok s"
  by (induction s) auto

section \<open>Strings\<close>

text \<open>A byte below 128, and what \<^verbatim>\<open>Marshal\<close> writes for it.\<close>

definition hex_low :: "nat \<Rightarrow> char" where
  "hex_low n = (if n < 10 then char_of (48 + n) else char_of (87 + n))"

definition escape :: "char \<Rightarrow> string" where
  "escape c =
     (if c = CHR 0x22 \<or> c = CHR 0x5C then [CHR 0x5C, c]
      else if c = CHR 0x08 then [CHR 0x5C, CHR ''b'']
      else if c = CHR 0x0C then [CHR 0x5C, CHR ''f'']
      else if c = CHR 0x0A then [CHR 0x5C, CHR ''n'']
      else if c = CHR 0x0D then [CHR 0x5C, CHR ''r'']
      else if c = CHR 0x09 then [CHR 0x5C, CHR ''t'']
      else if code_of c < 32 \<or> c \<in> {CHR ''<'', CHR ''>'', CHR ''&''}
      then [CHR 0x5C, CHR ''u'', CHR ''0'', CHR ''0'', hex_low (code_of c div 16), hex_low (code_of c mod 16)]
      else [c])"

definition line_sep :: "char \<Rightarrow> string" where
  "line_sep c = [CHR 0xE2, CHR 0x80, c]"

function json_chars :: "string \<Rightarrow> string" where
  "json_chars [] = []"
| "json_chars (c # cs) =
     (if code_of c < 128 then escape c @ json_chars cs
      else if rune_size (c # cs) = 0 then CHR 0x5C # ''ufffd'' @ json_chars cs
      else if prefix (line_sep (CHR 0xA8)) (c # cs) then CHR 0x5C # ''u2028'' @ json_chars (drop 2 cs)
      else if prefix (line_sep (CHR 0xA9)) (c # cs) then CHR 0x5C # ''u2029'' @ json_chars (drop 2 cs)
      else take (rune_size (c # cs)) (c # cs) @ json_chars (drop (rune_size (c # cs) - 1) cs))"
  by pat_completeness auto
termination by (relation "measure length") auto

text \<open>Reading up to the closing quote.\<close>

definition hex_val :: "char \<Rightarrow> nat" where
  "hex_val c = (if is_digit c then code_of c - 48 else code_of c - 87)"

definition unicode :: "char \<Rightarrow> char \<Rightarrow> char \<Rightarrow> char \<Rightarrow> string" where
  "unicode a b c d =
     (let n = ((hex_val a * 16 + hex_val b) * 16 + hex_val c) * 16 + hex_val d
      in if n < 128 then [char_of n]
         else if n < 2048 then [char_of (0xC0 + n div 64), char_of (0x80 + n mod 64)]
         else [char_of (0xE0 + n div 4096), char_of (0x80 + n div 64 mod 64), char_of (0x80 + n mod 64)])"

definition unescape :: "char \<Rightarrow> char" where
  "unescape e =
     (if e = CHR ''b'' then CHR 0x08 else if e = CHR ''f'' then CHR 0x0C else if e = CHR ''n'' then CHR 0x0A
      else if e = CHR ''r'' then CHR 0x0D else if e = CHR ''t'' then CHR 0x09 else e)"

fun read_str :: "string \<Rightarrow> (string \<times> string) option" where
  "read_str [] = None"
| "read_str (c # cs) =
     (if c = CHR 0x22 then Some ([], cs)
      else if c = CHR 0x5C
      then (case cs of
              [] \<Rightarrow> None
            | e # r \<Rightarrow>
                if e = CHR ''u''
                then (case r of
                        x # y # z # w # t \<Rightarrow> map_option (\<lambda>(s, q). (unicode x y z w @ s, q)) (read_str t)
                      | _ \<Rightarrow> None)
                else map_option (\<lambda>(s, q). (unescape e # s, q)) (read_str r))
      else map_option (\<lambda>(s, q). (c # s, q)) (read_str cs))"

lemma hex_val_low: "n < 16 \<Longrightarrow> hex_val (hex_low n) = n"
  by (auto simp: hex_val_def hex_low_def is_digit_code code_of_char_of)

lemma unicode_byte:
  assumes "code_of c < 128"
  shows "unicode (CHR ''0'') (CHR ''0'') (hex_low (code_of c div 16)) (hex_low (code_of c mod 16)) = [c]"
proof -
  have "hex_val (CHR ''0'') = 0" by (simp add: hex_val_def is_digit_def code_of_def)
  moreover have "code_of c div 16 * 16 + code_of c mod 16 = code_of c" by simp
  moreover have "char_of (code_of c) = c" by (simp add: code_of_def)
  ultimately show ?thesis using assms by (simp add: unicode_def hex_val_low)
qed

lemma read_escape:
  assumes "code_of c < 128"
  shows "read_str (escape c @ t) = map_option (\<lambda>(s, q). (c # s, q)) (read_str t)"
  using unicode_byte [OF assms] by (simp add: escape_def unescape_def)

lemma read_plain:
  "\<forall>c \<in> set xs. 128 \<le> code_of c \<Longrightarrow> read_str (xs @ t) = map_option (\<lambda>(s, q). (xs @ s, q)) (read_str t)"
proof (induction xs)
  case (Cons c xs)
  have "c \<noteq> CHR 0x22" "c \<noteq> CHR 0x5C"
    using Cons.prems by (auto simp: code_of_def)
  with Cons show ?case by (simp add: option.map_comp comp_def case_prod_beta)
qed (simp add: option.map_id)

lemma unicode_seps:
  "unicode (CHR ''2'') (CHR ''0'') (CHR ''2'') (CHR ''8'') = line_sep (CHR 0xA8)"
  "unicode (CHR ''2'') (CHR ''0'') (CHR ''2'') (CHR ''9'') = line_sep (CHR 0xA9)"
  by (simp_all add: unicode_def line_sep_def hex_val_def is_digit_def code_of_def Let_def char_of_eq_iff)

lemma sep_rune: "prefix (line_sep c) s \<Longrightarrow> 0 < rune_size s \<Longrightarrow> rune_size s = 3 \<and> s = line_sep c @ drop 3 s"
  by (erule rune_cases) (auto simp: line_sep_def rune_defs prefix_def code_of_def numeral_eq_Suc)

text \<open>What is written reads back.\<close>

lemma read_json_chars: "utf8_ok s \<Longrightarrow> read_str (json_chars s @ CHR 0x22 # r) = Some (s, r)"
proof (induction s rule: json_chars.induct)
  case (2 c cs)
  let ?n = "rune_size (c # cs)"
  note ok = "2.prems" and IH = "2.IH"
  show ?case
  proof (cases "code_of c < 128")
    case True
    with ok IH(1) show ?thesis by (simp add: read_escape)
  next
    case False
    with ok have n: "0 < ?n" and rest: "utf8_ok (drop (?n - 1) cs)" by simp_all
    have seps: "read_str (CHR 0x5C # ''u2028'' @ json_chars (drop 2 cs) @ CHR 0x22 # r) = Some (c # cs, r)"
      if "prefix (line_sep (CHR 0xA8)) (c # cs)"
      using False n rest IH(3) that sep_rune [OF that n] by (simp add: unicode_seps)
    have seps': "read_str (CHR 0x5C # ''u2029'' @ json_chars (drop 2 cs) @ CHR 0x22 # r) = Some (c # cs, r)"
      if "prefix (line_sep (CHR 0xA9)) (c # cs)" "\<not> prefix (line_sep (CHR 0xA8)) (c # cs)"
      using False n rest IH(4) that sep_rune [OF that(1) n] by (simp add: unicode_seps)
    have plain: "read_str (take ?n (c # cs) @ json_chars (drop (?n - 1) cs) @ CHR 0x22 # r) = Some (c # cs, r)"
      if "\<not> prefix (line_sep (CHR 0xA9)) (c # cs)" "\<not> prefix (line_sep (CHR 0xA8)) (c # cs)"
    proof -
      have "take ?n (c # cs) @ drop (?n - 1) cs = c # cs"
        using n by (metis append_take_drop_id drop_Cons' less_numeral_extra(3))
      then show ?thesis
        using read_plain [OF rune_size_high [OF n]] IH(5) False n rest that by simp
    qed
    show ?thesis
      using False n seps seps' plain by simp
  qed
qed simp

section \<open>Numbers\<close>

text \<open>The least number of decimals with which the nearest decimal rounds back to the magnitude.\<close>

definition decimal :: "nat \<Rightarrow> rat \<Rightarrow> rat" where
  "decimal k x = of_int (round_even (\<bar>x\<bar> * 10 ^ k)) / 10 ^ k"

definition decimals :: "float64 \<Rightarrow> nat option" where
  "decimals x = find (\<lambda>k. rnd64 (decimal k x) = \<bar>x\<bar>) [0..<32]"

definition json_float :: "float64 \<Rightarrow> string" where
  "json_float x = fmt_fixed (case decimals x of Some k \<Rightarrow> k | None \<Rightarrow> 0) x"

definition read_float :: "string \<Rightarrow> float64" where
  "read_float s =
     (let neg = (s \<noteq> [] \<and> hd s = CHR ''-'');
          parts = split_on (CHR ''.'') (if neg then tl s else s);
          frac = concat (tl parts);
          m = rnd64 (of_nat (read_nat (hd parts @ frac)) / 10 ^ length frac)
      in if neg then - m else m)"

lemma round_even_close: "\<bar>y - of_int m\<bar> < 1 / 2 \<Longrightarrow> round_even y = m"
proof -
  assume y: "\<bar>y - of_int m\<bar> < 1 / 2"
  then have "\<lfloor>y\<rfloor> = m \<or> \<lfloor>y\<rfloor> = m - 1" by linarith
  then show ?thesis
  proof
    assume "\<lfloor>y\<rfloor> = m"
    with y show ?thesis by (auto simp: round_even_def Let_def abs_if split: if_splits)
  next
    assume "\<lfloor>y\<rfloor> = m - 1"
    with y show ?thesis by (auto simp: round_even_def Let_def abs_if split: if_splits)
  qed
qed

lemma scaled_dist:
  fixes v y z :: rat
  assumes "0 < v"
  shows "\<bar>y / v - z\<bar> = \<bar>y - z * v\<bar> / v"
proof -
  have "y / v - z = (y - z * v) / v" using assms by (simp add: diff_divide_distrib)
  then show ?thesis using assms by (simp add: abs_divide)
qed

text \<open>What is nearer to a float than a quarter of its last place rounds to it.\<close>

lemma rnd64_close:
  assumes "0 < x" and "rnd64 x = x" and "- 1021 \<le> expo x" and "\<bar>d - x\<bar> < 2 powi (expo x - 54)"
  shows "rnd64 d = x"
proof -
  define e u where "e = expo x" and "u = (2::rat) powi (e - 52)"
  have "ulp_exp x = e - 52" using assms(3) by (simp add: ulp_exp_def e_def)
  then obtain m where m: "x = of_int m * u"
    using assms(1,2) by (simp add: rnd64_def rnd_at_def u_def) (metis)
  have near: "\<bar>d - x\<bar> < u / 4" and pos: "0 < u"
    using assms(4) by (simp_all add: power_int_diff u_def e_def)
  have lo: "2 powi e \<le> x" and hi: "x < 2 powi (e + 1)"
    using expo_bounds [of x] assms(1) by (simp_all add: e_def)
  have ue: "(2::rat) powi e = 2 ^ 52 * u" "(2::rat) powi (e + 1) = 2 ^ 53 * u" "(2::rat) powi (e - 1) = 2 ^ 51 * u"
    by (simp_all add: u_def power_int_diff power_int_add)
  have "(of_int m :: rat) < of_int (2 ^ 53)"
    using hi pos by (simp add: m ue)
  then have "m + 1 \<le> 2 ^ 53"
    by (simp only: of_int_less_iff zless_imp_add1_zle)
  then have "(of_int (m + 1) :: rat) \<le> of_int (2 ^ 53)"
    by (simp only: of_int_le_iff)
  then have "(of_int m + 1 :: rat) \<le> 2 ^ 53"
    by simp
  then have "(of_int m + 1) * u \<le> 2 ^ 53 * u"
    using pos by (intro mult_right_mono) simp_all
  then have top: "x + u \<le> 2 powi (e + 1)"
    unfolding ue(2) m by (simp only: distrib_right mult_1_left)
  have "u \<le> 2 ^ 52 * u" using pos by simp
  then have "u \<le> x" using lo ue(1) by simp
  then have d: "0 < d" using near pos by linarith
  have bounds: "2 powi expo d \<le> d" "d < 2 powi (expo d + 1)"
    using expo_bounds [of d] d by simp_all
  have "\<not> e < expo d"
  proof
    assume "e < expo d"
    then have "(2::rat) powi (e + 1) \<le> 2 powi expo d" by (intro two_powi_mono) simp
    with bounds(1) top near pos show False by linarith
  qed
  moreover have "\<not> expo d + 1 \<le> e - 1"
  proof
    assume "expo d + 1 \<le> e - 1"
    then have "(2::rat) powi (expo d + 1) \<le> 2 powi (e - 1)" by (rule two_powi_mono)
    moreover have "2 powi e = 2 * (2::rat) powi (e - 1)" "u \<le> 2 powi (e - 1)"
      using pos unfolding ue by simp_all
    ultimately show False using bounds(2) lo near pos by linarith
  qed
  ultimately consider "expo d = e" | "expo d = e - 1" by linarith
  then show ?thesis
  proof cases
    case 1
    have "\<bar>d / u - of_int m\<bar> = \<bar>d - x\<bar> / u" by (simp add: scaled_dist [OF pos] m)
    also have "\<dots> < 1 / 2" using near pos by (simp add: pos_divide_less_eq)
    finally have "round_even (d / u) = m" by (rule round_even_close)
    moreover have "ulp_exp d = e - 52" using 1 assms(3) by (simp add: ulp_exp_def e_def)
    ultimately show ?thesis using d by (simp add: rnd64_def rnd_at_def m flip: u_def)
  next
    case 2
    have half: "(2::rat) powi (e - 53) = u / 2" by (simp add: u_def power_int_diff)
    have "0 < u / 2" using pos by simp
    from scaled_dist [OF this, of d "of_int (2 * m)"]
    have "\<bar>d / (u / 2) - of_int (2 * m)\<bar> = \<bar>d - x\<bar> / (u / 2)" by (simp add: m)
    also have "\<dots> < 1 / 2" using near pos by (simp add: pos_divide_less_eq)
    finally have r: "round_even (d / (u / 2)) = 2 * m" by (rule round_even_close)
    have "ulp_exp d = e - 53" using 2 assms(3) by (simp add: ulp_exp_def e_def)
    then have "rnd64 d = of_int (round_even (d / (u / 2))) * (u / 2)"
      using d by (simp only: rnd64_def rnd_at_def half) simp
    then show ?thesis unfolding r by (simp add: m)
  qed
qed

lemma decimal_near: "\<bar>decimal k x - \<bar>x\<bar>\<bar> \<le> 1 / (2 * 10 ^ k)"
proof -
  have "decimal k x - \<bar>x\<bar> = (of_int (round_even (\<bar>x\<bar> * 10 ^ k)) - \<bar>x\<bar> * 10 ^ k) / 10 ^ k"
    by (simp add: decimal_def diff_divide_distrib)
  then have "\<bar>decimal k x - \<bar>x\<bar>\<bar> = \<bar>of_int (round_even (\<bar>x\<bar> * 10 ^ k)) - \<bar>x\<bar> * 10 ^ k\<bar> / 10 ^ k"
    by (simp add: abs_divide)
  also have "\<dots> \<le> (1 / 2) / 10 ^ k"
    by (intro divide_right_mono round_even_near) simp
  finally show ?thesis by simp
qed

text \<open>Thirty-one decimals are always enough, so a number of this range is written exactly.\<close>

definition json_range :: "float64 \<Rightarrow> bool" where
  "json_range x \<longleftrightarrow> rnd64 x = x \<and> (x = 0 \<or> 2 powi (- 19) \<le> \<bar>x\<bar> \<and> \<bar>x\<bar> \<le> 2 ^ 40)"

lemma decimals_found:
  assumes "json_range x"
  shows "\<exists>k. decimals x = Some k \<and> rnd64 (decimal k x) = \<bar>x\<bar>"
proof -
  have "rnd64 (decimal 31 x) = \<bar>x\<bar>"
  proof (cases "x = 0")
    case True
    then show ?thesis by (simp add: decimal_def round_even_def)
  next
    case False
    with assms have big: "2 powi (- 19) \<le> \<bar>x\<bar>" "rnd64 \<bar>x\<bar> = \<bar>x\<bar>"
      by (auto simp: json_range_def f64.rnd_abs)
    have "- 19 < expo \<bar>x\<bar> + 1"
      using expo_bounds(2) [of "\<bar>x\<bar>"] False big(1) two_powi_less_iff [of "- 19" "expo \<bar>x\<bar> + 1"] by simp
    then have e: "- 73 \<le> expo \<bar>x\<bar> - 54" by simp
    have "\<bar>decimal 31 x - \<bar>x\<bar>\<bar> \<le> 1 / (2 * 10 ^ 31)" by (rule decimal_near)
    also have "(1 / (2 * 10 ^ 31) :: rat) < 2 powi (- 73)" by (simp add: power_int_minus)
    also have "\<dots> \<le> 2 powi (expo \<bar>x\<bar> - 54)" by (rule two_powi_mono [OF e])
    finally have close: "\<bar>decimal 31 x - \<bar>x\<bar>\<bar> < 2 powi (expo \<bar>x\<bar> - 54)" .
    show ?thesis
      by (rule rnd64_close [OF _ big(2) _ close]) (use False e in linarith)+
  qed
  then have "\<exists>k \<in> set [0..<32]. rnd64 (decimal k x) = \<bar>x\<bar>"
    by (intro bexI [of _ 31]) simp_all
  then have "decimals x \<noteq> None"
    unfolding decimals_def find_None_iff by blast
  then obtain k where "decimals x = Some k" by blast
  then show ?thesis by (auto simp: decimals_def dest: find_SomeD)
qed

lemma split_on_absent: "d \<notin> set s \<Longrightarrow> split_on d s = [s]"
  by (induction s) auto

lemma split_on_found: "d \<notin> set a \<Longrightarrow> split_on d (a @ d # b) = a # split_on d b"
  by (induction a) auto

lemma read_nat_append: "read_nat (a @ b) = read_nat a * 10 ^ length b + read_nat b"
proof (induction b rule: rev_induct)
  case (snoc c b)
  then show ?case by (simp add: read_nat_def distrib_right)
qed (simp add: read_nat_def)

lemma read_pad_zeros: "read_nat (pad_zeros k s) = read_nat s"
proof -
  have "read_nat (replicate n (CHR ''0'')) = 0" for n
    by (induction n) (simp_all add: read_nat_def digit_val_def code_of_def)
  then show ?thesis by (simp add: pad_zeros_def read_nat_append)
qed

lemma length_show_nat: "n < 10 ^ k \<Longrightarrow> 0 < k \<Longrightarrow> length (show_nat n) \<le> k"
proof (induction k arbitrary: n)
  case (Suc k)
  show ?case
  proof (cases "n < 10")
    case True
    then show ?thesis by (simp add: show_nat.simps [of n])
  next
    case False
    then have "0 < k" using Suc.prems(1) by (cases k) auto
    moreover have "n div 10 < 10 ^ k" using Suc.prems(1) by (simp add: div_less_iff_less_mult mult.commute)
    ultimately show ?thesis using Suc.IH [of "n div 10"] False by (simp add: show_nat.simps [of n])
  qed
qed simp

lemma digits_no_sign: "list_all is_digit s \<Longrightarrow> CHR ''.'' \<notin> set s \<and> CHR ''-'' \<notin> set s"
  by (auto simp: list_all_iff is_digit_code code_of_def)

lemma pad_zeros_digits: "list_all is_digit (pad_zeros k (show_nat n))"
  using show_nat_digits [of n] by (auto simp: pad_zeros_def list_all_iff is_digit_code code_of_def)

lemma read_fixed:
  fixes n :: nat
  shows "read_float (show_nat (n div 10 ^ k) @ (if k = 0 then [] else CHR ''.'' # pad_zeros k (show_nat (n mod 10 ^ k))))
    = rnd64 (of_nat n / 10 ^ k)" (is "read_float (?a @ ?f) = _")
proof -
  have digits: "CHR ''.'' \<notin> set ?a" "CHR ''-'' \<notin> set ?a"
    using digits_no_sign [OF show_nat_digits] by blast+
  then have pos: "\<not> (?a @ ?f \<noteq> [] \<and> hd (?a @ ?f) = CHR ''-'')"
    by (metis append_is_Nil_conv hd_append2 list.set_sel(1) show_nat_not_Nil)
  show ?thesis
  proof (cases "k = 0")
    case True
    with digits pos show ?thesis by (simp add: read_float_def split_on_absent read_show_nat)
  next
    case False
    let ?p = "pad_zeros k (show_nat (n mod 10 ^ k))"
    have len: "length ?p = k"
      using False length_show_nat [of "n mod 10 ^ k" k] by (simp add: pad_zeros_def)
    have "split_on (CHR ''.'') (?a @ ?f) = [?a, ?p]"
      using False digits(1) digits_no_sign [OF pad_zeros_digits, of k "n mod 10 ^ k"]
      by (simp add: split_on_found split_on_absent)
    moreover have "read_nat (?a @ ?p) = n"
      by (simp only: read_nat_append len read_pad_zeros read_show_nat div_mult_mod_eq)
    ultimately show ?thesis
      using pos len unfolding read_float_def Let_def by (simp only: if_False list.sel concat.simps append_Nil2)
  qed
qed

lemma read_json_float: "json_range x \<Longrightarrow> read_float (json_float x) = x"
proof -
  assume "json_range x"
  then obtain k where k: "decimals x = Some k" "rnd64 (decimal k x) = \<bar>x\<bar>"
    using decimals_found by blast
  let ?n = "nat (round_even (\<bar>x\<bar> * 10 ^ k))"
  have "0 \<le> round_even (\<bar>x\<bar> * 10 ^ k)"
    using round_even_mono [of 0 "\<bar>x\<bar> * 10 ^ k"] round_even_of_int [of 0] by simp
  then have n: "(of_nat ?n :: rat) / 10 ^ k = decimal k x"
    by (simp add: decimal_def)
  let ?t = "show_nat (?n div 10 ^ k) @ (if k = 0 then [] else CHR ''.'' # pad_zeros k (show_nat (?n mod 10 ^ k)))"
  have t: "json_float x = (if x < 0 then [CHR ''-''] else []) @ ?t"
    by (simp add: json_float_def k(1) fmt_fixed_def Let_def)
  have r: "read_float ?t = \<bar>x\<bar>"
    unfolding read_fixed n k(2) ..
  show ?thesis
  proof (cases "x < 0")
    case True
    have "hd ?t \<noteq> CHR ''-''"
      using digits_no_sign [OF show_nat_digits, of "?n div 10 ^ k"] by (metis hd_append2 list.set_sel(1) show_nat_not_Nil)
    then have "read_float (CHR ''-'' # ?t) = - read_float ?t"
      by (simp add: read_float_def Let_def)
    with True r show ?thesis unfolding t by simp
  next
    case False
    with r show ?thesis unfolding t by simp
  qed
qed

section \<open>Values\<close>

datatype json = JStr string | JNum float64 | JArr "json list" | JObj "(string \<times> json) list"

definition quoted :: "string \<Rightarrow> string" where
  "quoted s = CHR 0x22 # json_chars s @ [CHR 0x22]"

fun encode :: "json \<Rightarrow> string" where
  "encode (JStr s) = quoted s"
| "encode (JNum x) = json_float x"
| "encode (JArr js) = CHR ''['' # join '','' (map encode js) @ '']''"
| "encode (JObj fs) = CHR ''{'' # join '','' (map (\<lambda>(k, v). quoted k @ CHR '':'' # encode v) fs) @ ''}''"

text \<open>What \<open>encode\<close> writes without loss.\<close>

fun json_ok :: "json \<Rightarrow> bool" where
  "json_ok (JStr s) = utf8_ok s"
| "json_ok (JNum x) = json_range x"
| "json_ok (JArr js) = list_all json_ok js"
| "json_ok (JObj fs) = list_all (\<lambda>(k, v). utf8_ok k \<and> json_ok v) fs"

text \<open>The reference reader, with fuel for the nesting and the length of lists.\<close>

definition num_char :: "char \<Rightarrow> bool" where
  "num_char c \<longleftrightarrow> is_digit c \<or> c = CHR ''-'' \<or> c = CHR ''.''"

fun read_json :: "nat \<Rightarrow> string \<Rightarrow> (json \<times> string) option"
  and read_items :: "nat \<Rightarrow> string \<Rightarrow> (json list \<times> string) option"
  and read_fields :: "nat \<Rightarrow> string \<Rightarrow> ((string \<times> json) list \<times> string) option" where
  "read_json 0 t = None"
| "read_json (Suc n) t =
     (case t of
        [] \<Rightarrow> None
      | c # cs \<Rightarrow>
          if c = CHR 0x22 then map_option (\<lambda>(s, r). (JStr s, r)) (read_str cs)
          else if c = CHR ''[''
          then (if cs \<noteq> [] \<and> hd cs = CHR '']'' then Some (JArr [], tl cs)
                else map_option (\<lambda>(js, r). (JArr js, r)) (read_items n cs))
          else if c = CHR ''{''
          then (if cs \<noteq> [] \<and> hd cs = CHR ''}'' then Some (JObj [], tl cs)
                else map_option (\<lambda>(fs, r). (JObj fs, r)) (read_fields n cs))
          else if num_char c then Some (JNum (read_float (takeWhile num_char t)), dropWhile num_char t)
          else None)"
| "read_items 0 t = None"
| "read_items (Suc n) t =
     (case read_json n t of
        Some (j, c # q) \<Rightarrow>
          if c = CHR '']'' then Some ([j], q)
          else if c = CHR '','' then map_option (\<lambda>(js, r). (j # js, r)) (read_items n q)
          else None
      | _ \<Rightarrow> None)"
| "read_fields 0 t = None"
| "read_fields (Suc n) t =
     (case t of
        [] \<Rightarrow> None
      | a # u \<Rightarrow>
          if a \<noteq> CHR 0x22 then None
          else (case read_str u of
                  Some (k, b # v) \<Rightarrow>
                    if b \<noteq> CHR '':'' then None
                    else (case read_json n v of
                            Some (j, c # q) \<Rightarrow>
                              if c = CHR ''}'' then Some ([(k, j)], q)
                              else if c = CHR '','' then map_option (\<lambda>(fs, r). ((k, j) # fs, r)) (read_fields n q)
                              else None
                          | _ \<Rightarrow> None)
                | _ \<Rightarrow> None))"

definition parse_json :: "string \<Rightarrow> json option" where
  "parse_json t = (case read_json (length t) t of Some (j, []) \<Rightarrow> Some j | _ \<Rightarrow> None)"

fun weight :: "json \<Rightarrow> nat" where
  "weight (JStr s) = 1"
| "weight (JNum x) = 1"
| "weight (JArr js) = Suc (sum_list (map (\<lambda>j. Suc (weight j)) js))"
| "weight (JObj fs) = Suc (sum_list (map (\<lambda>(k, v). Suc (weight v)) fs))"

definition stops :: "string \<Rightarrow> bool" where
  "stops r \<longleftrightarrow> r = [] \<or> \<not> num_char (hd r)"

lemma stops_seps [simp]: "stops (CHR '','' # r)" "stops (CHR '']'' # r)" "stops (CHR ''}'' # r)" "stops []"
  by (simp_all add: stops_def num_char_def is_digit_def)

lemma json_float_chars: "json_float x \<noteq> [] \<and> list_all num_char (json_float x)"
  using show_nat_digits pad_zeros_digits
  by (auto simp: json_float_def fmt_fixed_def Let_def num_char_def list_all_iff)

lemma encode_head: "\<exists>c cs. encode j = c # cs \<and> c \<notin> {CHR '']'', CHR ''}''}"
proof (cases j)
  case (JNum x)
  with json_float_chars [of x] show ?thesis
    by (cases "json_float x") (auto simp: num_char_def is_digit_def)
qed (simp_all add: quoted_def)

lemma read_number: "stops r \<Longrightarrow> json_range x \<Longrightarrow> read_json (Suc n) (json_float x @ r) = Some (JNum x, r)"
proof -
  assume r: "stops r" and x: "json_range x"
  obtain c cs where c: "json_float x = c # cs" "num_char c"
    using json_float_chars [of x] by (cases "json_float x") auto
  have "takeWhile num_char (json_float x @ r) = json_float x" "dropWhile num_char (json_float x @ r) = r"
    using json_float_chars [of x] r by (auto simp: list_all_iff stops_def takeWhile_append dropWhile_append takeWhile_eq_Nil_iff
        dropWhile_eq_self_iff cong: if_cong)
  moreover have "c \<noteq> CHR 0x22" "c \<noteq> CHR ''[''" "c \<noteq> CHR ''{''"
    using c(2) by (auto simp: num_char_def is_digit_def)
  ultimately show ?thesis
    using read_json_float [OF x] c by simp
qed

lemma join_Cons: "join sep (x # xs) = (if xs = [] then x else x @ sep @ join sep xs)"
  by (cases xs) simp_all

definition reads_back :: "json \<Rightarrow> bool" where
  "reads_back j \<longleftrightarrow> (\<forall>n r. stops r \<longrightarrow> weight j \<le> n \<longrightarrow> read_json n (encode j @ r) = Some (j, r))"

lemma reads_backD: "reads_back j \<Longrightarrow> stops r \<Longrightarrow> weight j \<le> n \<Longrightarrow> read_json n (encode j @ r) = Some (j, r)"
  by (simp add: reads_back_def)

lemma weight_pos: "0 < weight j"
  by (cases j) simp_all

lemma read_items_back:
  assumes "list_all reads_back js" and "js \<noteq> []" and "sum_list (map (\<lambda>j. Suc (weight j)) js) \<le> n"
  shows "read_items n (join '','' (map encode js) @ CHR '']'' # r) = Some (js, r)"
  using assms
proof (induction js arbitrary: n)
  case (Cons j js)
  then obtain m where n: "n = Suc m" by (cases n) auto
  with Cons.prems have j: "reads_back j" "weight j \<le> m" by simp_all
  show ?case
  proof (cases "js = []")
    case True
    with reads_backD [OF j(1) _ j(2), of "CHR '']'' # r"] show ?thesis by (simp add: n)
  next
    case False
    let ?rest = "join '','' (map encode js) @ CHR '']'' # r"
    have "read_items m ?rest = Some (js, r)"
      using Cons.prems False n weight_pos [of j] by (intro Cons.IH) auto
    with False reads_backD [OF j(1) _ j(2), of "CHR '','' # ?rest"] show ?thesis
      by (simp add: n join_Cons)
  qed
qed simp

abbreviation field_text :: "string \<times> json \<Rightarrow> string" where
  "field_text \<equiv> \<lambda>(k, v). quoted k @ CHR '':'' # encode v"

lemma read_fields_back:
  assumes "list_all (\<lambda>(k, v). utf8_ok k \<and> reads_back v) fs" and "fs \<noteq> []" and "sum_list (map (\<lambda>(k, v). Suc (weight v)) fs) \<le> n"
  shows "read_fields n (join '','' (map field_text fs) @ CHR ''}'' # r) = Some (fs, r)"
  using assms
proof (induction fs arbitrary: n)
  case (Cons f fs)
  obtain k v where f: "f = (k, v)" by fastforce
  obtain m where n: "n = Suc m" using Cons.prems(3) f by (cases n) auto
  with Cons.prems f have v: "utf8_ok k" "reads_back v" "weight v \<le> m" by simp_all
  show ?case
  proof (cases "fs = []")
    case True
    with v(1) reads_backD [OF v(2) _ v(3), of "CHR ''}'' # r"] show ?thesis
      by (simp add: n f quoted_def read_json_chars)
  next
    case False
    let ?rest = "join '','' (map field_text fs) @ CHR ''}'' # r"
    have "read_fields m ?rest = Some (fs, r)"
      using Cons.prems False n f weight_pos [of v] by (intro Cons.IH) auto
    with False v(1) reads_backD [OF v(2) _ v(3), of "CHR '','' # ?rest"] show ?thesis
      by (simp add: n f join_Cons quoted_def read_json_chars)
  qed
qed simp

lemma encode_reads_back: "json_ok j \<Longrightarrow> reads_back j"
proof (induction j)
  case (JStr s)
  then show ?case
    by (auto simp: reads_back_def quoted_def read_json_chars Suc_le_eq gr0_conv_Suc)
next
  case (JNum x)
  then show ?case
    by (auto simp: reads_back_def read_number Suc_le_eq gr0_conv_Suc simp del: read_json.simps)
next
  case (JArr js)
  then have items: "list_all reads_back js" by (auto simp: list_all_iff)
  show ?case
    unfolding reads_back_def
  proof (intro allI impI)
    fix n r assume n: "weight (JArr js) \<le> n"
    then obtain m where m: "n = Suc m" "sum_list (map (\<lambda>j. Suc (weight j)) js) \<le> m" by (cases n) auto
    show "read_json n (encode (JArr js) @ r) = Some (JArr js, r)"
    proof (cases js)
      case (Cons j js')
      have "\<exists>c cs. join '','' (map encode js) = c # cs \<and> c \<noteq> CHR '']''"
        using encode_head [of j] by (auto simp: Cons join_Cons)
      then obtain c cs where "join '','' (map encode js) = c # cs" "c \<noteq> CHR '']''" by blast
      with read_items_back [OF items _ m(2), of r] Cons show ?thesis by (simp add: m(1))
    qed (simp add: m(1))
  qed
next
  case (JObj fs)
  then have fields: "list_all (\<lambda>(k, v). utf8_ok k \<and> reads_back v) fs" by (fastforce simp: list_all_iff)
  show ?case
    unfolding reads_back_def
  proof (intro allI impI)
    fix n r assume n: "weight (JObj fs) \<le> n"
    then obtain m where m: "n = Suc m" "sum_list (map (\<lambda>(k, v). Suc (weight v)) fs) \<le> m" by (cases n) auto
    show "read_json n (encode (JObj fs) @ r) = Some (JObj fs, r)"
    proof (cases fs)
      case (Cons f fs')
      have "\<exists>cs. join '','' (map field_text fs) = CHR 0x22 # cs"
        by (auto simp: Cons join_Cons quoted_def split: prod.split)
      with read_fields_back [OF fields _ m(2), of r] Cons show ?thesis by (auto simp: m(1))
    qed (simp add: m(1))
  qed
qed

lemma length_join: "xs \<noteq> [] \<Longrightarrow> Suc (length (join [c] xs)) = sum_list (map (\<lambda>x. Suc (length x)) xs)"
  by (induction xs) (auto simp: join_Cons)

lemma weight_encode: "weight j \<le> length (encode j)"
proof (induction j)
  case (JNum x)
  then show ?case using json_float_chars [of x] by (cases "json_float x") auto
next
  case (JArr js)
  have "sum_list (map (\<lambda>j. Suc (weight j)) js) \<le> sum_list (map (\<lambda>x. Suc (length x)) (map encode js))"
    using JArr by (auto intro!: sum_list_mono simp: comp_def)
  then show ?case using length_join [of "map encode js" "CHR '',''"] by (cases "js = []") auto
next
  case (JObj fs)
  have "Suc (weight v) \<le> Suc (length (field_text (k, v)))" if "(k, v) \<in> set fs" for k v
    using JObj [OF that] by simp
  then have "sum_list (map (\<lambda>(k, v). Suc (weight v)) fs) \<le> sum_list (map (\<lambda>x. Suc (length x)) (map field_text fs))"
    unfolding map_map comp_def by (intro sum_list_mono) auto
  then show ?case using length_join [of "map field_text fs" "CHR '',''"] by (cases "fs = []") auto
qed (simp add: quoted_def)

lemma parse_encode: "json_ok j \<Longrightarrow> parse_json (encode j) = Some j"
  using reads_backD [OF encode_reads_back [of j], of "[]" "length (encode j)"] weight_encode [of j]
  by (simp add: parse_json_def)

lemma encode_inj: "json_ok i \<Longrightarrow> json_ok j \<Longrightarrow> encode i = encode j \<Longrightarrow> i = j"
  by (metis option.inject parse_encode)

lemma parse_encode_example:
  "parse_json (encode (JObj [(''a<b'', JArr [JStr [CHR 0x0A, CHR 0xC3, CHR 0xA9], JObj []]), (''n'', JStr ''x'')]))
     = Some (JObj [(''a<b'', JArr [JStr [CHR 0x0A, CHR 0xC3, CHR 0xA9], JObj []]), (''n'', JStr ''x'')])"
  by (rule parse_encode) code_simp

end
