(* ===== verification/Actions.thy ===== *)
theory Actions
  imports Prelude "HOL-Library.State_Monad"
begin

text \<open>
  Code that works on a mutable object is an action: a computation of the library's state
  monad that returns a value and the new state. A Go function with an error result returns
  the error as a value (\<open>gerr option\<close>, or \<open>gerr + 'a\<close>), so that every early
  return is a branch of the action. \<open>spec P m Q\<close> says that \<open>m\<close>, started in a state
  with \<open>P\<close>, ends with a value and a state in \<open>Q\<close>; the rules of \<open>keeps_intro\<close>
  follow the structure of an action.
\<close>

abbreviation ret :: "'a \<Rightarrow> ('s, 'a) state" where
  "ret \<equiv> State_Monad.return"

definition reads :: "('s \<Rightarrow> 'a) \<Rightarrow> ('s, 'a) state" where
  "reads f = State (\<lambda>s. (f s, s))"

definition modify :: "('s \<Rightarrow> 's) \<Rightarrow> ('s, unit) state" where
  "modify f = State (\<lambda>s. ((), f s))"

text \<open>Run a loop body for each element; stop at the first one that returns a value.\<close>

fun for_first :: "('x \<Rightarrow> ('s, 'r option) state) \<Rightarrow> 'x list \<Rightarrow> ('s, 'r option) state" where
  "for_first body [] = ret None"
| "for_first body (x # xs) = do {
     r \<leftarrow> body x;
     case r of Some v \<Rightarrow> ret (Some v) | None \<Rightarrow> for_first body xs }"

lemma run_reads [simp]: "run_state (reads f) s = (f s, s)"
  by (simp add: reads_def)

lemma run_modify [simp]: "run_state (modify f) s = ((), f s)"
  by (simp add: modify_def)

definition spec :: "('s \<Rightarrow> bool) \<Rightarrow> ('s, 'a) state \<Rightarrow> ('a \<Rightarrow> 's \<Rightarrow> bool) \<Rightarrow> bool" where
  "spec P m Q \<longleftrightarrow> (\<forall>s. P s \<longrightarrow> (case run_state m s of (x, t) \<Rightarrow> Q x t))"

lemma specI: "(\<And>s x t. P s \<Longrightarrow> run_state m s = (x, t) \<Longrightarrow> Q x t) \<Longrightarrow> spec P m Q"
  by (auto simp: spec_def)

lemma specD: "spec P m Q \<Longrightarrow> P s \<Longrightarrow> run_state m s = (x, t) \<Longrightarrow> Q x t"
  by (auto simp: spec_def)

lemma spec_run: "spec P m Q \<Longrightarrow> P s \<Longrightarrow> Q (fst (run_state m s)) (snd (run_state m s))"
  by (auto simp: spec_def split: prod.splits)

lemma spec_weaken:
  "spec P m Q \<Longrightarrow> (\<And>s. P' s \<Longrightarrow> P s) \<Longrightarrow> (\<And>x t. Q x t \<Longrightarrow> Q' x t) \<Longrightarrow> spec P' m Q'"
  by (fastforce simp: spec_def split: prod.splits)

lemma spec_pre: "spec P m Q \<Longrightarrow> (\<And>s. P' s \<Longrightarrow> P s) \<Longrightarrow> spec P' m Q"
  by (auto simp: spec_def)

lemma spec_post: "spec P m Q \<Longrightarrow> (\<And>x t. Q x t \<Longrightarrow> Q' x t) \<Longrightarrow> spec P m Q'"
  by (fastforce simp: spec_def split: prod.splits)

lemma spec_bind [keeps_intro]:
  "spec P m R \<Longrightarrow> (\<And>x. spec (R x) (f x) Q) \<Longrightarrow> spec P (m \<bind> f) Q"
  by (fastforce simp: spec_def split: prod.splits)

lemma spec_ret: "(\<And>s. P s \<Longrightarrow> Q x s) \<Longrightarrow> spec P (ret x) Q"
  by (simp add: spec_def)

lemma spec_reads: "(\<And>s. P s \<Longrightarrow> Q (f s) s) \<Longrightarrow> spec P (reads f) Q"
  by (simp add: spec_def)

lemma spec_modify: "(\<And>s. P s \<Longrightarrow> Q () (f s)) \<Longrightarrow> spec P (modify f) Q"
  by (simp add: spec_def)

lemma spec_conj: "spec P m Q \<Longrightarrow> spec P m R \<Longrightarrow> spec P m (\<lambda>x t. Q x t \<and> R x t)"
  by (fastforce simp: spec_def split: prod.splits)

lemma spec_if [keeps_intro]:
  "(b \<Longrightarrow> spec P m Q) \<Longrightarrow> (\<not> b \<Longrightarrow> spec P n Q) \<Longrightarrow> spec P (if b then m else n) Q"
  by simp

lemma spec_case_option [keeps_intro]:
  "(x = None \<Longrightarrow> spec P m Q) \<Longrightarrow> (\<And>y. x = Some y \<Longrightarrow> spec P (f y) Q)
   \<Longrightarrow> spec P (case x of None \<Rightarrow> m | Some y \<Rightarrow> f y) Q"
  by (cases x) auto

lemma spec_case_sum [keeps_intro]:
  "(\<And>e. x = Inl e \<Longrightarrow> spec P (f e) Q) \<Longrightarrow> (\<And>y. x = Inr y \<Longrightarrow> spec P (g y) Q)
   \<Longrightarrow> spec P (case x of Inl e \<Rightarrow> f e | Inr y \<Rightarrow> g y) Q"
  by (cases x) auto

lemma spec_case_prod [keeps_intro]:
  "(\<And>a b. x = (a, b) \<Longrightarrow> spec P (f a b) Q) \<Longrightarrow> spec P (case x of (a, b) \<Rightarrow> f a b) Q"
  by (cases x) auto

lemma spec_let [keeps_intro]: "(\<And>x. x = e \<Longrightarrow> spec P (f x) Q) \<Longrightarrow> spec P (let x = e in f x) Q"
  by simp

text \<open>An invariant of an action: it holds after the action if it held before.\<close>

definition keeps :: "('s \<Rightarrow> bool) \<Rightarrow> ('s, 'a) state \<Rightarrow> bool" where
  "keeps P m \<longleftrightarrow> spec P m (\<lambda>_. P)"

lemma keepsI: "spec P m (\<lambda>_. P) \<Longrightarrow> keeps P m"
  by (simp add: keeps_def)

lemma keepsD: "keeps P m \<Longrightarrow> P s \<Longrightarrow> P (snd (run_state m s))"
  using spec_run [of P m "\<lambda>_. P"] by (simp add: keeps_def)

lemma keeps_bind [keeps_intro]: "keeps P m \<Longrightarrow> (\<And>x. keeps P (f x)) \<Longrightarrow> keeps P (m \<bind> f)"
  unfolding keeps_def by (rule spec_bind)

lemma keeps_ret [keeps_intro]: "keeps P (ret x)"
  by (simp add: keeps_def spec_ret)

lemma keeps_reads [keeps_intro]: "keeps P (reads f)"
  by (simp add: keeps_def spec_reads)

lemma keeps_modify: "(\<And>s. P s \<Longrightarrow> P (f s)) \<Longrightarrow> keeps P (modify f)"
  by (simp add: keeps_def spec_modify)

lemma keeps_if [keeps_intro]: "keeps P m \<Longrightarrow> keeps P n \<Longrightarrow> keeps P (if b then m else n)"
  by simp

lemma keeps_case_option [keeps_intro]:
  "keeps P m \<Longrightarrow> (\<And>y. keeps P (f y)) \<Longrightarrow> keeps P (case x of None \<Rightarrow> m | Some y \<Rightarrow> f y)"
  by (cases x) auto

lemma keeps_case_sum [keeps_intro]:
  "(\<And>e. keeps P (f e)) \<Longrightarrow> (\<And>y. keeps P (g y)) \<Longrightarrow> keeps P (case x of Inl e \<Rightarrow> f e | Inr y \<Rightarrow> g y)"
  by (cases x) auto

lemma keeps_case_prod [keeps_intro]:
  "(\<And>a b. keeps P (f a b)) \<Longrightarrow> keeps P (case x of (a, b) \<Rightarrow> f a b)"
  by (cases x) auto

lemma keeps_let [keeps_intro]: "(\<And>x. keeps P (f x)) \<Longrightarrow> keeps P (let x = e in f x)"
  by simp

lemma keeps_for_first [keeps_intro]:
  "(\<And>x. x \<in> set xs \<Longrightarrow> keeps P (body x)) \<Longrightarrow> keeps P (for_first body xs)"
  by (induction xs) (auto intro!: keeps_intro)

text \<open>Steps that keep the precondition may be skipped over.\<close>

lemma spec_bind_keeps: "keeps P m \<Longrightarrow> (\<And>x. spec P (f x) Q) \<Longrightarrow> spec P (m \<bind> f) Q"
  unfolding keeps_def by (rule spec_bind)

lemmas spec_steps = spec_bind_keeps spec_if spec_case_option spec_case_sum spec_case_prod spec_let

lemma spec_for_first:
  assumes "\<And>x. x \<in> set xs \<Longrightarrow> spec P (body x) (\<lambda>r t. case r of None \<Rightarrow> P t | Some v \<Rightarrow> Q v t)"
  shows "spec P (for_first body xs) (\<lambda>r t. case r of None \<Rightarrow> P t | Some v \<Rightarrow> Q v t)"
  using assms
proof (induction xs)
  case Nil
  then show ?case by (simp add: spec_ret)
next
  case (Cons x xs)
  have IH: "spec P (for_first body xs) (\<lambda>r t. case r of None \<Rightarrow> P t | Some v \<Rightarrow> Q v t)"
    using Cons by simp
  show ?case
    unfolding for_first.simps
  proof (rule spec_bind)
    show "spec P (body x) (\<lambda>r t. case r of None \<Rightarrow> P t | Some v \<Rightarrow> Q v t)"
      using Cons.prems by simp
    fix r
    show "spec (\<lambda>t. case r of None \<Rightarrow> P t | Some v \<Rightarrow> Q v t)
        (case r of None \<Rightarrow> for_first body xs | Some v \<Rightarrow> ret (Some v))
        (\<lambda>r t. case r of None \<Rightarrow> P t | Some v \<Rightarrow> Q v t)"
      using IH by (cases r) (auto intro: spec_ret)
  qed
qed

end
