(* ===== verification/Dtc.thy ===== *)
theory Dtc
  imports GoStrings "HOL-Library.Word"
begin

text \<open>
  \<^verbatim>\<open>pkg/obd/codes.go\<close>: from the hexadecimal text of a mode 03/07/0A response to
  trouble codes, and the short descriptions. A Go \<^verbatim>\<open>byte\<close> is an \<open>8 word\<close>.
  The lemmas give the shape of every decoded code, the round trip with the encoder of the
  wire format, and the inverse of \<open>encode_dtc\<close>.
\<close>

unbundle bit_operations_syntax

type_synonym byte = "8 word"

section \<open>Hexadecimal digits\<close>

definition byte_char :: "byte \<Rightarrow> char" where
  "byte_char b = char_of (unat b)"

definition hex_digit :: "byte \<Rightarrow> char" where
  "hex_digit v = byte_char (if v < 10 then 48 + v else 65 + (v - 10))"

definition unhex :: "char \<Rightarrow> int" where
  "unhex c =
     (if is_digit c then int (code_of c) - 48
      else if CHR ''A'' \<le> c \<and> c \<le> CHR ''F'' then int (code_of c) - 65 + 10
      else if CHR ''a'' \<le> c \<and> c \<le> CHR ''f'' then int (code_of c) - 97 + 10
      else - 1)"

definition is_hex_upper :: "char \<Rightarrow> bool" where
  "is_hex_upper c \<longleftrightarrow> is_digit c \<or> (CHR ''A'' \<le> c \<and> c \<le> CHR ''F'')"

text \<open>The loop of \<^verbatim>\<open>hexStringToBytes\<close>; a trailing odd digit is dropped.\<close>

fun hex_pairs :: "string \<Rightarrow> byte list" where
  "hex_pairs (h # l # s) =
     (let hi = unhex h; lo = unhex l
      in if hi < 0 \<or> lo < 0 then hex_pairs s
         else word_of_int (push_bit 4 hi OR lo) # hex_pairs s)"
| "hex_pairs _ = []"

definition hex_string_to_bytes :: "string \<Rightarrow> byte list" where
  "hex_string_to_bytes s = hex_pairs (if length s mod 2 = 1 then take (length s - 1) s else s)"

section \<open>Decoding\<close>

definition encode_dtc :: "byte \<Rightarrow> byte \<Rightarrow> string" where
  "encode_dtc a b =
     (let prefixes = ''PCBU'';
          prefix = prefixes ! unat (drop_bit 6 a AND 3);
          nibble = drop_bit 4 a AND 3
      in [prefix, byte_char (48 + nibble), hex_digit (a AND 15),
          hex_digit (drop_bit 4 b AND 15), hex_digit (b AND 15)])"

fun dtc_pairs :: "byte list \<Rightarrow> string list" where
  "dtc_pairs (a # b # r) =
     (if a = 0 \<and> b = 0 then dtc_pairs r else encode_dtc a b # dtc_pairs r)"
| "dtc_pairs _ = []"

definition decode_dtcs :: "string \<Rightarrow> string list" where
  "decode_dtcs payload =
     (let hex = filter is_hex_upper (to_upper payload)
      in if length hex < 6 then []
         else let raw = hex_string_to_bytes hex
              in if raw = [] then []
                 else dtc_pairs (if hd raw = 0x43 \<or> hd raw = 0x47 \<or> hd raw = 0x4A then tl raw else raw))"

section \<open>Descriptions\<close>

definition code_descriptions :: "(string \<times> string) list" where
  "code_descriptions =
     [(''P0300'', ''Random/Multiple Cylinder Misfire Detected''),
      (''P0301'', ''Cylinder 1 Misfire Detected''),
      (''P0302'', ''Cylinder 2 Misfire Detected''),
      (''P0303'', ''Cylinder 3 Misfire Detected''),
      (''P0304'', ''Cylinder 4 Misfire Detected''),
      (''P0171'', ''System Too Lean (Bank 1)''),
      (''P0172'', ''System Too Rich (Bank 1)''),
      (''P0420'', ''Catalyst System Efficiency Below Threshold (Bank 1)''),
      (''P0430'', ''Catalyst System Efficiency Below Threshold (Bank 2)''),
      (''P0455'', ''Evaporative Emission System Leak Detected (large leak)''),
      (''P0500'', ''Vehicle Speed Sensor Malfunction''),
      (''P0128'', ''Coolant Thermostat (Coolant Temp Below Thermostat Regulating Temperature)''),
      (''P0401'', ''Exhaust Gas Recirculation Flow Insufficient Detected''),
      (''P0442'', ''Evaporative Emission System Leak Detected (small leak)''),
      (''P0700'', ''Transmission Control System Malfunction''),
      (''C0035'', ''Left Front Wheel Speed Sensor Circuit''),
      (''B0001'', ''Driver Frontal Stage 1 Deployment Control''),
      (''U0100'', ''Lost Communication With ECM/PCM'')]"

definition describe_code :: "string \<Rightarrow> string" where
  "describe_code code0 =
     (let code = to_upper (trim_space code0)
      in case map_of code_descriptions code of
           Some d \<Rightarrow> d
         | None \<Rightarrow>
             if has_prefix code ''P0'' \<or> has_prefix code ''P2'' then ''Powertrain diagnostic trouble code''
             else if has_prefix code ''C'' then ''Chassis diagnostic trouble code''
             else if has_prefix code ''B'' then ''Body diagnostic trouble code''
             else if has_prefix code ''U'' then ''Network/communication diagnostic trouble code''
             else ''Diagnostic trouble code'')"

lemma describe_code_normal: "describe_code (trim_space (to_lower c)) = describe_code c"
  by (simp add: describe_code_def trim_space_to_lower)

lemma describe_code_not_Nil [simp]: "describe_code c \<noteq> []"
proof -
  have "d \<noteq> []" if "map_of code_descriptions (to_upper (trim_space c)) = Some d" for d
    using map_of_SomeD [OF that] by (auto simp: code_descriptions_def)
  then show ?thesis
    by (auto simp: describe_code_def Let_def split: option.split)
qed

section \<open>The wire format and the shape of codes\<close>

text \<open>The bytes of a response as upper-case hexadecimal digits, two for a byte.\<close>

definition hex2 :: "byte \<Rightarrow> string" where
  "hex2 b = [hex_digit (drop_bit 4 b AND 15), hex_digit (b AND 15)]"

definition hex_of_bytes :: "byte list \<Rightarrow> string" where
  "hex_of_bytes bs = concat (map hex2 bs)"

definition pair_bytes :: "(byte \<times> byte) list \<Rightarrow> byte list" where
  "pair_bytes ps = concat (map (\<lambda>(a, b). [a, b]) ps)"

definition dtc_shape :: "string \<Rightarrow> bool" where
  "dtc_shape s \<longleftrightarrow>
     length s = 5 \<and> s ! 0 \<in> set ''PCBU'' \<and> s ! 1 \<in> set ''0123'' \<and> list_all is_hex_upper (drop 2 s)"

text \<open>The two bytes a five-character code stands for: the inverse of \<open>encode_dtc\<close>.\<close>

definition prefix_index :: "char \<Rightarrow> int" where
  "prefix_index c = (if c = CHR ''P'' then 0 else if c = CHR ''C'' then 1 else if c = CHR ''B'' then 2 else 3)"

definition dtc_bytes :: "string \<Rightarrow> byte \<times> byte" where
  "dtc_bytes s =
     (word_of_int (64 * prefix_index (s ! 0) + 16 * unhex (s ! 1) + unhex (s ! 2)),
      word_of_int (16 * unhex (s ! 3) + unhex (s ! 4)))"

lemma unat_byte_less: "unat (b :: byte) < 256"
  using unsigned_less [of b] by simp

lemma and_3: "(b :: byte) AND 3 = take_bit 2 b"
  by (simp add: take_bit_eq_mask mask_eq_exp_minus_1)

lemma and_15: "(b :: byte) AND 15 = take_bit 4 b"
  by (simp add: take_bit_eq_mask mask_eq_exp_minus_1)

lemma unat_low_nibble: "unat (b AND 15 :: byte) = unat b mod 16"
  by (simp only: and_15 unsigned_take_bit_eq unsigned_drop_bit_eq) (simp add: take_bit_eq_mod drop_bit_eq_div)

lemma unat_high_nibble: "unat (drop_bit 4 b AND 15 :: byte) = unat b div 16"
  using unat_byte_less [of b]
  by (simp only: and_15 unsigned_take_bit_eq unsigned_drop_bit_eq) (simp add: take_bit_eq_mod drop_bit_eq_div)

lemma unat_bits_6: "unat (drop_bit 6 b AND 3 :: byte) = unat b div 64"
  using unat_byte_less [of b]
  by (simp only: and_3 unsigned_take_bit_eq unsigned_drop_bit_eq) (simp add: take_bit_eq_mod drop_bit_eq_div)

lemma unat_bits_4: "unat (drop_bit 4 b AND 3 :: byte) = unat b div 16 mod 4"
  using unat_byte_less [of b]
  by (simp only: and_3 unsigned_take_bit_eq unsigned_drop_bit_eq) (simp add: take_bit_eq_mod drop_bit_eq_div)

lemmas unat_bits = unat_low_nibble unat_high_nibble unat_bits_6 unat_bits_4

lemma code_of_byte_char: "code_of (byte_char b) = unat b"
  by (simp add: byte_char_def code_of_char_of unat_byte_less)

lemma unat_add_small: "unat (a :: byte) + unat b < 256 \<Longrightarrow> unat (a + b) = unat a + unat b"
  by (simp add: unat_word_ariths)

lemma code_of_hex_digit:
  "unat v < 16 \<Longrightarrow> code_of (hex_digit v) = (if unat v < 10 then 48 + unat v else 55 + unat v)"
proof -
  assume v: "unat v < 16"
  have "65 + (v - 10) = 55 + v" by simp
  with v show ?thesis
    by (simp add: hex_digit_def code_of_byte_char word_less_nat_alt unat_add_small)
qed

lemma unhex_code:
  "unhex c = (if 48 \<le> code_of c \<and> code_of c \<le> 57 then int (code_of c) - 48
     else if 65 \<le> code_of c \<and> code_of c \<le> 70 then int (code_of c) - 55
     else if 97 \<le> code_of c \<and> code_of c \<le> 102 then int (code_of c) - 87 else - 1)"
  unfolding unhex_def is_digit_code char_le_code by (simp add: code_of_def)

lemma is_hex_upper_code:
  "is_hex_upper c \<longleftrightarrow> (48 \<le> code_of c \<and> code_of c \<le> 57) \<or> (65 \<le> code_of c \<and> code_of c \<le> 70)"
  unfolding is_hex_upper_def is_digit_code char_le_code by (simp add: code_of_def)

lemma unhex_hex_digit: "unat v < 16 \<Longrightarrow> unhex (hex_digit v) = int (unat v)"
  by (auto simp: unhex_code code_of_hex_digit)

lemma is_hex_upper_hex_digit: "unat v < 16 \<Longrightarrow> is_hex_upper (hex_digit v)"
  by (auto simp: is_hex_upper_code code_of_hex_digit)

lemma nibbles_or: "0 \<le> lo \<Longrightarrow> lo < 16 \<Longrightarrow> push_bit 4 hi OR lo = 16 * hi + (lo :: int)"
proof -
  assume "0 \<le> lo" "lo < 16"
  then have "take_bit 4 lo = lo" by (simp add: take_bit_int_eq_self)
  moreover have "push_bit 4 hi AND take_bit 4 lo = 0"
    by (rule bit_eqI) (auto simp: bit_simps)
  ultimately have "push_bit 4 hi OR lo = push_bit 4 hi + lo"
    by (metis disjunctive_add_eq_or)
  then show ?thesis by (simp add: push_bit_eq_mult)
qed

lemma unhex_high_nibble: "unhex (hex_digit (drop_bit 4 b AND 15)) = int (unat b div 16)"
  using unat_byte_less [of b] unat_high_nibble [of b] unhex_hex_digit [of "drop_bit 4 b AND 15"]
  by linarith

lemma unhex_low_nibble: "unhex (hex_digit (b AND 15)) = int (unat b mod 16)"
  using unat_low_nibble [of b] unhex_hex_digit [of "b AND 15"] by linarith

lemma hex_pairs_hex2: "hex_pairs (hex2 b @ s) = b # hex_pairs s"
proof -
  have "push_bit 4 (int (unat b div 16)) OR int (unat b mod 16) = int (unat b)"
    by (subst nibbles_or) (simp_all add: zdiv_int zmod_int)
  then have "(word_of_int (push_bit 4 (int (unat b div 16)) OR int (unat b mod 16)) :: byte) = b"
    by simp
  then show ?thesis
    by (simp only: hex2_def append.simps hex_pairs.simps unhex_high_nibble
        unhex_low_nibble [of b] Let_def of_nat_less_0_iff simp_thms if_False)
qed

lemma hex_pairs_hex_of_bytes: "hex_pairs (hex_of_bytes bs) = bs"
proof (induction bs)
  case (Cons b bs)
  then show ?case
    using hex_pairs_hex2 [of b "hex_of_bytes bs"] by (simp add: hex_of_bytes_def)
qed (simp add: hex_of_bytes_def)

lemma length_hex_of_bytes: "length (hex_of_bytes bs) = 2 * length bs"
  by (induction bs) (simp_all add: hex_of_bytes_def hex2_def)

lemma hex_string_to_bytes_hex_of_bytes [shape]: "hex_string_to_bytes (hex_of_bytes bs) = bs"
  by (simp add: hex_string_to_bytes_def length_hex_of_bytes hex_pairs_hex_of_bytes)

lemma is_hex_upper_hex2: "list_all is_hex_upper (hex2 b)"
  using unat_byte_less [of b] unat_high_nibble [of b] unat_low_nibble [of b]
  by (simp add: hex2_def is_hex_upper_hex_digit)

lemma dtc_pairs_pair_bytes:
  "dtc_pairs (pair_bytes ps) = map (\<lambda>(a, b). encode_dtc a b) (filter (\<lambda>p. p \<noteq> (0, 0)) ps)"
  by (induction ps) (simp_all add: pair_bytes_def split: prod.splits)

lemma length_pair_bytes: "length (pair_bytes ps) = 2 * length ps"
  by (induction ps) (auto simp: pair_bytes_def)

lemma code_of_dtc_nibble: "code_of (byte_char (48 + (drop_bit 4 a AND 3))) = 48 + unat a div 16 mod 4"
  using unat_bits_4 [of a] by (simp add: code_of_byte_char unat_add_small)

lemma unhex_dtc_nibble: "unhex (byte_char (48 + (drop_bit 4 a AND 3))) = int (unat a div 16 mod 4)"
  unfolding unhex_code code_of_dtc_nibble by simp

lemma dtc_digit_in:
  "d < 4 \<Longrightarrow> code_of c = 48 + d \<Longrightarrow> c \<in> set ''0123''"
proof -
  assume "d < 4" "code_of c = 48 + d"
  then have "code_of c \<in> code_of ` set ''0123''"
    by (auto simp: code_of_def)
  then show ?thesis by (auto simp: code_of_eq_iff)
qed

lemma encode_dtc_shape [shape]: "dtc_shape (encode_dtc a b)"
proof -
  have p: "unat (drop_bit 6 a AND 3) < 4"
    using unat_byte_less [of a] unat_bits_6 [of a] by simp
  then have "''PCBU'' ! unat (drop_bit 6 a AND 3) \<in> set ''PCBU''"
    by (intro nth_mem) simp
  moreover have "byte_char (48 + (drop_bit 4 a AND 3)) \<in> set ''0123''"
    using dtc_digit_in [OF _ code_of_dtc_nibble] by simp
  moreover have "list_all is_hex_upper [hex_digit (a AND 15), hex_digit (drop_bit 4 b AND 15), hex_digit (b AND 15)]"
    using unat_byte_less [of b] unat_low_nibble [of a] unat_low_nibble [of b] unat_high_nibble [of b]
    by (simp add: is_hex_upper_hex_digit)
  ultimately show ?thesis
    by (simp add: dtc_shape_def encode_dtc_def Let_def)
qed

lemma prefix_index_nth: "n < 4 \<Longrightarrow> prefix_index (''PCBU'' ! n) = int n"
proof -
  assume "n < 4"
  then have "n \<in> {0, 1, 2, 3}" by auto
  then show ?thesis by (auto simp: prefix_index_def)
qed

lemma nth_five:
  "[u, v, w, x, y] ! 0 = u" "[u, v, w, x, y] ! 1 = v" "[u, v, w, x, y] ! 2 = w"
  "[u, v, w, x, y] ! 3 = x" "[u, v, w, x, y] ! 4 = y"
  by simp_all

lemma encode_dtc_nth:
  "encode_dtc a b ! 0 = ''PCBU'' ! unat (drop_bit 6 a AND 3)"
  "encode_dtc a b ! 1 = byte_char (48 + (drop_bit 4 a AND 3))"
  "encode_dtc a b ! 2 = hex_digit (a AND 15)"
  "encode_dtc a b ! 3 = hex_digit (drop_bit 4 b AND 15)"
  "encode_dtc a b ! 4 = hex_digit (b AND 15)"
  by (simp_all only: encode_dtc_def Let_def nth_five)

lemma dtc_bytes_encode [shape]: "dtc_bytes (encode_dtc a b) = (a, b)"
proof -
  have p: "unat a div 64 < 4"
    using unat_byte_less [of a] by simp
  have "64 * (n div 64) + 16 * (n div 16 mod 4) + n mod 16 = (n :: nat)" for n
    using mod_mult2_eq [of n 16 4] div_mult_mod_eq [of n 64] by simp
  from arg_cong [OF this [of "unat a"], of int] have a: "64 * int (unat a div 64) + 16 * int (unat a div 16 mod 4) + int (unat a mod 16) = int (unat a)"
    by simp
  have "16 * (n div 16) + n mod 16 = (n :: nat)" for n
    by simp
  from arg_cong [OF this [of "unat b"], of int] have b: "16 * int (unat b div 16) + int (unat b mod 16) = int (unat b)"
    by (simp only: of_nat_add of_nat_mult of_nat_numeral)
  have "dtc_bytes (encode_dtc a b) = (word_of_int (int (unat a)), word_of_int (int (unat b)))"
    unfolding dtc_bytes_def encode_dtc_nth unhex_dtc_nibble unhex_high_nibble
      unhex_low_nibble [of a] unhex_low_nibble [of b] unat_bits_6 prefix_index_nth [OF p] a b ..
  then show ?thesis by simp
qed

section \<open>Properties\<close>

text \<open>
  C18. Decoding is the inverse of the wire format of one frame: whatever spacing, line breaks
  or prompt characters stand between the digits of a response, if its hexadecimal digits are
  those of a service byte (43, 47 or 4A) followed by at least one two-byte code, then
  \<open>decode_dtcs\<close> returns the codes of exactly the non-zero pairs, in order.
\<close>
theorem decode_dtcs_roundtrip:
  assumes "filter is_hex_upper (to_upper payload) = hex_of_bytes (svc # pair_bytes ps)"
    and "svc \<in> {0x43, 0x47, 0x4A}" and "ps \<noteq> []"
  shows "decode_dtcs payload = map (\<lambda>(a, b). encode_dtc a b) (filter (\<lambda>p. p \<noteq> (0, 0)) ps)"
proof -
  have "6 \<le> length (hex_of_bytes (svc # pair_bytes ps))"
    using assms(3) by (cases ps) (auto simp: length_hex_of_bytes length_pair_bytes)
  with assms show ?thesis
    by (auto simp: decode_dtcs_def shape dtc_pairs_pair_bytes)
qed

theorem decode_dtcs_roundtrip_witness:
  "decode_dtcs (''43 01 33'' @ [CHR 0x0D] @ ''c1 00 00 00>'') = [encode_dtc 1 0x33, encode_dtc 0xC1 0]"
  by (subst decode_dtcs_roundtrip [where svc = "0x43" and ps = "[(1, 0x33), (0xC1, 0), (0, 0)]"]) code_simp+

text \<open>
  Every code that \<open>decode_dtcs\<close> returns, for any text an adapter may send, is a
  five-character trouble code: a letter of PCBU, a digit 0 to 3 and three hexadecimal digits;
  and no more codes come out than there are pairs of bytes in the text.
\<close>
theorem decode_dtcs_shape:
  "list_all dtc_shape (decode_dtcs payload) \<and> 4 * length (decode_dtcs payload) \<le> length payload"
proof -
  have pairs: "list_all dtc_shape (dtc_pairs bs) \<and> 2 * length (dtc_pairs bs) \<le> length bs" for bs
    by (induction bs rule: dtc_pairs.induct) (auto simp: shape)
  have len: "2 * length (hex_pairs s) \<le> length s" for s
    by (induction s rule: induct_list012) (simp_all add: Let_def)
  let ?hex = "filter is_hex_upper (to_upper payload)"
  let ?raw = "hex_string_to_bytes ?hex"
  have "2 * length ?raw \<le> length payload"
    using len [of ?hex] len [of "take (length ?hex - 1) ?hex"] length_filter_le [of is_hex_upper "to_upper payload"]
    by (auto simp: hex_string_to_bytes_def)
  then show ?thesis
    using pairs [of ?raw] pairs [of "tl ?raw"]
    by (auto simp: decode_dtcs_def Let_def)
qed

text \<open>
  \<open>encode_dtc\<close> loses nothing: two byte pairs with the same code are the same pair, so
  a code that is shown to a technician names one pair of bytes on the bus.
\<close>
theorem encode_dtc_injective:
  "encode_dtc a b = encode_dtc a' b' \<longleftrightarrow> a = a' \<and> b = b'"
  by (metis dtc_bytes_encode prod.inject)

end
