(* ===== verification/ObdTypes.thy ===== *)
theory ObdTypes
  imports Dtc Float64
begin

text \<open>
  The data of \<^verbatim>\<open>pkg/obd/types.go\<close> and \<^verbatim>\<open>pkg/obd/snapshot.go\<close>: trouble codes, vehicle
  identity, the live sample, the link metrics and the result of a scan. A Go pointer that
  may be nil is an option; \<^verbatim>\<open>map[string]any\<close> is an association list with the lookup
  \<^const>\<open>map_of\<close>. Times are milliseconds.
\<close>

section \<open>Constants\<close>

definition LinkUSB :: string where "LinkUSB = ''usb''"
definition LinkBluetooth :: string where "LinkBluetooth = ''bluetooth''"
definition LinkMock :: string where "LinkMock = ''mock''"

definition DTCPending :: string where "DTCPending = ''pending''"
definition DTCConfirmed :: string where "DTCConfirmed = ''confirmed''"
definition DTCPermanent :: string where "DTCPermanent = ''permanent''"

lemmas obd_consts = LinkUSB_def LinkBluetooth_def LinkMock_def
  DTCPending_def DTCConfirmed_def DTCPermanent_def

section \<open>Records\<close>

text \<open>A Go value of type \<^verbatim>\<open>any\<close> as JSON decoding or a literal of the program makes it.\<close>

datatype gval =
    VFloat64 float64
  | VFloat32 float64
  | VInt int
  | VInt64 int
  | VStr string
  | VBool bool
  | VNil
  | VList "gval list"
  | VMap "(string \<times> gval) list"

type_synonym any_map = "(string \<times> gval) list"

record dtc =
  dtc_code :: string
  dtc_status :: string
  dtc_freeze :: "any_map option"
  dtc_desc :: string

record vehicle_info =
  vi_vin :: string
  vi_ecu :: string
  vi_proto :: string

record live_snapshot =
  rpm :: "float64 option"
  speed_kmh :: "float64 option"
  load_pct :: "float64 option"
  coolant_c :: "float64 option"
  iat_c :: "float64 option"
  maf_gs :: "float64 option"
  map_kpa :: "float64 option"
  tps_pct :: "float64 option"
  stft_b1 :: "float64 option"
  ltft_b1 :: "float64 option"
  stft_b2 :: "float64 option"
  ltft_b2 :: "float64 option"
  o2_b1s1 :: "float64 option"
  o2_b1s2 :: "float64 option"
  module_volts :: "float64 option"
  fuel_sys_status :: string
  sampled_at :: nat

definition empty_snapshot :: "nat \<Rightarrow> live_snapshot" where
  "empty_snapshot now =
     \<lparr>rpm = None, speed_kmh = None, load_pct = None, coolant_c = None, iat_c = None, maf_gs = None,
      map_kpa = None, tps_pct = None, stft_b1 = None, ltft_b1 = None, stft_b2 = None, ltft_b2 = None,
      o2_b1s1 = None, o2_b1s2 = None, module_volts = None, fuel_sys_status = [], sampled_at = now\<rparr>"

record link_metrics =
  lm_attempts :: int
  lm_failures :: int
  lm_timeouts :: int
  lm_protocol :: string
  lm_confidence :: float64
  lm_notes :: "string list"

record observations =
  obs_live :: "live_snapshot option"
  obs_freeze :: "(string \<times> any_map) list"
  obs_link :: "link_metrics option"
  obs_readiness :: "string list"

record scan_result =
  sr_link_type :: string
  sr_adapter_name :: string
  sr_protocol :: string
  sr_vehicle :: vehicle_info
  sr_dtcs :: "dtc list"
  sr_obs :: "observations option"
  sr_scanned_at :: nat
  sr_duration :: nat

end
