(* ===== verification/Pids.thy ===== *)
theory Pids
  imports ObdTypes
begin

text \<open>
  The Mode 01 decoders of \<^verbatim>\<open>pkg/obd/pids.go\<close>: from the text of a response to a sensor value.
  The properties: a well-formed reply yields its data bytes whatever its spacing and
  letter case, and every decoded value lies in the physical range of its PID, rounding
  included.
\<close>

definition is_hex_any :: "char \<Rightarrow> bool" where
  "is_hex_any c \<longleftrightarrow> is_digit c \<or> (CHR ''A'' \<le> c \<and> c \<le> CHR ''F'') \<or> (CHR ''a'' \<le> c \<and> c \<le> CHR ''f'')"

text \<open>The loop that looks for the first \<^verbatim>\<open>0x41\<close> with at least two bytes after it.\<close>

fun after_41 :: "byte list \<Rightarrow> byte list option" where
  "after_41 (x # y # z # r) = (if x = 0x41 then Some (z # r) else after_41 (y # z # r))"
| "after_41 _ = None"

definition decode_payload :: "string \<Rightarrow> byte list" where
  "decode_payload resp =
     (let hex = filter is_hex_any resp
      in if length hex < 6 then []
         else let raw = hex_string_to_bytes hex
              in case after_41 raw of
                   Some d \<Rightarrow> d
                 | None \<Rightarrow> if length raw \<ge> 3 then drop 2 raw else raw)"

definition byte_f64 :: "byte \<Rightarrow> float64" where
  "byte_f64 b = f64_of_int (uint b)"

definition word_f64 :: "byte \<Rightarrow> byte \<Rightarrow> float64" where
  "word_f64 a b = f64_of_int (uint a * 256 + uint b)"

definition decode_rpm :: "string \<Rightarrow> float64 option" where
  "decode_rpm resp =
     (case decode_payload resp of a # b # _ \<Rightarrow> Some (f64_div (word_f64 a b) 4) | _ \<Rightarrow> None)"

definition decode_byte :: "string \<Rightarrow> float64 \<Rightarrow> float64 option" where
  "decode_byte resp scale =
     (case decode_payload resp of a # _ \<Rightarrow> Some (f64_mul (byte_f64 a) scale) | _ \<Rightarrow> None)"

definition decode_pct :: "string \<Rightarrow> float64 option" where
  "decode_pct resp =
     (case decode_payload resp of a # _ \<Rightarrow> Some (f64_div (f64_mul (byte_f64 a) 100) 255) | _ \<Rightarrow> None)"

definition decode_temp :: "string \<Rightarrow> float64 option" where
  "decode_temp resp =
     (case decode_payload resp of a # _ \<Rightarrow> Some (f64_sub (byte_f64 a) 40) | _ \<Rightarrow> None)"

definition decode_maf :: "string \<Rightarrow> float64 option" where
  "decode_maf resp =
     (case decode_payload resp of a # b # _ \<Rightarrow> Some (f64_div (word_f64 a b) 100) | _ \<Rightarrow> None)"

definition decode_trim :: "string \<Rightarrow> float64 option" where
  "decode_trim resp =
     (case decode_payload resp of
        a # _ \<Rightarrow> Some (f64_sub (f64_div (byte_f64 a) (rnd64 (128 / 100))) 100)
      | _ \<Rightarrow> None)"

definition decode_o2 :: "string \<Rightarrow> float64 option" where
  "decode_o2 resp =
     (case decode_payload resp of a # _ \<Rightarrow> Some (f64_div (byte_f64 a) 200) | _ \<Rightarrow> None)"

definition decode_voltage :: "string \<Rightarrow> float64 option" where
  "decode_voltage resp =
     (case decode_payload resp of a # b # _ \<Rightarrow> Some (f64_div (word_f64 a b) 1000) | _ \<Rightarrow> None)"

lemmas decode_defs = decode_rpm_def decode_byte_def decode_pct_def decode_temp_def decode_maf_def
  decode_trim_def decode_o2_def decode_voltage_def

section \<open>Numeric facts\<close>

lemma uint_byte_range: "0 \<le> uint (b :: byte)" "uint (b :: byte) \<le> 255"
  using uint_bounded [of b] by simp_all

lemma byte_f64_eq: "byte_f64 b = of_int (uint b)"
  using uint_byte_range [of b] by (simp add: byte_f64_def f64_of_int_exact)

lemma word_f64_eq: "word_f64 a b = of_int (uint a * 256 + uint b)"
  unfolding word_f64_def
  by (rule f64_of_int_exact) (use uint_byte_range [of a] uint_byte_range [of b] in simp)

lemma byte_f64_range: "0 \<le> byte_f64 b" "byte_f64 b \<le> 255"
proof -
  have "(of_int 0 :: rat) \<le> of_int (uint b)" "(of_int (uint b) :: rat) \<le> of_int 255"
    by (simp_all only: of_int_le_iff uint_byte_range)
  then show "0 \<le> byte_f64 b" "byte_f64 b \<le> 255"
    unfolding byte_f64_eq by simp_all
qed

lemma word_f64_range: "0 \<le> word_f64 a b" "word_f64 a b \<le> 65535"
proof -
  have "0 \<le> uint a * 256 + uint b" "uint a * 256 + uint b \<le> 65535"
    using uint_byte_range [of a] uint_byte_range [of b] by simp_all
  then have "(of_int 0 :: rat) \<le> of_int (uint a * 256 + uint b)"
    "(of_int (uint a * 256 + uint b) :: rat) \<le> of_int 65535"
    by (simp_all only: of_int_le_iff)
  then show "0 \<le> word_f64 a b" "word_f64 a b \<le> 65535"
    unfolding word_f64_eq by simp_all
qed

context rounding
begin

text \<open>A quotient by a positive integer stays in the quotient range of its numerator.\<close>

lemma quotient_range:
  assumes "0 \<le> x" and "x \<le> of_int m" and "0 < d" and "of_int m \<le> d * of_int b" and "b \<le> 2 ^ 53"
  shows "0 \<le> rnd (x / d)" and "rnd (x / d) \<le> of_int b"
proof -
  have "x / d \<le> of_int b"
    using assms by (simp add: divide_le_eq mult.commute)
  moreover have "0 \<le> x / d"
    using assms by simp
  moreover from calculation have "0 \<le> b"
    by (metis of_int_0_le_iff order_trans)
  ultimately show "0 \<le> rnd (x / d)" and "rnd (x / d) \<le> of_int b"
    using rnd_range [of 0 "x / d" b] assms(5) by simp_all
qed

end

text \<open>The bounds of \<^verbatim>\<open>float64(1.28)\<close>, the divisor of the fuel trims.\<close>

lemma rnd_128: "327 / 256 \<le> rnd64 (128 / 100)"
proof -
  have "rnd64 (of_int 327 * 2 powi (- 8)) = of_int 327 * 2 powi (- 8)"
    by (rule f64.rnd_dyadic) simp_all
  then have "rnd64 (327 / 256) = 327 / 256"
    by (simp add: power_int_minus)
  then show ?thesis
    using rnd64_mono [of "327 / 256" "128 / 100"] by simp
qed

lemma rpm_exact: "f64_div (word_f64 a b) 4 = of_int (uint a * 256 + uint b) / 4"
proof -
  let ?n = "uint a * 256 + uint b"
  have "\<bar>?n\<bar> \<le> 2 ^ 53"
    using uint_byte_range [of a] uint_byte_range [of b] by simp
  then have "rnd64 (of_int ?n * 2 powi (- 2)) = of_int ?n * 2 powi (- 2)"
    by (rule f64.rnd_dyadic) simp
  moreover have "(of_int ?n :: rat) * 2 powi (- 2) = of_int ?n / 4"
    by (simp add: power_int_minus divide_simps)
  ultimately show ?thesis
    by (simp only: f64_div_def word_f64_eq)
qed

lemma byte_int_exact:
  assumes "\<bar>k\<bar> \<le> 1048576"
  shows "f64_sub (byte_f64 a) (of_int k) = of_int (uint a - k)"
    and "f64_mul (byte_f64 a) (of_int k) = of_int (uint a * k)"
proof -
  have u: "\<bar>uint a - k\<bar> \<le> 2 ^ 53"
  proof -
    have "\<bar>uint a - k\<bar> \<le> 255 + 1048576"
      using assms uint_byte_range [of a] by linarith
    then show ?thesis by simp
  qed
  have "\<bar>uint a * k\<bar> \<le> 255 * 1048576"
    using assms uint_byte_range [of a] by (simp only: abs_mult, intro mult_mono) auto
  then have v: "\<bar>uint a * k\<bar> \<le> 2 ^ 53" by simp
  show "f64_sub (byte_f64 a) (of_int k) = of_int (uint a - k)"
    using f64.rnd_int [OF u] by (simp only: f64_sub_def byte_f64_eq of_int_diff)
  show "f64_mul (byte_f64 a) (of_int k) = of_int (uint a * k)"
    using f64.rnd_int [OF v] by (simp only: f64_mul_def byte_f64_eq of_int_mult)
qed

lemma temp_exact: "f64_sub (byte_f64 a) 40 = of_int (uint a - 40)"
  using byte_int_exact(1) [of 40 a] by simp

lemma pct_numerator: "f64_mul (byte_f64 a) 100 = byte_f64 a * 100"
  using byte_int_exact(2) [of 100 a] by (simp add: byte_f64_eq)

section \<open>The data bytes of a reply\<close>

lemma is_hex_any_code:
  "is_hex_any c \<longleftrightarrow> (48 \<le> code_of c \<and> code_of c \<le> 57) \<or> (65 \<le> code_of c \<and> code_of c \<le> 70)
     \<or> (97 \<le> code_of c \<and> code_of c \<le> 102)"
  unfolding is_hex_any_def is_digit_code char_le_code by (simp add: code_of_def)

lemma unhex_up: "is_hex_any c \<Longrightarrow> unhex (up c) = unhex c"
  unfolding is_hex_any_code unhex_code code_of_up is_lower_code by auto

lemma hex_pairs_up: "list_all is_hex_any s \<Longrightarrow> hex_pairs (map up s) = hex_pairs s"
  by (induction s rule: induct_list012) (simp_all add: unhex_up Let_def)

lemma hex_string_to_bytes_up:
  "list_all is_hex_any s \<Longrightarrow> hex_string_to_bytes (map up s) = hex_string_to_bytes s"
  by (simp add: hex_string_to_bytes_def hex_pairs_up take_map [symmetric] list_all_iff)
    (metis hex_pairs_up in_set_takeD list_all_iff take_map)

lemma decode_payload_reply:
  assumes "to_upper (filter is_hex_any resp) = hex_of_bytes (0x41 # pid # data)" and "data \<noteq> []"
  shows "decode_payload resp = data"
proof -
  let ?hex = "filter is_hex_any resp"
  have "hex_string_to_bytes ?hex = 0x41 # pid # data"
    using hex_string_to_bytes_up [OF list_all_filter_self [of is_hex_any resp]] assms(1)
    by (metis hex_string_to_bytes_hex_of_bytes to_upper_def)
  moreover have "length ?hex = length (hex_of_bytes (0x41 # pid # data))"
    by (metis assms(1) length_to_upper)
  ultimately show ?thesis
    using assms(2) by (cases data) (simp_all add: decode_payload_def length_hex_of_bytes)
qed

section \<open>Properties\<close>

text \<open>Every value a decoder returns lies in the range of its PID, rounding included.\<close>

lemma sensor_ranges:
  "pred_option (\<lambda>v. 0 \<le> v \<and> v \<le> 65535 / 4) (decode_rpm resp)
   \<and> pred_option (\<lambda>v. 0 \<le> v \<and> v \<le> 255) (decode_byte resp 1)
   \<and> pred_option (\<lambda>v. 0 \<le> v \<and> v \<le> 100) (decode_pct resp)
   \<and> pred_option (\<lambda>v. - 40 \<le> v \<and> v \<le> 215) (decode_temp resp)
   \<and> pred_option (\<lambda>v. 0 \<le> v \<and> v \<le> 656) (decode_maf resp)
   \<and> pred_option (\<lambda>v. - 100 \<le> v \<and> v \<le> 100) (decode_trim resp)
   \<and> pred_option (\<lambda>v. 0 \<le> v \<and> v \<le> 2) (decode_o2 resp)
   \<and> pred_option (\<lambda>v. 0 \<le> v \<and> v \<le> 66) (decode_voltage resp)"
proof -
  have rpm: "0 \<le> f64_div (word_f64 a b) 4 \<and> f64_div (word_f64 a b) 4 \<le> 65535 / 4" for a b
  proof -
    have "f64_div (word_f64 a b) 4 = word_f64 a b / 4"
      by (subst rpm_exact, subst word_f64_eq) (rule refl)
    with word_f64_range [of a b] show ?thesis by simp
  qed
  have byte: "0 \<le> f64_mul (byte_f64 a) 1 \<and> f64_mul (byte_f64 a) 1 \<le> 255" for a
    using byte_int_exact(2) [of 1 a] byte_f64_range [of a] by (simp add: byte_f64_eq)
  have pct: "0 \<le> f64_div (f64_mul (byte_f64 a) 100) 255 \<and> f64_div (f64_mul (byte_f64 a) 100) 255 \<le> 100" for a
    using f64.quotient_range [of "byte_f64 a * 100" 25500 255 100] byte_f64_range [of a]
    by (simp add: pct_numerator f64_div_def)
  have temp: "- 40 \<le> f64_sub (byte_f64 a) 40 \<and> f64_sub (byte_f64 a) 40 \<le> 215" for a
  proof -
    have "f64_sub (byte_f64 a) 40 = byte_f64 a - 40"
      by (subst temp_exact) (simp add: byte_f64_eq)
    with byte_f64_range [of a] show ?thesis by simp
  qed
  have maf: "0 \<le> f64_div (word_f64 a b) 100 \<and> f64_div (word_f64 a b) 100 \<le> 656" for a b
    using f64.quotient_range [of "word_f64 a b" 65535 100 656] word_f64_range [of a b] by (simp add: f64_div_def)
  have trim: "- 100 \<le> f64_sub (f64_div (byte_f64 a) (rnd64 (128 / 100))) 100
      \<and> f64_sub (f64_div (byte_f64 a) (rnd64 (128 / 100))) 100 \<le> 100" for a
  proof -
    have "0 \<le> f64_div (byte_f64 a) (rnd64 (128 / 100)) \<and> f64_div (byte_f64 a) (rnd64 (128 / 100)) \<le> 200"
      using f64.quotient_range [of "byte_f64 a" 255 "rnd64 (128 / 100)" 200] byte_f64_range [of a] rnd_128
      unfolding f64_div_def by simp
    then show ?thesis
      using f64.rnd_range [of "- 100" "f64_div (byte_f64 a) (rnd64 (128 / 100)) - 100" 100]
      by (simp add: f64_sub_def)
  qed
  have o2: "0 \<le> f64_div (byte_f64 a) 200 \<and> f64_div (byte_f64 a) 200 \<le> 2" for a
    using f64.quotient_range [of "byte_f64 a" 255 200 2] byte_f64_range [of a] by (simp add: f64_div_def)
  have volt: "0 \<le> f64_div (word_f64 a b) 1000 \<and> f64_div (word_f64 a b) 1000 \<le> 66" for a b
    using f64.quotient_range [of "word_f64 a b" 65535 1000 66] word_f64_range [of a b] by (simp add: f64_div_def)
  show ?thesis
    unfolding decode_defs by (simp add: rpm [simplified] byte pct temp maf trim [simplified] o2 volt split: list.split)
qed

text \<open>
  A reply \<^verbatim>\<open>41 <pid> <data>\<close> is decoded from its data bytes alone, whatever its spacing, line
  breaks and letter case: the payload is the data, and engine speed, speed and temperature are
  the exact SAE values \<open>(256 A + B) / 4\<close>, \<open>A\<close> and \<open>A - 40\<close>.
\<close>
theorem pid_reply_decoded:
  assumes "to_upper (filter is_hex_any resp) = hex_of_bytes (0x41 # pid # a # b # rest)"
  shows "decode_payload resp = a # b # rest
    \<and> decode_rpm resp = Some (of_int (256 * uint a + uint b) / 4)
    \<and> decode_byte resp 1 = Some (of_int (uint a))
    \<and> decode_temp resp = Some (of_int (uint a - 40))"
proof -
  have "decode_payload resp = a # b # rest"
    by (rule decode_payload_reply [OF assms]) simp
  then show ?thesis
    using byte_int_exact(2) [of 1 a] temp_exact [of a] rpm_exact [of a b]
    by (simp add: decode_defs mult.commute)
qed

theorem pid_reply_decoded_witness:
  "decode_rpm (''41 0c 1A f8'' @ [CHR 0x0D] @ ''>'') = Some 1726"
proof -
  have "to_upper (filter is_hex_any (''41 0c 1A f8'' @ [CHR 0x0D] @ ''>'')) = hex_of_bytes (0x41 # 0x0C # 0x1A # 0xF8 # [])"
    by code_simp
  from pid_reply_decoded [OF this] show ?thesis by simp
qed

end
