(* ===== verification/Elm.thy ===== *)
theory Elm
  imports ObdTypes Actions
begin

text \<open>
  The command layer of \<^verbatim>\<open>pkg/obd/usb.go\<close>: one exchange with an ELM327 over the serial port,
  the reading of its text, and the search for a VIN. The serial driver, the clock, the context
  and the file system are code outside the repository: they are the functions of the record
  \<open>env\<close>, over a world of any type, and what the driver returns for one command is a value
  of \<open>exchange\<close>.
\<close>

section \<open>The outside world\<close>

text \<open>
  Opening a port answers, fails, or is still open when the 12 s limit passes. One command is
  either not written, or the reader goroutine sees the events of the list; the list ends where
  the 250 ms of grace after the deadline end. The flag says which of the two ready channels
  \<^verbatim>\<open>select\<close> took: the reader's, or that of the command's deadline.
\<close>

datatype open_outcome = Opened | OpenFailed gerr | OpenTimedOut

datatype read_event = CtxDone gerr | ReadBytes string "gerr option"

datatype exchange = WriteFailed gerr | Exchange bool "read_event list"

record 'w env =
  ctx_err :: "'w \<Rightarrow> gerr option"
  now_ms :: "'w \<Rightarrow> nat"
  pass_ms :: "nat \<Rightarrow> 'w \<Rightarrow> 'w"
  serial_open :: "string \<Rightarrow> int \<Rightarrow> 'w \<Rightarrow> open_outcome \<times> 'w"
  set_mode :: "int \<Rightarrow> 'w \<Rightarrow> gerr option \<times> 'w"
  raise_lines :: "'w \<Rightarrow> 'w"
  wake_write :: "'w \<Rightarrow> 'w"
  exchange_with :: "string \<Rightarrow> 'w \<Rightarrow> exchange \<times> 'w"
  port_close :: "'w \<Rightarrow> 'w"
  stat_ok :: "string \<Rightarrow> 'w \<Rightarrow> bool"
  read_file :: "string \<Rightarrow> string option"
  eval_symlinks :: "string \<Rightarrow> string option"
  map_order :: "(string \<times> dtc) list \<Rightarrow> (string \<times> dtc) list"

text \<open>
  \<^verbatim>\<open>USBAdapter\<close>. The handle is held or not (\<open>port_open\<close>); what the adapter reports to
  \<^verbatim>\<open>Progress\<close> and writes to the port is kept in \<open>progress\<close> and \<open>wire\<close>.
\<close>

record 'w usb =
  device_path :: string
  baud :: int
  name_hint :: string
  port_open :: bool
  ready :: bool
  progress :: "string list"
  wire :: "string list"
  world :: 'w

section \<open>Reading text\<close>

definition is_port_dead :: "gerr option \<Rightarrow> bool" where
  "is_port_dead err =
     (case err of
        None \<Rightarrow> False
      | Some e \<Rightarrow>
          if err_is e EOF then True
          else let s = to_lower (err_text e)
               in contains s ''closed'' \<or> contains s ''disconnected'' \<or> contains s ''no such file'')"

fun read_until_prompt :: "string \<Rightarrow> read_event list \<Rightarrow> (string \<times> gerr option) option" where
  "read_until_prompt b [] = None"
| "read_until_prompt b (CtxDone e # es) = Some (b, Some e)"
| "read_until_prompt b (ReadBytes d err # es) =
     (let b' = b @ d
      in if d \<noteq> [] \<and> contains b' ''>'' then Some (b', None)
         else if err = Some EOF \<or> is_port_dead err
              then (if b' \<noteq> [] then Some (b', None) else Some ([], err))
              else read_until_prompt b' es)"

definition looks_like_elm :: "string \<Rightarrow> bool" where
  "looks_like_elm s =
     (let u = to_upper s
      in list_ex (\<lambda>n. contains u n) [''ELM'', ''STN'', ''OBDII'', ''OBD-II'', ''V1.'', ''V2.'', ''OK''])"

definition pid0100_supported :: "string \<Rightarrow> bool" where
  "pid0100_supported resp =
     (let u = to_upper (remove_all '' '' resp)
      in if u = [] \<or> contains u ''UNABLE'' \<or> contains u ''ERROR'' \<or> contains u ''NODATA'' then False
         else contains u ''4100'')"

definition clip_log :: "string \<Rightarrow> nat \<Rightarrow> string" where
  "clip_log s0 n =
     (let s = join '' '' (str_fields s0) in if length s \<le> n then s else take n s @ ellipsis)"

definition command_wait :: "string \<Rightarrow> nat" where
  "command_wait cmd =
     (if cmd = ''ATZ'' then 2000
      else if cmd = ''ATWS'' then 1500
      else if cmd = ''0100'' then 8000
      else if cmd = ''0902'' then 8000
      else if cmd = ''03'' \<or> cmd = ''07'' \<or> cmd = ''0A'' then 4000
      else if cmd = ''ATSP0'' then 2500
      else if length cmd \<ge> 2 \<and> is_digit (hd cmd) then 2000
      else 1200)"

text \<open>The text of a duration of whole tenths of a second, as all the waits are.\<close>

definition duration_text :: "nat \<Rightarrow> string" where
  "duration_text ms =
     show_nat (ms div 1000) @ (if ms mod 1000 = 0 then [] else CHR ''.'' # show_nat (ms mod 1000 div 100)) @ ''s''"

section \<open>One command\<close>

text \<open>What \<^verbatim>\<open>command\<close> makes of the raw text: echo and prompt removed, adapter errors detected.\<close>

definition strip_reply :: "string \<Rightarrow> string \<Rightarrow> string" where
  "strip_reply cmd raw = trim_space (remove_all ''>'' (remove_all cmd raw))"

definition finish_reply :: "string \<Rightarrow> string \<Rightarrow> string \<times> gerr option" where
  "finish_reply cmd raw =
     (let out = strip_reply cmd raw; u = to_upper out
      in if contains u ''NO DATA'' then (out, None)
         else if contains u ''UNABLE'' \<or> contains u ''ERROR''
              then (out, Some (Msg (''adapter error: '' @ out)))
              else (out, None))"

definition no_prompt :: "string \<Rightarrow> string" where
  "no_prompt cmd = ''no prompt for '' @ cmd @ '' within '' @ duration_text (command_wait cmd)"

fun command_result :: "string \<Rightarrow> exchange \<Rightarrow> string \<times> gerr option" where
  "command_result cmd (WriteFailed e) = ([], Some e)"
| "command_result cmd (Exchange reader_first evs) =
     (case read_until_prompt [] evs of
        None \<Rightarrow> ([], Some (Wrapped [] StuckSerial ('': '' @ no_prompt cmd)))
      | Some (s, err) \<Rightarrow>
          if reader_first
          then (case err of Some e \<Rightarrow> ([], Some e) | None \<Rightarrow> finish_reply cmd s)
          else if s \<noteq> [] then finish_reply cmd s else ([], Some (Msg (no_prompt cmd))))"

definition report :: "string \<Rightarrow> ('w usb, unit) state" where
  "report msg = modify (\<lambda>u. u\<lparr>progress := progress u @ [msg]\<rparr>)"

definition command :: "'w env \<Rightarrow> string \<Rightarrow> ('w usb, string \<times> gerr option) state" where
  "command env cmd = do {
     held \<leftarrow> reads port_open;
     if \<not> held then ret ([], Some (Msg ''adapter not open''))
     else do {
       ex \<leftarrow> reads (\<lambda>u. fst (exchange_with env cmd (world u)));
       modify (\<lambda>u. u\<lparr>wire := wire u @ [cmd], world := snd (exchange_with env cmd (world u))\<rparr>);
       ret (command_result cmd ex)
     }
   }"

section \<open>The VIN\<close>

definition is_vin_char :: "char \<Rightarrow> bool" where
  "is_vin_char c \<longleftrightarrow> (is_upper c \<and> c \<notin> {CHR ''I'', CHR ''O'', CHR ''Q''}) \<or> is_digit c"

definition looks_like_vin :: "string \<Rightarrow> bool" where
  "looks_like_vin s \<longleftrightarrow> length s = 17 \<and> length (filter is_digit s) \<ge> 3"

definition extract_vin :: "string \<Rightarrow> string" where
  "extract_vin resp =
     (let s = filter is_vin_char (to_upper resp)
      in case find looks_like_vin (map (\<lambda>i. take 17 (drop i s)) [0..<length s - 16]) of
           Some cand \<Rightarrow> cand
         | None \<Rightarrow> [])"

section \<open>Lemmas\<close>

lemma keeps_report: "(\<And>u. P u \<Longrightarrow> P (u\<lparr>progress := progress u @ [msg]\<rparr>)) \<Longrightarrow> keeps P (report msg)"
  unfolding report_def by (rule keeps_modify)

lemma keeps_command:
  assumes "\<And>u w. P u \<Longrightarrow> port_open u \<Longrightarrow> P (u\<lparr>wire := wire u @ [cmd], world := w\<rparr>)"
  shows "keeps P (command env cmd)"
  using assms by (auto simp: keeps_def spec_def command_def)

text \<open>\<^verbatim>\<open>command\<close> never changes whether the port is held, the baud rate or the ready flag.\<close>

lemma run_report [simp]: "run_state (report msg) u = ((), u\<lparr>progress := progress u @ [msg]\<rparr>)"
  by (simp add: report_def)

lemma command_closed: "\<not> port_open u \<Longrightarrow> run_state (command env cmd) u = (([], Some (Msg ''adapter not open'')), u)"
  by (simp add: command_def)

lemma command_open:
  "port_open u \<Longrightarrow> run_state (command env cmd) u =
     (command_result cmd (fst (exchange_with env cmd (world u))),
      u\<lparr>wire := wire u @ [cmd], world := snd (exchange_with env cmd (world u))\<rparr>)"
  by (simp add: command_def)

lemma read_until_prompt_chunks:
  assumes "\<forall>d \<in> set ds. \<not> contains d ''>''" and "\<not> contains b ''>''" and "CHR ''>'' \<in> set d"
  shows "read_until_prompt b (map (\<lambda>d. ReadBytes d None) ds @ ReadBytes d None # es)
    = Some (b @ concat ds @ d, None)"
  using assms
proof (induction ds arbitrary: b)
  case Nil
  then have "d \<noteq> []" and "contains (b @ d) ''>''" by (auto simp: contains_char)
  then show ?case by (simp add: Let_def)
next
  case (Cons c ds)
  then have "\<not> contains (b @ c) ''>''" by (simp add: contains_char)
  with Cons show ?case
    by (simp add: is_port_dead_def contains_char Let_def)
qed

lemma remove_all_absent: "\<not> contains s t \<Longrightarrow> remove_all t s = s"
  by (induction s) auto

lemma remove_all_hd: "t \<noteq> [] \<Longrightarrow> remove_all t (t @ s) = remove_all t s"
  by (cases t) auto

lemma find_map_Some:
  "find P (map f xs) = Some y \<Longrightarrow> \<exists>x \<in> set xs. y = f x \<and> P y"
  by (auto simp: find_Some_iff)

lemma vin_windows:
  "w \<in> set (map (\<lambda>i. take 17 (drop i s)) [0..<length s - 16]) \<longleftrightarrow> length w = 17 \<and> contains s w"
proof
  assume "w \<in> set (map (\<lambda>i. take 17 (drop i s)) [0..<length s - 16])"
  then obtain i where i: "i < length s - 16" and w: "w = take 17 (drop i s)"
    by auto
  have "s = take i s @ w @ drop 17 (drop i s)"
    unfolding w by (metis append_take_drop_id)
  then show "length w = 17 \<and> contains s w"
    using i w by (auto simp: contains_iff)
next
  assume w: "length w = 17 \<and> contains s w"
  then obtain as bs where s: "s = as @ w @ bs"
    by (auto simp: contains_iff)
  with w have "w = take 17 (drop (length as) s)" and "length as < length s - 16"
    by auto
  then show "w \<in> set (map (\<lambda>i. take 17 (drop i s)) [0..<length s - 16])"
    by auto
qed

lemma extract_vin_cases:
  "extract_vin resp = [] \<or>
     looks_like_vin (extract_vin resp) \<and> contains (filter is_vin_char (to_upper resp)) (extract_vin resp)"
proof (cases "extract_vin resp = []")
  case False
  let ?s = "filter is_vin_char (to_upper resp)"
  let ?ws = "map (\<lambda>i. take 17 (drop i ?s)) [0..<length ?s - 16]"
  obtain c where c: "find looks_like_vin ?ws = Some c" "extract_vin resp = c"
    using False by (auto simp: extract_vin_def Let_def split: option.splits)
  then have "looks_like_vin c" and "c \<in> set ?ws"
    using find_SomeD by fast+
  with c show ?thesis
    unfolding vin_windows by simp
qed simp

section \<open>Properties\<close>

text \<open>
  C40. What a command reads does not depend on how the serial driver cuts the answer into pieces:
  if the pieces before hold no prompt and the last one does, the reader returns all the bytes
  up to there and looks at nothing after it.
\<close>
theorem read_until_prompt_pieces:
  assumes "\<forall>d \<in> set ds. \<not> contains d ''>''" and "contains d ''>''"
  shows "read_until_prompt [] (map (\<lambda>d. ReadBytes d None) ds @ ReadBytes d None # es)
    = Some (concat ds @ d, None)"
  using read_until_prompt_chunks [of ds "[]" d es] assms by (simp add: contains_char)

theorem read_until_prompt_pieces_witness:
  "read_until_prompt [] [ReadBytes ''ELM327'' None, ReadBytes '' v1.5>'' None, CtxDone EOF]
    = Some (''ELM327 v1.5>'', None)"
  using read_until_prompt_pieces [of "[''ELM327'']" "'' v1.5>''" "[CtxDone EOF]"] by simp

text \<open>
  When the text of a command does not occur in the answer itself, echo and prompt are
  removed and nothing else: with or without the echo of the command in front, the caller gets
  the answer without prompt characters and without surrounding white space.
\<close>
theorem strip_reply_exact:
  assumes "\<not> contains answer cmd" and "cmd \<noteq> []"
  shows "strip_reply cmd (cmd @ answer) = trim_space (filter (\<lambda>c. c \<noteq> CHR ''>'') answer)
    \<and> strip_reply cmd answer = trim_space (filter (\<lambda>c. c \<noteq> CHR ''>'') answer)"
  using assms by (simp add: strip_reply_def remove_all_hd remove_all_absent remove_all_single)

theorem strip_reply_exact_witness:
  "strip_reply ''010C'' (''010C'' @ [CHR 0x0D] @ ''410C1AF8'' @ [CHR 0x0D, CHR 0x0D] @ ''>'') = ''410C1AF8''"
  using strip_reply_exact [of "[CHR 0x0D] @ ''410C1AF8'' @ [CHR 0x0D, CHR 0x0D] @ ''>''" "''010C''"]
  by (simp add: trim_space_def trim_left_def is_space_def)

text \<open>
  The echo removal also deletes the bytes of an answer that happen to spell the command. With
  the spaces switched off, as \<^verbatim>\<open>configureELM\<close> does, the answer to mode 03 that stores
  P0300 decodes to P0300, but after \<open>finish_reply\<close> no code is left of it.
\<close>
theorem echo_removal_loses_P0300:
  "decode_dtcs ''43030000000000'' = [''P0300'']
   \<and> finish_reply ''03'' (''43030000000000'' @ [CHR 0x0D, CHR 0x0D] @ ''>'') = (''430000000000'', None)
   \<and> decode_dtcs ''430000000000'' = []"
  by (intro conjI) code_simp+

text \<open>
  \<open>extract_vin\<close> finds a VIN exactly when the letters and digits of the answer hold 17
  consecutive ones with at least three digits, and what it returns is such a run: no I, O or Q,
  and nothing that is not in the answer.
\<close>
theorem extract_vin_correct:
  "(extract_vin resp \<noteq> [] \<longleftrightarrow>
      (\<exists>w. looks_like_vin w \<and> contains (filter is_vin_char (to_upper resp)) w))
   \<and> (extract_vin resp = [] \<or>
      (looks_like_vin (extract_vin resp) \<and> list_all is_vin_char (extract_vin resp)
       \<and> contains (filter is_vin_char (to_upper resp)) (extract_vin resp)))"
proof -
  let ?s = "filter is_vin_char (to_upper resp)"
  let ?ws = "map (\<lambda>i. take 17 (drop i ?s)) [0..<length ?s - 16]"
  have "list_all is_vin_char w" if "contains ?s w" for w
  proof -
    obtain as bs where "?s = as @ w @ bs" using \<open>contains ?s w\<close> by (auto simp: contains_iff)
    then have "list_all is_vin_char (as @ w @ bs)" by (metis list_all_filter_self)
    then show ?thesis by simp
  qed
  moreover have "extract_vin resp \<noteq> []" if "looks_like_vin w" "contains ?s w" for w
  proof -
    have "w \<in> set ?ws" using that unfolding vin_windows by (simp add: looks_like_vin_def)
    with that(1) obtain c where "find looks_like_vin ?ws = Some c"
      using find_NoneD by fastforce
    then show ?thesis
      using find_SomeD [of looks_like_vin ?ws c] by (auto simp: extract_vin_def looks_like_vin_def)
  qed
  ultimately show ?thesis
    using extract_vin_cases [of resp] by blast
qed

text \<open>
  An ELM327 answers mode 09 with hexadecimal digits. \<open>extract_vin\<close> searches those digits
  as they are and never decodes them to characters, so from an answer in hexadecimal it cannot
  return a VIN that has a letter after F, whatever bytes the vehicle sent.
\<close>
theorem extract_vin_of_hex:
  assumes "\<not> list_all is_hex_upper vin"
  shows "extract_vin (hex_of_bytes bs) \<noteq> vin"
proof
  assume vin: "extract_vin (hex_of_bytes bs) = vin"
  have hex: "list_all is_hex_upper (hex_of_bytes bs)"
    by (induction bs) (simp_all add: hex_of_bytes_def is_hex_upper_hex2)
  have up: "up c = c" if "is_hex_upper c" for c
    using that by (auto simp: up_def is_lower_code is_hex_upper_code)
  have "to_upper (hex_of_bytes bs) = hex_of_bytes bs"
    unfolding to_upper_def using hex up by (simp add: list_all_iff map_idI)
  with extract_vin_cases [of "hex_of_bytes bs"] vin
  have "vin = [] \<or> contains (filter is_vin_char (hex_of_bytes bs)) vin" by auto
  then have "set vin \<subseteq> set (hex_of_bytes bs)"
    by (auto simp: contains_iff) (metis Un_iff filter_is_subset set_append subset_code(1))
  with hex assms show False
    by (auto simp: list_all_iff)
qed

theorem extract_vin_of_hex_witness:
  "extract_vin (hex_of_bytes (0x49 # 0x02 # 0x01 # map (\<lambda>c. word_of_nat (of_char c)) ''4T1BF1FK5FU628918''))
    \<noteq> ''4T1BF1FK5FU628918''"
  by (rule extract_vin_of_hex) code_simp

end
