(* ===== verification/Bench.thy ===== *)
theory Bench
  imports Elm
begin

text \<open>
  A bench on which the adapters can be run: an outside world for concrete examples.
\<close>

text \<open>The world is a clock, and each command has a fixed answer.\<close>

definition bench :: "(string \<Rightarrow> string) \<Rightarrow> nat env" where
  "bench reply =
     \<lparr>ctx_err = (\<lambda>_. None), now_ms = (\<lambda>w. w), pass_ms = (\<lambda>ms w. w + ms),
      serial_open = (\<lambda>_ _ w. (Opened, w)), set_mode = (\<lambda>_ w. (None, w)), raise_lines = (\<lambda>w. w),
      wake_write = (\<lambda>w. w), exchange_with = (\<lambda>cmd w. (Exchange True [ReadBytes (reply cmd) None], w)),
      port_close = (\<lambda>w. w), stat_ok = (\<lambda>_ _. True), read_file = (\<lambda>_. None), eval_symlinks = (\<lambda>_. None),
      map_order = (\<lambda>xs. xs)\<rparr>"

end
