(* ===== verification/Detect.thy ===== *)
theory Detect
  imports Elm
begin

text \<open>
  \<^verbatim>\<open>pkg/obd/detect.go\<close>: what a serial node is, from its USB descriptors, and the text shown
  for it; with \<^verbatim>\<open>firstELMPath\<close> of the bay server, which picks the port to scan. The file
  system is read through \<open>read_file\<close> and \<open>eval_symlinks\<close> of \<open>env\<close>, and the
  operating system and the list of candidate nodes are arguments.
\<close>

datatype adapter_kind = KindUnknown | KindELMCandidate | KindJ2534OpenPort

fun kind_text :: "adapter_kind \<Rightarrow> string" where
  "kind_text KindUnknown = ''unknown''"
| "kind_text KindELMCandidate = ''elm_candidate''"
| "kind_text KindJ2534OpenPort = ''j2534_openport''"

record serial_port =
  sp_path :: string
  sp_kind :: adapter_kind
  sp_vid :: string
  sp_pid :: string
  sp_manufacturer :: string
  sp_product :: string
  sp_label :: string

definition classify_usb_identity :: "string \<Rightarrow> string \<Rightarrow> string \<Rightarrow> string \<Rightarrow> adapter_kind" where
  "classify_usb_identity vid0 pid0 manufacturer product =
     (let vid = to_lower (trim_space vid0);
          pid = to_lower (trim_space pid0);
          blob = to_lower (manufacturer @ '' '' @ product)
      in if vid = ''0403'' \<and> pid = ''cc4d'' then KindJ2534OpenPort
         else if contains blob ''openport'' \<or> contains blob ''tactrix'' then KindJ2534OpenPort
         else if vid = [] \<and> pid = [] then KindUnknown
         else KindELMCandidate)"

definition usb_nickname :: "string \<Rightarrow> string \<Rightarrow> string" where
  "usb_nickname vid pid =
     (let k = to_lower (trim_space vid @ '':'' @ trim_space pid)
      in if k = ''0918:7104'' then ''QBD''
         else if k = ''0403:cc4d'' then ''Tactrix OpenPort''
         else [])"

definition display_label :: "serial_port \<Rightarrow> string" where
  "display_label p =
     (if sp_label p \<noteq> [] then sp_label p
      else case sp_kind p of
        KindJ2534OpenPort \<Rightarrow>
          (let id0 = trim_space (sp_vid p @ '':'' @ sp_pid p);
               id = (if id0 = '':'' then ''J2534'' else id0)
           in sp_path p @ '' '' @ em_dash @ '' OpenPort / J2534 (not ELM) '' @ id)
      | KindELMCandidate \<Rightarrow>
          (let nick = usb_nickname (sp_vid p) (sp_pid p);
               id = trim_space (sp_vid p @ '':'' @ sp_pid p)
           in if nick \<noteq> [] \<and> id \<noteq> '':'' then sp_path p @ '' '' @ em_dash @ '' '' @ nick @ '' ELM-class '' @ id
              else if sp_vid p \<noteq> [] then sp_path p @ '' '' @ em_dash @ '' ELM-class '' @ sp_vid p @ '':'' @ sp_pid p
              else sp_path p @ '' '' @ em_dash @ '' ELM-class'')
      | KindUnknown \<Rightarrow> sp_path p)"

section \<open>The sysfs walk\<close>

text \<open>
  \<^verbatim>\<open>filepath.Base\<close> and \<^verbatim>\<open>filepath.Dir\<close> of a clean absolute path, and \<^verbatim>\<open>filepath.Join\<close>
  of a directory with a plain name.
\<close>

definition path_base :: "string \<Rightarrow> string" where
  "path_base p =
     (if p = [] then ''.''
      else let q = trim_right_char (CHR ''/'') p
           in if q = [] then ''/'' else last (split_on (CHR ''/'') q))"

definition path_dir :: "string \<Rightarrow> string" where
  "path_dir p =
     (let q = trim_right_char (CHR ''/'') (rev (dropWhile (\<lambda>c. c \<noteq> CHR ''/'') (rev p)))
      in if q = [] then (if has_prefix p ''/'' then ''/'' else ''.'') else q)"

definition path_join :: "string \<Rightarrow> string \<Rightarrow> string" where
  "path_join dir name = (if dir = ''/'' then dir @ name else dir @ ''/'' @ name)"

definition read_trimmed :: "'w env \<Rightarrow> string \<Rightarrow> string \<Rightarrow> string" where
  "read_trimmed env dir name =
     (case read_file env (path_join dir name) of Some b \<Rightarrow> trim_space b | None \<Rightarrow> [])"

fun usb_identity_up :: "'w env \<Rightarrow> nat \<Rightarrow> string \<Rightarrow> string \<times> string \<times> string \<times> string" where
  "usb_identity_up env 0 dir = ([], [], [], [])"
| "usb_identity_up env (Suc left) dir =
     (if dir = [] \<or> dir = ''/'' then ([], [], [], [])
      else case (read_file env (path_join dir ''idVendor''), read_file env (path_join dir ''idProduct'')) of
             (Some v, Some p) \<Rightarrow>
               (trim_space v, trim_space p, read_trimmed env dir ''manufacturer'', read_trimmed env dir ''product'')
           | _ \<Rightarrow> usb_identity_up env left (path_dir dir))"

definition linux_usb_identity :: "'w env \<Rightarrow> string \<Rightarrow> string \<times> string \<times> string \<times> string" where
  "linux_usb_identity env dev_path =
     (let start = ''/sys/class/tty/'' @ path_base dev_path @ ''/device'';
          dir = (case eval_symlinks env start of Some d \<Rightarrow> d | None \<Rightarrow> start)
      in usb_identity_up env 10 dir)"

definition inspect_serial_port :: "'w env \<Rightarrow> string \<Rightarrow> string \<Rightarrow> serial_port" where
  "inspect_serial_port env goos path =
     (let p = \<lparr>sp_path = path, sp_kind = KindUnknown, sp_vid = [], sp_pid = [],
               sp_manufacturer = [], sp_product = [], sp_label = []\<rparr>
      in if goos \<noteq> ''linux'' then p\<lparr>sp_label := display_label p\<rparr>
         else let (vid, pid, mfr, product) = linux_usb_identity env path;
                  q = p\<lparr>sp_vid := vid, sp_pid := pid, sp_manufacturer := mfr, sp_product := product,
                        sp_kind := classify_usb_identity vid pid mfr product\<rparr>
              in q\<lparr>sp_label := display_label q\<rparr>)"

text \<open>
  \<^verbatim>\<open>ListSerialPorts\<close> over the result of \<^verbatim>\<open>ListUSBSerialDevices\<close>, whose own loop keeps the
  first occurrence of every matching character device.
\<close>

fun unseen_devices :: "(string \<Rightarrow> bool) \<Rightarrow> string list \<Rightarrow> string list \<Rightarrow> string list" where
  "unseen_devices is_char seen [] = []"
| "unseen_devices is_char seen (m # ms) =
     (if m \<in> set seen then unseen_devices is_char seen ms
      else if \<not> is_char m then unseen_devices is_char seen ms
      else m # unseen_devices is_char (m # seen) ms)"

definition list_usb_serial_devices :: "(string \<Rightarrow> bool) \<Rightarrow> (string \<Rightarrow> string list) \<Rightarrow> string list" where
  "list_usb_serial_devices is_char glob =
     unseen_devices is_char [] (glob ''/dev/ttyUSB*'' @ glob ''/dev/ttyACM*'')"

definition list_serial_ports :: "'w env \<Rightarrow> string \<Rightarrow> gerr + string list \<Rightarrow> gerr + serial_port list" where
  "list_serial_ports env goos paths =
     (case paths of Inl e \<Rightarrow> Inl e | Inr ps \<Rightarrow> Inr (map (inspect_serial_port env goos) ps))"

fun first_elm_loop :: "bool \<Rightarrow> serial_port list \<Rightarrow> gerr + string" where
  "first_elm_loop saw [] =
     (if saw then Inl J2534Unsupported
      else Inl (Msg (''no USB serial device found '' @ em_dash @ '' plug in the ELM327, or use mock mode'')))"
| "first_elm_loop saw (p # ps) =
     (if sp_kind p = KindJ2534OpenPort then first_elm_loop True ps else Inr (sp_path p))"

definition first_elm_path :: "serial_port list \<Rightarrow> gerr + string" where
  "first_elm_path ports =
     (if ports = []
      then Inl (Msg (''no USB serial device found '' @ em_dash @ '' plug in the ELM327, or use mock mode''))
      else first_elm_loop False ports)"

section \<open>Lemmas\<close>

lemma first_elm_loop_Inr:
  "first_elm_loop saw ps = Inr path \<longleftrightarrow>
     (\<exists>p. find (\<lambda>p. sp_kind p \<noteq> KindJ2534OpenPort) ps = Some p \<and> sp_path p = path)"
  by (induction ps arbitrary: saw) auto

lemma find_split:
  "find P ps = Some p \<longleftrightarrow> (\<exists>as bs. ps = as @ p # bs \<and> (\<forall>a \<in> set as. \<not> P a) \<and> P p)"
proof
  assume "find P ps = Some p"
  then show "\<exists>as bs. ps = as @ p # bs \<and> (\<forall>a \<in> set as. \<not> P a) \<and> P p"
  proof (induction ps)
    case (Cons q ps)
    show ?case
    proof (cases "P q")
      case True
      with Cons.prems have "q # ps = [] @ p # ps \<and> P p" by simp
      then show ?thesis by fastforce
    next
      case False
      with Cons obtain as bs where "ps = as @ p # bs \<and> (\<forall>a \<in> set as. \<not> P a) \<and> P p" by auto
      then have "q # ps = (q # as) @ p # bs \<and> (\<forall>a \<in> set (q # as). \<not> P a) \<and> P p"
        using False by simp
      then show ?thesis by blast
    qed
  qed simp
next
  assume "\<exists>as bs. ps = as @ p # bs \<and> (\<forall>a \<in> set as. \<not> P a) \<and> P p"
  then obtain as bs where ps: "ps = as @ p # bs" and "\<forall>a \<in> set as. \<not> P a" "P p" by blast
  then show "find P ps = Some p"
    unfolding ps by (induction as) auto
qed

lemma unseen_devices_distinct:
  "distinct (unseen_devices is_char seen ms) \<and> set (unseen_devices is_char seen ms) = {m \<in> set ms. is_char m \<and> m \<notin> set seen}"
  by (induction ms arbitrary: seen) auto

lemma sp_path_inspect [simp]: "sp_path (inspect_serial_port env goos path) = path"
  by (simp add: inspect_serial_port_def Let_def split: prod.splits)

section \<open>Properties\<close>

text \<open>
  The bay server never picks an OpenPort: it returns a path only when a port before which
  all ports are J2534 is not J2534 itself, and then the path of that first one; when every
  port is J2534 the error is the J2534 one, so that the technician is told why.
\<close>
theorem first_elm_path_correct:
  "(first_elm_path ports = Inr path \<longleftrightarrow>
     (\<exists>as p bs. ports = as @ p # bs \<and> list_all (\<lambda>a. sp_kind a = KindJ2534OpenPort) as
        \<and> sp_kind p \<noteq> KindJ2534OpenPort \<and> sp_path p = path))
   \<and> (first_elm_path ports = Inl J2534Unsupported \<longleftrightarrow>
        ports \<noteq> [] \<and> list_all (\<lambda>p. sp_kind p = KindJ2534OpenPort) ports)"
proof -
  have all: "first_elm_loop saw ps = Inl J2534Unsupported \<longleftrightarrow>
      (saw \<or> ps \<noteq> []) \<and> list_all (\<lambda>p. sp_kind p = KindJ2534OpenPort) ps" for saw ps
    by (induction ps arbitrary: saw) auto
  show ?thesis
    using first_elm_loop_Inr [of False ports path] all [of False ports]
    by (auto simp: first_elm_path_def find_split list_all_iff)
qed

text \<open>
  Classification does not depend on the letter case or the white space of the descriptors,
  and every device whose USB ids are 0403:cc4d or whose names mention OpenPort or Tactrix is
  refused as J2534.
\<close>
theorem classify_usb_identity_normal:
  "classify_usb_identity (to_upper vid) (trim_space pid) (to_upper mfr) (to_lower product)
     = classify_usb_identity vid pid mfr product
   \<and> (classify_usb_identity vid pid mfr product = KindJ2534OpenPort \<longleftrightarrow>
       to_lower (trim_space vid) = ''0403'' \<and> to_lower (trim_space pid) = ''cc4d''
       \<or> contains (to_lower (mfr @ '' '' @ product)) ''openport''
       \<or> contains (to_lower (mfr @ '' '' @ product)) ''tactrix'')"
proof -
  have "to_lower (trim_space (to_upper vid)) = to_lower (trim_space vid)"
    by (simp add: trim_space_to_upper)
  moreover have "to_lower (to_upper mfr @ '' '' @ to_lower product) = to_lower (mfr @ '' '' @ product)"
    by (simp add: case_defs comp_def)
  ultimately show ?thesis
    by (simp add: classify_usb_identity_def Let_def)
qed

end
