(* ===== verification/Scanner.thy ===== *)
theory Scanner
  imports ObdTypes Actions "HOL-Library.AList"
begin

text \<open>
  \<^verbatim>\<open>Scanner.Scan\<close> of \<^verbatim>\<open>pkg/obd/types.go\<close>: one diagnostic pass over an adapter, and the link
  metrics it keeps. The adapter is the Go interface \<^verbatim>\<open>Adapter\<close>, a record of actions on a
  state; \<^verbatim>\<open>LiveSampler\<close> is the optional one. What a scan relies on is the locale
  \<open>scan_adapter\<close>, which the USB adapter and the mock of \<^verbatim>\<open>pkg/obd/mock.go\<close> interpret.
\<close>

section \<open>The interface\<close>

record 's adapter =
  ad_name :: "'s \<Rightarrow> string"
  ad_link :: string
  ad_open :: "('s, gerr option) state"
  ad_close :: "('s, unit) state"
  ad_identify :: "('s, gerr + vehicle_info) state"
  ad_dtcs :: "('s, gerr + dtc list) state"
  ad_freeze :: "string \<Rightarrow> ('s, gerr + any_map option) state"
  ad_live :: "('s, gerr + live_snapshot) state option"
  ad_report :: "string \<Rightarrow> ('s, unit) state"
  ad_ctx :: "'s \<Rightarrow> gerr option"
  ad_now :: "'s \<Rightarrow> nat"

section \<open>Link metrics\<close>

definition new_metrics :: link_metrics where
  "new_metrics = \<lparr>lm_attempts = 0, lm_failures = 0, lm_timeouts = 0, lm_protocol = [], lm_confidence = 0, lm_notes = []\<rparr>"

definition tried :: "bool \<Rightarrow> link_metrics \<Rightarrow> link_metrics" where
  "tried ok m = m\<lparr>lm_attempts := lm_attempts m + 1, lm_failures := lm_failures m + (if ok then 0 else 1)\<rparr>"

definition link_confidence :: "link_metrics \<Rightarrow> float64" where
  "link_confidence m =
     (if lm_attempts m = 0 then 0
      else
        let ok = f64_div (f64_of_int (lm_attempts m - lm_failures m)) (f64_of_int (lm_attempts m));
            c0 = f64_mul ok 100;
            c1 = (if lm_timeouts m > 0 then f64_sub c0 (f64_mul (f64_of_int (lm_timeouts m)) 8) else c0);
            c2 = (if c1 < 0 then 0 else c1)
        in if c2 > 100 then 100 else c2)"

section \<open>One pass\<close>

text \<open>The freeze-frame loop: metrics, the frames found, the codes already handled, the codes left.\<close>

fun freeze_loop :: "'s adapter \<Rightarrow> link_metrics \<Rightarrow> (string \<times> any_map) list \<Rightarrow> dtc list \<Rightarrow> dtc list
    \<Rightarrow> ('s, gerr + link_metrics \<times> (string \<times> any_map) list \<times> dtc list) state" where
  "freeze_loop A m ff handled [] = ret (Inr (m, ff, handled))"
| "freeze_loop A m ff handled (d # ds) = do {
     e \<leftarrow> reads (ad_ctx A);
     case e of
       Some x \<Rightarrow> ret (Inl x)
     | None \<Rightarrow> do {
         ad_report A (''Freeze frame for '' @ dtc_code d);
         r \<leftarrow> ad_freeze A (dtc_code d);
         let m' = tried (case r of Inl _ \<Rightarrow> False | Inr _ \<Rightarrow> True) m;
             d1 = (case r of Inr (Some f) \<Rightarrow> d\<lparr>dtc_freeze := Some f\<rparr> | _ \<Rightarrow> d);
             ff' = (case r of Inr (Some f) \<Rightarrow> AList.update (dtc_code d) f ff | _ \<Rightarrow> ff);
             d2 = (if dtc_desc d1 = [] then d1\<lparr>dtc_desc := describe_code (dtc_code d1)\<rparr> else d1)
         in freeze_loop A m' ff' (handled @ [d2]) ds
       }
   }"

definition sample_live :: "'s adapter \<Rightarrow> link_metrics \<Rightarrow> ('s, link_metrics \<times> live_snapshot option) state" where
  "sample_live A m =
     (case ad_live A of
        None \<Rightarrow> ret (m, None)
      | Some sampler \<Rightarrow> do {
          ad_report A ''Sampling live sensors'';
          r \<leftarrow> sampler;
          case r of
            Inl _ \<Rightarrow> let m' = tried False m in ret (m'\<lparr>lm_notes := lm_notes m' @ [''live_snapshot_partial'']\<rparr>, None)
          | Inr s \<Rightarrow> ret (tried True m, Some s)
        })"

text \<open>The part of the pass after the freeze frames: live sample, metrics, result.\<close>

definition finish_scan :: "'s adapter \<Rightarrow> nat \<Rightarrow> vehicle_info \<Rightarrow> link_metrics \<Rightarrow> (string \<times> any_map) list \<Rightarrow> dtc list
    \<Rightarrow> ('s, gerr + scan_result) state" where
  "finish_scan A start info m ff ds = do {
     (m1, live) \<leftarrow> sample_live A m;
     let m2 = m1\<lparr>lm_protocol := vi_proto info\<rparr>;
         m3 = m2\<lparr>lm_confidence := link_confidence m2\<rparr>
     in do {
       nm \<leftarrow> reads (ad_name A);
       end_time \<leftarrow> reads (ad_now A);
       ret (Inr \<lparr>sr_link_type = ad_link A, sr_adapter_name = nm, sr_protocol = vi_proto info,
         sr_vehicle = info, sr_dtcs = ds,
         sr_obs = Some \<lparr>obs_live = live, obs_freeze = ff, obs_link = Some m3, obs_readiness = []\<rparr>,
         sr_scanned_at = start, sr_duration = end_time - start\<rparr>)
     }
   }"

definition scan_body :: "'s adapter \<Rightarrow> nat \<Rightarrow> ('s, gerr + scan_result) state" where
  "scan_body A start = do {
     ad_report A ''Reading VIN and protocol'';
     ri \<leftarrow> ad_identify A;
     case ri of
       Inl e \<Rightarrow> ret (Inl e)
     | Inr info \<Rightarrow> do {
         ad_report A ''Reading trouble codes'';
         rd \<leftarrow> ad_dtcs A;
         case rd of
           Inl e \<Rightarrow> ret (Inl e)
         | Inr ds \<Rightarrow> do {
             rf \<leftarrow> freeze_loop A (tried True (tried True new_metrics)) [] [] ds;
             case rf of
               Inl e \<Rightarrow> ret (Inl e)
             | Inr (m, ff, ds') \<Rightarrow> finish_scan A start info m ff ds'
           }
       }
   }"

definition scan :: "'s adapter \<Rightarrow> ('s, gerr + scan_result) state" where
  "scan A = do {
     start \<leftarrow> reads (ad_now A);
     ad_report A ''Opening adapter'';
     oe \<leftarrow> ad_open A;
     case oe of
       Some e \<Rightarrow> ret (Inl e)
     | None \<Rightarrow> do {
         r \<leftarrow> scan_body A start;
         ad_close A;
         ret r
       }
   }"

section \<open>What a scan leaves behind\<close>

text \<open>
  The contract between the scanner and an adapter: an invariant that every method keeps, a failed
  open that leaves nothing held, and a close that drops the handle.
\<close>

locale scan_adapter =
  fixes A :: "'s adapter" and held :: "'s \<Rightarrow> bool" and inv :: "'s \<Rightarrow> bool"
  assumes report_inv: "keeps inv (ad_report A msg)"
    and report_held: "keeps (\<lambda>s. \<not> held s) (ad_report A msg)"
    and open_inv: "keeps inv (ad_open A)"
    and open_failed: "spec (\<lambda>s. inv s \<and> \<not> held s) (ad_open A) (\<lambda>r s. r \<noteq> None \<longrightarrow> \<not> held s)"
    and identify_inv: "keeps inv (ad_identify A)"
    and dtcs_inv: "keeps inv (ad_dtcs A)"
    and freeze_inv: "keeps inv (ad_freeze A code)"
    and live_inv: "ad_live A = Some sampler \<Longrightarrow> keeps inv sampler"
    and close_inv: "keeps inv (ad_close A)"
    and close_drops: "spec inv (ad_close A) (\<lambda>_ s. \<not> held s)"
begin

lemmas method_inv = report_inv open_inv identify_inv dtcs_inv freeze_inv close_inv

lemma freeze_loop_inv: "keeps inv (freeze_loop A m ff handled ds)"
  by (induction ds arbitrary: m ff handled) (auto intro!: keeps_intro method_inv simp: Let_def)

lemma sample_live_inv: "keeps inv (sample_live A m)"
  unfolding sample_live_def
  by (cases "ad_live A") (auto intro!: keeps_bind keeps_ret keeps_case_sum report_inv live_inv simp: Let_def)

lemma scan_body_inv: "keeps inv (scan_body A start)"
  unfolding scan_body_def finish_scan_def
  by (intro keeps_bind keeps_ret keeps_reads keeps_case_sum keeps_case_prod keeps_let
      report_inv identify_inv dtcs_inv freeze_loop_inv sample_live_inv)

lemma scan_closes: "spec (\<lambda>s. inv s \<and> \<not> held s) (scan A) (\<lambda>_ s. inv s \<and> \<not> held s)"
proof -
  let ?I = "\<lambda>s. inv s \<and> \<not> held s"
  have note_keeps: "keeps ?I (ad_report A msg)" for msg
    using report_inv [of msg] report_held [of msg] by (fastforce simp: keeps_def spec_def)
  have opened: "spec ?I (ad_open A) (\<lambda>r s. inv s \<and> (r \<noteq> None \<longrightarrow> \<not> held s))"
    using open_inv open_failed by (fastforce simp: keeps_def spec_def)
  have closed: "spec inv (ad_close A) (\<lambda>_. ?I)"
    using close_inv close_drops by (fastforce simp: keeps_def spec_def)
  have body: "spec inv (do { r \<leftarrow> scan_body A start; ad_close A; ret r }) (\<lambda>_. ?I)" for start
    by (intro spec_bind_keeps scan_body_inv spec_bind [OF closed] spec_ret) simp
  have rest: "spec (\<lambda>s. inv s \<and> (oe \<noteq> None \<longrightarrow> \<not> held s))
      (case oe of Some e \<Rightarrow> ret (Inl e) | None \<Rightarrow> do { r \<leftarrow> scan_body A start; ad_close A; ret r })
      (\<lambda>_. ?I)" for oe start
    using spec_pre [OF body] by (cases oe) (auto intro: spec_ret)
  show ?thesis
    unfolding scan_def
    by (intro spec_bind_keeps keeps_reads note_keeps spec_bind [OF opened] rest)
qed

end

section \<open>The metrics of a pass\<close>

definition counted :: "link_metrics \<Rightarrow> int \<Rightarrow> bool" where
  "counted m n \<longleftrightarrow> lm_attempts m = n \<and> 0 \<le> lm_failures m \<and> lm_failures m \<le> n \<and> lm_timeouts m = 0"

lemma counted_tried: "counted m n \<Longrightarrow> counted (tried ok m) (n + 1)"
  by (simp add: counted_def tried_def)

lemma counted_update: "counted (m\<lparr>lm_notes := ns\<rparr>) n = counted m n"
  "counted (m\<lparr>lm_protocol := p\<rparr>) n = counted m n" "counted (m\<lparr>lm_confidence := c\<rparr>) n = counted m n"
  by (simp_all add: counted_def)

lemma counted_new: "counted new_metrics 0"
  by (simp add: counted_def new_metrics_def)

text \<open>What the freeze-frame loop does to one code: its frame and its description are filled in.\<close>

definition filled :: "dtc \<Rightarrow> dtc \<Rightarrow> bool" where
  "filled d d' \<longleftrightarrow> dtc_code d' = dtc_code d \<and> dtc_status d' = dtc_status d
     \<and> dtc_desc d' = (if dtc_desc d = [] then describe_code (dtc_code d) else dtc_desc d)"

lemma spec_freeze_loop:
  assumes "counted m n"
  shows "spec P (freeze_loop A m ff handled ds)
    (\<lambda>r _. case r of Inl _ \<Rightarrow> True | Inr (m', ff', ds') \<Rightarrow>
       counted m' (n + int (length ds)) \<and> (\<exists>new. ds' = handled @ new \<and> list_all2 filled ds new))"
  using assms
proof (induction ds arbitrary: m n ff handled P)
  case Nil
  then show ?case by (simp add: spec_ret)
next
  case (Cons d ds)
  have "spec (\<lambda>_. True) (freeze_loop A m ff handled (d # ds))
    (\<lambda>r _. case r of Inl _ \<Rightarrow> True | Inr (m', ff', ds') \<Rightarrow>
       counted m' (n + int (length (d # ds))) \<and> (\<exists>new. ds' = handled @ new \<and> list_all2 filled (d # ds) new))"
    (is "spec _ _ ?Q")
  proof -
    have step: "spec P (freeze_loop A (tried ok m) ff' (handled @ [d']) ds) ?Q"
      if "filled d d'" for P ok ff' d'
      by (rule spec_post [OF Cons.IH [OF counted_tried [OF Cons.prems]]])
        (use that in \<open>auto simp: add.assoc split: sum.splits\<close>)
    have any: "spec P m (\<lambda>_ _. True)" for P m
      by (simp add: spec_def split: prod.split)
    show ?thesis
      unfolding freeze_loop.simps Let_def
      by (rule spec_bind [OF any], rule spec_case_option, rule spec_bind [OF any], rule spec_bind [OF any], rule step)
        (auto simp: filled_def intro: spec_ret split: sum.split option.split)
  qed
  then show ?case by (rule spec_pre) simp
qed

text \<open>The result of a pass: the account of its commands, and the codes of the adapter, filled in.\<close>

definition pass_account :: "'s adapter \<Rightarrow> scan_result \<Rightarrow> link_metrics \<Rightarrow> bool" where
  "pass_account A r m \<longleftrightarrow>
     counted m (2 + int (length (sr_dtcs r)) + (if ad_live A = None then 0 else 1))
   \<and> lm_confidence m = link_confidence m"

lemma link_confidence_same:
  "link_confidence (m\<lparr>lm_confidence := c\<rparr>) = link_confidence m"
  by (simp add: link_confidence_def Let_def)

lemma spec_sample_live:
  assumes "counted m n"
  shows "spec P (sample_live A m) (\<lambda>(m', live) _. counted m' (n + (if ad_live A = None then 0 else 1)))"
  using counted_tried [OF assms] assms
  by (auto simp: sample_live_def spec_def counted_update Let_def split: option.splits sum.splits prod.splits)

lemma spec_true: "spec P m (\<lambda>_ _. True)"
  by (simp add: spec_def split: prod.split)

lemma spec_returned: "spec P m (\<lambda>x _. \<exists>t. x = fst (run_state m t))"
  by (auto simp: spec_def) (metis fst_conv)

definition good_result :: "'s adapter \<Rightarrow> gerr + scan_result \<Rightarrow> bool" where
  "good_result A res \<longleftrightarrow> (case res of Inl _ \<Rightarrow> True | Inr r \<Rightarrow>
     (\<exists>o' m. sr_obs r = Some o' \<and> obs_link o' = Some m \<and> pass_account A r m)
   \<and> (\<exists>ds t. fst (run_state (ad_dtcs A) t) = Inr ds \<and> list_all2 filled ds (sr_dtcs r)))"

lemma spec_finish_scan:
  assumes "counted m (2 + int (length ds'))" and "fst (run_state (ad_dtcs A) t) = Inr ds" and "list_all2 filled ds ds'"
  shows "spec P (finish_scan A start info m ff ds') (\<lambda>res _. good_result A res)"
  unfolding finish_scan_def
  apply (rule spec_bind, rule spec_sample_live [OF assms(1)], rule spec_case_prod)
  using assms
  apply (auto simp: Let_def spec_def good_result_def pass_account_def counted_update link_confidence_same split: prod.splits)
  done

lemma spec_scan_body: "spec P (scan_body A start) (\<lambda>res _. good_result A res)"
proof -
  have two: "counted (tried True (tried True new_metrics)) 2"
    using counted_tried [OF counted_tried [OF counted_new]] by simp
  have failed: "good_result A (Inl e)" for e
    by (simp add: good_result_def)
  have codes: "spec S (case rd of Inl e \<Rightarrow> ret (Inl e) | Inr ds \<Rightarrow> do {
       rf \<leftarrow> freeze_loop A (tried True (tried True new_metrics)) [] [] ds;
       case rf of Inl e \<Rightarrow> ret (Inl e) | Inr (m, ff, ds') \<Rightarrow> finish_scan A start info m ff ds' })
      (\<lambda>res _. good_result A res)"
    if "rd = fst (run_state (ad_dtcs A) t)" for rd t S info
  proof (cases rd)
    case (Inl e)
    then show ?thesis by (simp add: spec_ret failed)
  next
    case (Inr ds)
    have "spec (\<lambda>_. case rf of Inl _ \<Rightarrow> True | Inr (m', ff', ds') \<Rightarrow>
         counted m' (2 + int (length ds)) \<and> (\<exists>new. ds' = [] @ new \<and> list_all2 filled ds new))
       (case rf of Inl e \<Rightarrow> ret (Inl e) | Inr (m, ff, ds') \<Rightarrow> finish_scan A start info m ff ds')
       (\<lambda>res _. good_result A res)" for rf
    proof (cases rf)
      case (Inr y)
      obtain m ff ds' where y: "y = (m, ff, ds')" by (cases y) auto
      show ?thesis
      proof (cases "counted m (2 + int (length ds)) \<and> list_all2 filled ds ds'")
        case True
        then have "spec (\<lambda>_. True) (finish_scan A start info m ff ds') (\<lambda>res _. good_result A res)"
          using that \<open>rd = Inr ds\<close> by (intro spec_finish_scan [of m ds' A t ds]) (auto dest: list_all2_lengthD)
        then show ?thesis unfolding Inr y by (auto intro: spec_pre)
      next
        case False
        then show ?thesis unfolding Inr y by (auto simp: spec_def)
      qed
    qed (simp add: spec_ret failed)
    then show ?thesis
      unfolding Inr by (simp add: spec_bind [OF spec_freeze_loop [OF two]])
  qed
  show ?thesis
    unfolding scan_body_def
    apply (rule spec_bind [OF spec_true], rule spec_bind [OF spec_true], rule spec_case_sum)
     apply (rule spec_ret, rule failed)
    apply (rule spec_bind [OF spec_true], rule spec_bind [OF spec_returned])
    apply (rule specI, elim exE)
    apply (erule specD [OF codes [where S = "\<lambda>_. True"]], simp, assumption)
    done
qed

lemma spec_scan: "spec P (scan A) (\<lambda>res _. good_result A res)"
proof -
  have body: "spec S (do { r \<leftarrow> scan_body A start; ad_close A; ret r }) (\<lambda>res _. good_result A res)" for S start
  proof (rule spec_bind [OF spec_scan_body])
    fix r
    show "spec (\<lambda>_. good_result A r) (do { ad_close A; ret r }) (\<lambda>res _. good_result A res)"
      by (rule spec_bind_keeps) (simp_all add: keeps_def spec_def split: prod.split)
  qed
  have failed: "good_result A (Inl e)" for e
    by (simp add: good_result_def)
  show ?thesis
    unfolding scan_def
    by (intro spec_bind [OF spec_true] spec_case_option body spec_ret failed)
qed

section \<open>Confidence\<close>

lemma f64_count_pos: "0 < n \<Longrightarrow> 1 \<le> f64_of_int n"
  using rnd64_mono [of 1 "of_int n"] f64.rnd_int [of 1] by (simp add: f64_of_int_def)

lemma link_confidence_counted:
  assumes "counted m n" and "0 < n"
  shows "link_confidence m = rnd64 (rnd64 (rnd64 (of_int (n - lm_failures m)) / rnd64 (of_int n)) * 100)"
    and "0 \<le> link_confidence m" and "link_confidence m \<le> 100"
proof -
  let ?ok = "rnd64 (rnd64 (of_int (n - lm_failures m)) / rnd64 (of_int n))"
  have n: "1 \<le> rnd64 (of_int n)"
    using f64_count_pos [OF assms(2)] by (simp add: f64_of_int_def)
  have "0 \<le> rnd64 (of_int (n - lm_failures m))" "rnd64 (of_int (n - lm_failures m)) \<le> rnd64 (of_int n)"
    using assms(1) by (auto simp: counted_def intro!: rnd64_nonneg rnd64_mono)
  with n have "0 \<le> rnd64 (of_int (n - lm_failures m)) / rnd64 (of_int n)"
    "rnd64 (of_int (n - lm_failures m)) / rnd64 (of_int n) \<le> 1"
    by simp_all
  then have ok: "0 \<le> ?ok" "?ok \<le> 1"
    using f64.rnd_range [of 0 "rnd64 (of_int (n - lm_failures m)) / rnd64 (of_int n)" 1] by simp_all
  then have c: "0 \<le> rnd64 (?ok * 100)" "rnd64 (?ok * 100) \<le> 100"
    using f64.rnd_range [of 0 "?ok * 100" 100] by simp_all
  have eq: "link_confidence m = (let c = rnd64 (?ok * 100); d = (if c < 0 then 0 else c) in if d > 100 then 100 else d)"
    using assms by (simp add: link_confidence_def counted_def f64_defs f64_of_int_def Let_def)
  then show "link_confidence m = rnd64 (?ok * 100)"
    using c by (simp add: Let_def)
  then show "0 \<le> link_confidence m" "link_confidence m \<le> 100"
    using c by simp_all
qed

lemma link_confidence_clean:
  assumes "counted m n" and "0 < n" and "lm_failures m = 0"
  shows "link_confidence m = 100"
  using link_confidence_counted(1) [OF assms(1,2)] assms(3) f64_count_pos [OF assms(2)]
    f64.rnd_int [of 1] f64.rnd_int [of 100] by (simp add: f64_of_int_def)

section \<open>Properties\<close>

text \<open>
  The link confidence is a percentage that only the failures lower: over the same number of
  commands, a pass with fewer failures is never rated worse, one without failures gets
  100 and one in which everything failed gets 0. The two clamps at the end of \<open>link_confidence\<close>
  never act, as the Timeouts field of a pass stays 0.
\<close>
theorem link_confidence_monotone:
  assumes "counted m n" and "counted m' n" and "0 < n" and "lm_failures m \<le> lm_failures m'"
  shows "0 \<le> link_confidence m' \<and> link_confidence m' \<le> link_confidence m \<and> link_confidence m \<le> 100
    \<and> (lm_failures m = 0 \<longrightarrow> link_confidence m = 100) \<and> (lm_failures m' = n \<longrightarrow> link_confidence m' = 0)"
proof -
  note eq = link_confidence_counted [OF assms(1,3)] and eq' = link_confidence_counted [OF assms(2,3)]
  have n: "1 \<le> rnd64 (of_int n)"
    using f64_count_pos [OF assms(3)] by (simp add: f64_of_int_def)
  have "rnd64 (of_int (n - lm_failures m')) \<le> rnd64 (of_int (n - lm_failures m))"
    using assms(4) by (auto intro!: rnd64_mono)
  then have "link_confidence m' \<le> link_confidence m"
    unfolding eq(1) eq'(1) using n by (auto intro!: rnd64_mono divide_right_mono)
  moreover have "link_confidence m = 100" if "lm_failures m = 0"
    using link_confidence_clean assms(1,3) that by blast
  moreover have "link_confidence m' = 0" if "lm_failures m' = n"
    unfolding eq'(1) using that by simp
  ultimately show ?thesis using eq eq' by simp
qed

theorem link_confidence_monotone_witness:
  "link_confidence (new_metrics\<lparr>lm_attempts := 4, lm_failures := 4\<rparr>) = 0
   \<and> link_confidence (new_metrics\<lparr>lm_attempts := 4\<rparr>) = 100"
  using link_confidence_monotone [of "new_metrics\<lparr>lm_attempts := 4\<rparr>" 4 "new_metrics\<lparr>lm_attempts := 4, lm_failures := 4\<rparr>"]
  by (simp add: counted_def new_metrics_def)

end
