(* ===== verification/UsbAdapter.thy ===== *)
theory UsbAdapter
  imports Detect Pids Scanner Bench
begin

text \<open>
  The ELM327 adapter of \<^verbatim>\<open>pkg/obd/usb.go\<close> above the command layer, and
  \<^verbatim>\<open>ReadLiveSnapshot\<close> of \<^verbatim>\<open>pkg/obd/pids.go\<close>: opening and waking the dongle, finding
  the bus, reading identity, trouble codes and live sensors. Every method is an action on the
  adapter; the properties say which commands it may send, what it leaves behind, and what it
  makes of the answers.
\<close>

section \<open>Waiting and waking\<close>

text \<open>
  \<^verbatim>\<open>select\<close> on the context and a timer: time passes, at most the given number of
  milliseconds, and the error of the context is returned when it ended first.
\<close>

definition sleep :: "'w env \<Rightarrow> nat \<Rightarrow> ('w usb, gerr option) state" where
  "sleep env ms = do {
     modify (\<lambda>u. u\<lparr>world := pass_ms env ms (world u)\<rparr>);
     reads (\<lambda>u. ctx_err env (world u))
   }"

definition check_ctx :: "'w env \<Rightarrow> ('w usb, gerr option) state" where
  "check_ctx env = reads (\<lambda>u. ctx_err env (world u))"

definition is_stuck :: "gerr option \<Rightarrow> bool" where
  "is_stuck err = (case err of Some e \<Rightarrow> err_is e StuckSerial | None \<Rightarrow> False)"

definition wake :: "'w env \<Rightarrow> ('w usb, gerr option) state" where
  "wake env = do {
     held \<leftarrow> reads port_open;
     if \<not> held then ret (Some (Msg ''adapter not open''))
     else do {
       modify (\<lambda>u. u\<lparr>world := wake_write env (world u)\<rparr>);
       sleep env 120
     }
   }"

text \<open>\<^verbatim>\<open>%q\<close> of a byte string; bytes from 128 on are printed as they are.\<close>

definition hex_low :: "nat \<Rightarrow> char" where
  "hex_low n = char_of (if n < 10 then 48 + n else 87 + n)"

definition quote_char :: "char \<Rightarrow> string" where
  "quote_char c =
     (let n = code_of c
      in if c = CHR 0x22 \<or> c = CHR 0x5C then [CHR 0x5C, c]
         else if n = 7 then [CHR 0x5C, CHR ''a'']
         else if n = 8 then [CHR 0x5C, CHR ''b'']
         else if n = 9 then [CHR 0x5C, CHR ''t'']
         else if n = 10 then [CHR 0x5C, CHR ''n'']
         else if n = 11 then [CHR 0x5C, CHR ''v'']
         else if n = 12 then [CHR 0x5C, CHR ''f'']
         else if n = 13 then [CHR 0x5C, CHR ''r'']
         else if n < 32 \<or> n = 127 then [CHR 0x5C, CHR ''x'', hex_low (n div 16), hex_low (n mod 16)]
         else [c])"

definition go_quote :: "string \<Rightarrow> string" where
  "go_quote s = [CHR 0x22] @ concat (map quote_char s) @ [CHR 0x22]"

section \<open>Opening and closing the port\<close>

definition new_usb_adapter :: "string \<Rightarrow> 'w \<Rightarrow> 'w usb" where
  "new_usb_adapter path w =
     \<lparr>device_path = path, baud = 38400, name_hint = ''elm327-usb'', port_open = False, ready = False,
      progress = [], wire = [], world = w\<rparr>"

definition usb_name :: "'w usb \<Rightarrow> string" where
  "usb_name u = (if name_hint u \<noteq> [] then name_hint u else ''elm327-usb'')"

fun add_baud :: "int list \<Rightarrow> int \<Rightarrow> int list" where
  "add_baud out b = (if b \<le> 0 \<or> b \<in> set out then out else out @ [b])"

definition baud_candidates :: "int \<Rightarrow> int list" where
  "baud_candidates b = foldl add_baud [] [b, 115200, 38400, 9600]"

definition open_port :: "'w env \<Rightarrow> int \<Rightarrow> ('w usb, gerr option) state" where
  "open_port env b = do {
     path \<leftarrow> reads device_path;
     r \<leftarrow> reads (\<lambda>u. serial_open env path b (world u));
     modify (\<lambda>u. u\<lparr>world := snd r\<rparr>);
     case fst r of
       OpenTimedOut \<Rightarrow> do {
         e \<leftarrow> check_ctx env;
         case e of
           Some c \<Rightarrow> ret (Some (Wrapped (''open '' @ path @ '': '') c []))
         | None \<Rightarrow> ret (Some (Msg (''open '' @ path @ '': timed out after 12s '' @ em_dash @ '' unplug/replug the adapter'')))
       }
     | OpenFailed e \<Rightarrow> ret (Some (Wrapped (''open '' @ path @ '': '') e []))
     | Opened \<Rightarrow> do {
         modify (\<lambda>u. u\<lparr>port_open := True, baud := b\<rparr>);
         ret None
       }
   }"

definition abandon_port :: "'w env \<Rightarrow> ('w usb, unit) state" where
  "abandon_port env = modify (\<lambda>u.
     u\<lparr>world := (if port_open u then port_close env (world u) else world u),
       port_open := False, ready := False\<rparr>)"

definition set_baud :: "'w env \<Rightarrow> int \<Rightarrow> ('w usb, gerr option) state" where
  "set_baud env b = do {
     held \<leftarrow> reads port_open;
     if \<not> held then ret (Some (Msg ''adapter not open''))
     else do {
       r \<leftarrow> reads (\<lambda>u. set_mode env b (world u));
       modify (\<lambda>u. u\<lparr>world := snd r\<rparr>);
       case fst r of
         Some e \<Rightarrow> ret (Some (Wrapped (''set baud '' @ show_int b @ '': '') e []))
       | None \<Rightarrow> do {
           modify (\<lambda>u. u\<lparr>baud := b\<rparr>);
           ret None
         }
     }
   }"

definition raise_modem_lines :: "'w env \<Rightarrow> ('w usb, unit) state" where
  "raise_modem_lines env = modify (\<lambda>u. if port_open u then u\<lparr>world := raise_lines env (world u)\<rparr> else u)"

definition park_adapter :: "'w env \<Rightarrow> ('w usb, unit) state" where
  "park_adapter env = do {
     held \<leftarrow> reads port_open;
     if \<not> held then ret ()
     else do {
       report ''Parking adapter'';
       _ \<leftarrow> command env ''ATWS'';
       ret ()
     }
   }"

definition usb_close :: "'w env \<Rightarrow> ('w usb, unit) state" where
  "usb_close env = do { park_adapter env; abandon_port env }"

section \<open>The ELM handshake\<close>

definition elm_setup :: "string list" where
  "elm_setup = [''ATE0'', ''ATL0'', ''ATS0'', ''ATH0'', ''ATAL'']"

definition configure_elm :: "'w env \<Rightarrow> ('w usb, gerr option) state" where
  "configure_elm env = do {
     r \<leftarrow> for_first (\<lambda>c. do {
            e \<leftarrow> check_ctx env;
            if e \<noteq> None then ret e
            else do {
              report (''Adapter '' @ c);
              (_, err) \<leftarrow> command env c;
              case err of
                Some x \<Rightarrow> ret (Some (Wrapped (''init '' @ c @ '': '') x []))
              | None \<Rightarrow> ret None
            }
          }) elm_setup;
     case r of
       Some e \<Rightarrow> ret (Some e)
     | None \<Rightarrow> do {
         _ \<leftarrow> command env ''ATSTFF'';
         ret None
       }
   }"

text \<open>
  The wait for the port after a USB reset; \<open>None\<close> is a loop that has not ended in the
  given number of rounds.
\<close>

fun wait_port :: "'w env \<Rightarrow> nat \<Rightarrow> nat \<Rightarrow> ('w usb, gerr option option) state" where
  "wait_port env 0 deadline = ret None"
| "wait_port env (Suc rounds) deadline = do {
     e \<leftarrow> check_ctx env;
     if e \<noteq> None then ret (Some e)
     else do {
       path \<leftarrow> reads device_path;
       there \<leftarrow> reads (\<lambda>u. stat_ok env path (world u));
       if there then ret (Some None)
       else do {
         late \<leftarrow> reads (\<lambda>u. now_ms env (world u) > deadline);
         if late then ret (Some (Some (Msg (''ATZ: '' @ path @ '' did not reappear''))))
         else do {
           s \<leftarrow> sleep env 100;
           if s \<noteq> None then ret (Some s) else wait_port env rounds deadline
         }
       }
     }
   }"

definition identified :: "'w env \<Rightarrow> string \<Rightarrow> ('w usb, gerr option) state" where
  "identified env banner = do {
     report (''ELM identified: '' @ clip_log banner 60);
     configure_elm env
   }"

definition reopen_after_usb_reset :: "'w env \<Rightarrow> ('w usb, gerr option) state" where
  "reopen_after_usb_reset env = do {
     b \<leftarrow> reads baud;
     path \<leftarrow> reads device_path;
     abandon_port env;
     report ''Adapter USB-reset after ATZ; waiting for the port'';
     deadline \<leftarrow> reads (\<lambda>u. now_ms env (world u) + 3000);
     r \<leftarrow> wait_port env 32 deadline;
     case r of
       None \<Rightarrow> ret (Some (Msg (''ATZ: '' @ path @ '' did not reappear'')))
     | Some (Some e) \<Rightarrow> ret (Some e)
     | Some None \<Rightarrow> do {
         o1 \<leftarrow> open_port env b;
         if o1 \<noteq> None then ret o1
         else do {
           w \<leftarrow> wake env;
           if w \<noteq> None then ret w
           else do {
             report ''Adapter ATI'';
             (ident, err) \<leftarrow> command env ''ATI'';
             case err of
               Some e \<Rightarrow> ret (Some (Wrapped ''ATI after ATZ: '' e []))
             | None \<Rightarrow>
                 if \<not> looks_like_elm ident
                 then ret (Some (Msg (''not an ELM prompt after ATZ ('' @ go_quote (clip_log ident 80) @ '')'')))
                 else identified env ident
           }
         }
       }
   }"

fun ati_loop :: "'w env \<Rightarrow> nat \<Rightarrow> ('w usb, gerr option + string \<times> gerr option) state" where
  "ati_loop env 0 = ret (Inr ([], None))"
| "ati_loop env (Suc left) = do {
     report ''Adapter ATI'';
     (ident, err) \<leftarrow> command env ''ATI'';
     if is_stuck err then ret (Inl err)
     else if looks_like_elm ident then ret (Inr (ident, err))
     else if left = 0 then ret (Inr (ident, err))
     else do {
       report ''ATI quiet, retrying'';
       s \<leftarrow> sleep env 400;
       if s \<noteq> None then ret (Inl s)
       else do {
         _ \<leftarrow> wake env;
         ati_loop env left
       }
     }
   }"

definition ati_failed :: "string \<Rightarrow> gerr option \<Rightarrow> gerr option \<Rightarrow> gerr option \<Rightarrow> gerr" where
  "ati_failed zid zerr werr err =
     (case zerr of Some e \<Rightarrow> Wrapped ''ATZ: '' e []
      | None \<Rightarrow> (case werr of Some e \<Rightarrow> Wrapped ''ATWS: '' e []
        | None \<Rightarrow> (case err of Some e \<Rightarrow> Wrapped ''ATI: '' e []
          | None \<Rightarrow> Msg (''not an ELM prompt ('' @ go_quote (clip_log zid 80) @ '')''))))"

definition init_elm :: "'w env \<Rightarrow> ('w usb, gerr option) state" where
  "init_elm env = do {
     report ''Waking adapter'';
     w \<leftarrow> wake env;
     if w \<noteq> None then ret w
     else do {
       s \<leftarrow> sleep env 300;
       if s \<noteq> None then ret s
       else do {
         r \<leftarrow> ati_loop env 3;
         case r of
           Inl e \<Rightarrow> ret e
         | Inr (ident, err) \<Rightarrow>
             if looks_like_elm ident
             then (case err of
                 Some e \<Rightarrow> ret (Some (Wrapped ''ATI: '' e []))
               | None \<Rightarrow> identified env ident)
             else do {
               report (''No ELM banner from ATI '' @ em_dash @ '' warm start'');
               (wid, werr) \<leftarrow> command env ''ATWS'';
               if is_stuck werr then ret werr
               else if looks_like_elm wid then identified env wid
               else do {
                 report (''No ELM banner after ATWS '' @ em_dash @ '' trying ATZ'');
                 (zid, zerr) \<leftarrow> command env ''ATZ'';
                 if is_stuck zerr then ret zerr
                 else if looks_like_elm zid then identified env zid
                 else if is_port_dead zerr \<or> is_port_dead err \<or> is_port_dead werr
                 then reopen_after_usb_reset env
                 else ret (Some (ati_failed zid zerr werr err))
               }
             }
       }
     }
   }"

text \<open>The loop of \<^verbatim>\<open>Open\<close> over the baud rates: \<open>Inl\<close> returns, \<open>Inr\<close> falls out of the loop with \<^verbatim>\<open>last\<close>.\<close>

fun try_bauds :: "'w env \<Rightarrow> nat \<Rightarrow> nat \<Rightarrow> gerr option \<Rightarrow> int list \<Rightarrow> ('w usb, gerr option + gerr option) state" where
  "try_bauds env nbauds i prev [] = ret (Inr prev)"
| "try_bauds env nbauds i prev (b # bs) = do {
     e \<leftarrow> check_ctx env;
     if e \<noteq> None then do { abandon_port env; ret (Inl e) }
     else do {
       m \<leftarrow> (if i > 0 then do {
               report (''Trying '' @ show_int b @ '' baud ('' @ show_nat (i + 1) @ ''/'' @ show_nat nbauds @ '') without reopening'');
               set_baud env b
             } else ret None);
       case m of
         Some x \<Rightarrow> do {
           report (err_text x);
           try_bauds env nbauds (i + 1) (Some x) bs
         }
       | None \<Rightarrow> do {
           r \<leftarrow> init_elm env;
           case r of
             Some x \<Rightarrow> do {
               report (show_int b @ '' baud: '' @ err_text x);
               if err_is x StuckSerial
               then do {
                 abandon_port env;
                 path \<leftarrow> reads device_path;
                 ret (Inl (Some (Wrapped (path @ '': '') x ('' '' @ em_dash @ '' unplug/replug the adapter''))))
               }
               else try_bauds env nbauds (i + 1) (Some x) bs
             }
           | None \<Rightarrow> do {
               modify (\<lambda>u. u\<lparr>ready := True\<rparr>);
               ret (Inl None)
             }
         }
     }
   }"

definition no_banner :: "string \<Rightarrow> serial_port \<Rightarrow> gerr \<Rightarrow> gerr" where
  "no_banner path info prev =
     (let ident = trim_space (sp_vid info @ '':'' @ sp_pid info);
          nick = usb_nickname (sp_vid info) (sp_pid info)
      in if nick \<noteq> [] \<and> ident \<noteq> '':''
         then Wrapped (path @ '' ['' @ nick @ '' '' @ ident @ '']: '') prev
                ('' '' @ em_dash @ '' no ELM banner; unplug/replug, or use the dongle that answered ELM327 v1.5'')
         else Wrapped (path @ '': '') prev
                ('' '' @ em_dash @ '' unplug/replug the adapter, ignition ON, then try again''))"

definition usb_open :: "'w env \<Rightarrow> string \<Rightarrow> ('w usb, gerr option) state" where
  "usb_open env goos = do {
     held \<leftarrow> reads port_open;
     path \<leftarrow> reads device_path;
     if held then ret None
     else if path = [] then ret (Some (Msg ''usb device path is required''))
     else
       let info = inspect_serial_port env goos path
       in if sp_kind info = KindJ2534OpenPort
          then ret (Some (Wrapped [] J2534Unsupported
                 ('' ('' @ sp_path info @ '' '' @ sp_vid info @ '':'' @ sp_pid info @ '' '' @ sp_product info @ '')'')))
          else do {
            (if sp_vid info \<noteq> []
             then let nick = usb_nickname (sp_vid info) (sp_pid info)
                  in if nick \<noteq> []
                     then report (''USB '' @ sp_vid info @ '':'' @ sp_pid info @ '' '' @ kind_text (sp_kind info) @ '' ('' @ nick @ '')'')
                     else report (''USB '' @ sp_vid info @ '':'' @ sp_pid info @ '' '' @ kind_text (sp_kind info))
             else ret ());
            b0 \<leftarrow> reads baud;
            let bauds = (let c = baud_candidates b0 in if c = [] then [38400] else c)
            in do {
              report (''Opening '' @ path @ '' at '' @ show_int (hd bauds) @ '' baud'');
              o1 \<leftarrow> open_port env (hd bauds);
              if o1 \<noteq> None then ret o1
              else do {
                raise_modem_lines env;
                r \<leftarrow> try_bauds env (length bauds) 0 None bauds;
                case r of
                  Inl res \<Rightarrow> ret res
                | Inr prev \<Rightarrow> do {
                    abandon_port env;
                    ret (Some (no_banner path info (case prev of Some e \<Rightarrow> e | None \<Rightarrow> Msg ''no response'')))
                  }
              }
            }
          }
   }"

definition ensure_open :: "'w env \<Rightarrow> string \<Rightarrow> ('w usb, gerr option) state" where
  "ensure_open env goos = do {
     held \<leftarrow> reads port_open;
     rdy \<leftarrow> reads ready;
     b \<leftarrow> reads baud;
     path \<leftarrow> reads device_path;
     if held then ret None
     else if rdy \<and> b > 0
     then do {
       report (''Reconnecting '' @ path @ '' at '' @ show_int b @ '' baud'');
       open_port env b
     }
     else usb_open env goos
   }"

section \<open>The bus\<close>

definition elm_bus_protocols :: "(string \<times> string) list" where
  "elm_bus_protocols =
     [(''6'', ''ISO 15765-4 CAN 11/500''), (''7'', ''ISO 15765-4 CAN 29/500''),
      (''8'', ''ISO 15765-4 CAN 11/250''), (''9'', ''ISO 15765-4 CAN 29/250''), (''0'', ''automatic'')]"

fun find_bus_loop :: "'w env \<Rightarrow> gerr option \<Rightarrow> (string \<times> string) list \<Rightarrow> ('w usb, gerr + string) state" where
  "find_bus_loop env prev [] =
     ret (Inl (Wrapped ''no ECU on the bus ('' (case prev of Some e \<Rightarrow> e | None \<Rightarrow> Msg ''no response'')
        ('') '' @ em_dash @ '' ignition ON, wait a few seconds after turning the key'')))"
| "find_bus_loop env prev ((pcode, pname) # ps) = do {
     e \<leftarrow> check_ctx env;
     case e of
       Some x \<Rightarrow> ret (Inl x)
     | None \<Rightarrow> do {
         report (''Trying '' @ pname);
         (_, serr) \<leftarrow> command env (''ATSP'' @ pcode);
         case serr of
           Some x \<Rightarrow> do {
             report (pname @ '': '' @ err_text x);
             find_bus_loop env (Some x) ps
           }
         | None \<Rightarrow> do {
             (resp, err) \<leftarrow> command env ''0100'';
             if pid0100_supported resp then do {
               report (''ECU answered on '' @ pname);
               ret (Inr pname)
             }
             else case err of
               Some x \<Rightarrow> do {
                 report (pname @ '': '' @ clip_log (err_text x) 80);
                 find_bus_loop env (Some x) ps
               }
             | None \<Rightarrow>
                 let x = Msg (''no PID 00 ('' @ go_quote (clip_log resp 40) @ '')'')
                 in do {
                   report (pname @ '': '' @ err_text x);
                   find_bus_loop env (Some x) ps
                 }
           }
       }
   }"

definition find_bus :: "'w env \<Rightarrow> ('w usb, gerr + string) state" where
  "find_bus env = find_bus_loop env None elm_bus_protocols"

definition read_vin :: "'w env \<Rightarrow> ('w usb, string \<times> gerr option) state" where
  "read_vin env = do {
     (resp, err) \<leftarrow> command env ''0902'';
     case err of Some e \<Rightarrow> ret ([], Some e) | None \<Rightarrow> ret (extract_vin resp, None)
   }"

definition identify :: "'w env \<Rightarrow> string \<Rightarrow> ('w usb, gerr + vehicle_info) state" where
  "identify env goos = do {
     oe \<leftarrow> ensure_open env goos;
     case oe of
       Some e \<Rightarrow> ret (Inl e)
     | None \<Rightarrow> do {
         fb \<leftarrow> find_bus env;
         case fb of
           Inl e \<Rightarrow> ret (Inl e)
         | Inr proto \<Rightarrow> do {
             report ''Asking ECU for protocol'';
             (desc, _) \<leftarrow> command env ''ATDP'';
             report ''Asking ECU for VIN'';
             (vin, verr) \<leftarrow> read_vin env;
             (case verr of Some e \<Rightarrow> report (''VIN not returned: '' @ err_text e) | None \<Rightarrow> ret ());
             held \<leftarrow> reads port_open;
             case (verr, held) of
               (Some e, False) \<Rightarrow> ret (Inl e)
             | _ \<Rightarrow> ret (Inr \<lparr>vi_vin = trim_space vin, vi_ecu = ''ELM327'',
                     vi_proto = trim_space (if trim_space desc = [] \<or> contains (to_upper desc) ''AUTO'' then proto else desc)\<rparr>)
           }
       }
   }"

section \<open>Trouble codes, freeze frame, live sample\<close>

definition dtc_sources :: "(string \<times> string) list" where
  "dtc_sources = [(''03'', DTCConfirmed), (''07'', DTCPending), (''0A'', DTCPermanent)]"

definition mk_dtc :: "string \<Rightarrow> string \<Rightarrow> dtc" where
  "mk_dtc code status =
     \<lparr>dtc_code = code, dtc_status = status, dtc_freeze = None, dtc_desc = describe_code code\<rparr>"

definition see_code :: "string \<Rightarrow> (string \<times> dtc) list \<Rightarrow> string \<Rightarrow> (string \<times> dtc) list" where
  "see_code status seen code =
     (case map_of seen code of
        Some d \<Rightarrow> if dtc_status d = DTCConfirmed then seen else AList.update code (mk_dtc code status) seen
      | None \<Rightarrow> AList.update code (mk_dtc code status) seen)"

fun read_sources :: "'w env \<Rightarrow> (string \<times> dtc) list \<Rightarrow> (string \<times> string) list \<Rightarrow> ('w usb, (string \<times> dtc) list) state" where
  "read_sources env seen [] = ret seen"
| "read_sources env seen ((cmd, status) # ss) = do {
     (resp, err) \<leftarrow> command env cmd;
     if err \<noteq> None then read_sources env seen ss
     else read_sources env (foldl (see_code status) seen (decode_dtcs resp)) ss
   }"

definition read_dtcs :: "'w env \<Rightarrow> string \<Rightarrow> ('w usb, gerr + dtc list) state" where
  "read_dtcs env goos = do {
     oe \<leftarrow> ensure_open env goos;
     case oe of
       Some e \<Rightarrow> ret (Inl e)
     | None \<Rightarrow> do {
         seen \<leftarrow> read_sources env [] dtc_sources;
         ret (Inr (map snd (map_order env seen)))
       }
   }"

definition read_freeze_frame :: "'w env \<Rightarrow> string \<Rightarrow> string \<Rightarrow> ('w usb, gerr + any_map) state" where
  "read_freeze_frame env goos code = do {
     oe \<leftarrow> ensure_open env goos;
     case oe of
       Some e \<Rightarrow> ret (Inl e)
     | None \<Rightarrow> do {
         (resp, err) \<leftarrow> command env ''0200'';
         case err of
           Some e \<Rightarrow> ret (Inl e)
         | None \<Rightarrow> ret (Inr [(''code'', VStr code), (''raw_mode02'', VStr (trim_space resp))])
       }
   }"

definition live_pids :: "(string \<times> (string \<Rightarrow> live_snapshot \<Rightarrow> live_snapshot)) list" where
  "live_pids =
     [(''010C'', \<lambda>r s. s\<lparr>rpm := decode_rpm r\<rparr>),
      (''010D'', \<lambda>r s. s\<lparr>speed_kmh := decode_byte r 1\<rparr>),
      (''0104'', \<lambda>r s. s\<lparr>load_pct := decode_pct r\<rparr>),
      (''0105'', \<lambda>r s. s\<lparr>coolant_c := decode_temp r\<rparr>),
      (''010F'', \<lambda>r s. s\<lparr>iat_c := decode_temp r\<rparr>),
      (''0110'', \<lambda>r s. s\<lparr>maf_gs := decode_maf r\<rparr>),
      (''010B'', \<lambda>r s. s\<lparr>map_kpa := decode_byte r 1\<rparr>),
      (''0111'', \<lambda>r s. s\<lparr>tps_pct := decode_pct r\<rparr>),
      (''0106'', \<lambda>r s. s\<lparr>stft_b1 := decode_trim r\<rparr>),
      (''0107'', \<lambda>r s. s\<lparr>ltft_b1 := decode_trim r\<rparr>),
      (''0108'', \<lambda>r s. s\<lparr>stft_b2 := decode_trim r\<rparr>),
      (''0109'', \<lambda>r s. s\<lparr>ltft_b2 := decode_trim r\<rparr>),
      (''0114'', \<lambda>r s. s\<lparr>o2_b1s1 := decode_o2 r\<rparr>),
      (''0115'', \<lambda>r s. s\<lparr>o2_b1s2 := decode_o2 r\<rparr>),
      (''0142'', \<lambda>r s. s\<lparr>module_volts := decode_voltage r\<rparr>)]"

definition usable_reply :: "string \<Rightarrow> gerr option \<Rightarrow> bool" where
  "usable_reply resp err \<longleftrightarrow> \<not> (err \<noteq> None \<or> resp = [] \<or> contains (to_upper resp) ''NO DATA'')"

fun sample_pids :: "'w env \<Rightarrow> live_snapshot \<Rightarrow> (string \<times> (string \<Rightarrow> live_snapshot \<Rightarrow> live_snapshot)) list
    \<Rightarrow> ('w usb, live_snapshot) state" where
  "sample_pids env snap [] = ret snap"
| "sample_pids env snap ((cmd, set_pid) # ps) = do {
     e \<leftarrow> check_ctx env;
     if e \<noteq> None then ret snap
     else do {
       (resp, err) \<leftarrow> command env cmd;
       if usable_reply resp err then sample_pids env (set_pid resp snap) ps
       else sample_pids env snap ps
     }
   }"

definition read_live_snapshot :: "'w env \<Rightarrow> string \<Rightarrow> ('w usb, gerr + live_snapshot) state" where
  "read_live_snapshot env goos = do {
     oe \<leftarrow> ensure_open env goos;
     case oe of
       Some e \<Rightarrow> ret (Inl e)
     | None \<Rightarrow> do {
         now \<leftarrow> reads (\<lambda>u. now_ms env (world u));
         snap \<leftarrow> sample_pids env (empty_snapshot now) live_pids;
         ret (Inr snap)
       }
   }"

section \<open>The port\<close>

text \<open>Everything but opening and abandoning leaves the handle and the ready flag alone.\<close>

definition flags_only :: "('w usb \<Rightarrow> bool) \<Rightarrow> bool" where
  "flags_only P \<longleftrightarrow> (\<forall>u v. port_open u = port_open v \<longrightarrow> ready u = ready v \<longrightarrow> P u = P v)"

lemma flags_onlyD:
  "flags_only P \<Longrightarrow> P u \<Longrightarrow> port_open v = port_open u \<Longrightarrow> ready v = ready u \<Longrightarrow> P v"
  unfolding flags_only_def by metis

lemma flags_only_intros [simp]:
  "flags_only port_open" "flags_only (\<lambda>u. \<not> port_open u)" "flags_only (\<lambda>u. ready u \<longrightarrow> port_open u)"
  "flags_only (\<lambda>u. port_open u \<and> ready u)"
  by (auto simp: flags_only_def)

lemma keeps_flags_modify:
  "flags_only P \<Longrightarrow> (\<And>u. port_open (f u) = port_open u \<and> ready (f u) = ready u) \<Longrightarrow> keeps P (modify f)"
  by (rule keeps_modify) (metis flags_onlyD)

lemma keeps_flags_report: "flags_only P \<Longrightarrow> keeps P (report msg)"
  unfolding report_def by (rule keeps_flags_modify) auto

lemma keeps_flags_command: "flags_only P \<Longrightarrow> keeps P (command env cmd)"
  by (rule keeps_command) (auto elim: flags_onlyD)

lemma keeps_flags_sleep: "flags_only P \<Longrightarrow> keeps P (sleep env ms)"
  unfolding sleep_def by (intro keeps_intro keeps_flags_modify) auto

lemma keeps_check_ctx: "keeps P (check_ctx env)"
  unfolding check_ctx_def by (rule keeps_reads)

lemmas keeps_flags1 = keeps_flags_report keeps_flags_command keeps_flags_sleep keeps_check_ctx

lemma keeps_flags_wake: "flags_only P \<Longrightarrow> keeps P (wake env)"
  unfolding wake_def by (intro keeps_intro keeps_flags1 keeps_flags_modify) auto

lemma keeps_flags_set_baud: "flags_only P \<Longrightarrow> keeps P (set_baud env b)"
  unfolding set_baud_def by (intro keeps_intro keeps_flags1 keeps_flags_modify) auto

lemma keeps_flags_raise: "flags_only P \<Longrightarrow> keeps P (raise_modem_lines env)"
  unfolding raise_modem_lines_def by (rule keeps_flags_modify) auto

lemma keeps_flags_park: "flags_only P \<Longrightarrow> keeps P (park_adapter env)"
  unfolding park_adapter_def by (intro keeps_intro keeps_flags1)

lemma keeps_flags_configure: "flags_only P \<Longrightarrow> keeps P (configure_elm env)"
  unfolding configure_elm_def by (intro keeps_intro keeps_flags1)

lemma keeps_flags_identified: "flags_only P \<Longrightarrow> keeps P (identified env banner)"
  unfolding identified_def by (intro keeps_intro keeps_flags1 keeps_flags_configure)

lemma keeps_flags_wait_port: "flags_only P \<Longrightarrow> keeps P (wait_port env n deadline)"
  by (induction n) (auto intro!: keeps_intro keeps_flags1)

lemma keeps_flags_ati_loop: "flags_only P \<Longrightarrow> keeps P (ati_loop env n)"
  by (induction n) (auto intro!: keeps_intro keeps_flags1 keeps_flags_wake)

lemma keeps_flags_find_bus: "flags_only P \<Longrightarrow> keeps P (find_bus env)"
proof -
  assume P: "flags_only P"
  have "keeps P (find_bus_loop env prev ps)" for prev ps
    by (induction env prev ps rule: find_bus_loop.induct)
      (auto intro!: keeps_intro keeps_flags1 P)
  then show ?thesis by (simp add: find_bus_def)
qed

lemma keeps_flags_read_sources: "flags_only P \<Longrightarrow> keeps P (read_sources env seen ss)"
  by (induction env seen ss rule: read_sources.induct) (auto intro!: keeps_intro keeps_flags1)

lemma keeps_flags_sample: "flags_only P \<Longrightarrow> keeps P (sample_pids env snap ps)"
proof (induction ps arbitrary: snap)
  case (Cons p ps)
  then show ?case by (cases p) (auto intro!: keeps_intro keeps_flags1)
qed (simp add: keeps_ret)

lemma keeps_flags_read_vin: "flags_only P \<Longrightarrow> keeps P (read_vin env)"
  unfolding read_vin_def by (intro keeps_intro keeps_flags1)

lemmas keeps_flags = keeps_flags1 keeps_flags_wake keeps_flags_set_baud keeps_flags_raise
  keeps_flags_park keeps_flags_configure keeps_flags_identified keeps_flags_wait_port
  keeps_flags_ati_loop keeps_flags_find_bus keeps_flags_read_sources keeps_flags_sample
  keeps_flags_read_vin

text \<open>Opening the port, one level after the other.\<close>

lemma spec_open_port:
  "spec (\<lambda>u. \<not> port_open u \<and> \<not> ready u) (open_port env b)
     (\<lambda>r u. (r = None \<longleftrightarrow> port_open u) \<and> \<not> ready u)"
  by (auto simp: spec_def open_port_def check_ctx_def split: open_outcome.splits option.splits)

lemma spec_wake: "spec (\<lambda>_. True) (wake env) (\<lambda>r u. r = None \<longrightarrow> port_open u)"
  by (auto simp: spec_def wake_def sleep_def)

lemma spec_abandon: "spec P (abandon_port env) (\<lambda>_ u. \<not> port_open u \<and> \<not> ready u)"
  by (auto simp: spec_def abandon_port_def)

lemma spec_keeps: "keeps P m \<Longrightarrow> (\<And>x u. P u \<Longrightarrow> Q x u) \<Longrightarrow> spec P m Q"
  by (auto simp: keeps_def intro: spec_post)

lemma spec_identified: "spec port_open (identified env banner) (\<lambda>r u. r = None \<longrightarrow> port_open u)"
  by (rule spec_keeps [OF keeps_flags_identified]) simp_all

text \<open>After a wake that succeeded the port is held, and the steps that follow keep it.\<close>

lemma spec_wake_then:
  assumes "\<And>w. w \<noteq> None \<Longrightarrow> spec (\<lambda>_. True) (f w) (\<lambda>r u. r = None \<longrightarrow> port_open u)"
    and "spec port_open (f None) (\<lambda>r u. r = None \<longrightarrow> port_open u)"
  shows "spec P (wake env \<bind> f) (\<lambda>r u. r = None \<longrightarrow> port_open u)"
proof (rule spec_bind)
  show "spec P (wake env) (\<lambda>r u. r = None \<longrightarrow> port_open u)"
    using spec_wake by (rule spec_pre) simp
  fix w
  show "spec (\<lambda>u. w = None \<longrightarrow> port_open u) (f w) (\<lambda>r u. r = None \<longrightarrow> port_open u)"
    using assms by (cases w) (auto intro: spec_pre)
qed

lemma spec_if_ret:
  "(\<And>u. P u \<Longrightarrow> Q r u) \<Longrightarrow> spec P m Q \<Longrightarrow> spec P (if b then ret r else m) Q"
  by (simp add: spec_ret)

lemma spec_reopen: "spec P (reopen_after_usb_reset env) (\<lambda>r u. r = None \<longrightarrow> port_open u)"
proof -
  have tail: "spec P (do {
      w \<leftarrow> wake env;
      if w \<noteq> None then ret w
      else do {
        report ''Adapter ATI'';
        (ident, err) \<leftarrow> command env ''ATI'';
        case err of
          Some e \<Rightarrow> ret (Some (Wrapped ''ATI after ATZ: '' e []))
        | None \<Rightarrow>
            if \<not> looks_like_elm ident
            then ret (Some (Msg (''not an ELM prompt after ATZ ('' @ go_quote (clip_log ident 80) @ '')'')))
            else identified env ident
      }}) (\<lambda>r u. r = None \<longrightarrow> port_open u)" for P
    by (rule spec_wake_then)
      (auto intro!: spec_steps spec_ret keeps_flags spec_identified)
  show ?thesis
    unfolding reopen_after_usb_reset_def
    apply (rule spec_pre [of "\<lambda>_. True"])
     apply (rule spec_bind_keeps, rule keeps_reads)+
      apply (rule spec_bind, rule spec_abandon)
      apply (rule spec_bind_keeps, rule keeps_flags_report, simp add: flags_only_def)
      apply (rule spec_bind_keeps, rule keeps_reads)
      apply (rule spec_bind_keeps, rule keeps_flags_wait_port, simp add: flags_only_def)
      apply (rule spec_case_option, rule spec_ret, simp)
      apply (rule spec_case_option)
       apply (rule spec_bind, rule spec_open_port)
       apply (rule spec_if, rule spec_ret, simp)
       apply (rule tail)
      apply (rule spec_ret, simp)
     apply simp
    done
qed

lemma spec_init_elm: "spec P (init_elm env) (\<lambda>r u. r = None \<longrightarrow> port_open u)"
  unfolding init_elm_def
  apply (rule spec_pre [of "\<lambda>_. True"])
   apply (rule spec_bind_keeps, rule keeps_flags_report, simp add: flags_only_def)
   apply (rule spec_wake_then)
    apply (auto intro!: spec_steps spec_ret keeps_flags spec_identified spec_reopen)
  done

text \<open>The loop of \<^verbatim>\<open>Open\<close> leaves a ready port when it returns nil, and none when it returns an error.\<close>

definition open_result :: "gerr option \<Rightarrow> 'w usb \<Rightarrow> bool" where
  "open_result r u \<longleftrightarrow> (if r = None then port_open u \<and> ready u else \<not> port_open u \<and> \<not> ready u)"

lemma spec_try_bauds:
  "spec P (try_bauds env n i prev bs) (\<lambda>r u. case r of Inl res \<Rightarrow> open_result res u | Inr _ \<Rightarrow> True)"
proof (induction bs arbitrary: i prev P)
  case Nil
  then show ?case by (simp add: spec_ret)
next
  case (Cons b bs)
  let ?Q = "\<lambda>r u. case r of Inl res \<Rightarrow> open_result res u | Inr _ \<Rightarrow> True"
  have elm: "spec (\<lambda>_. True) (init_elm env \<bind> f) ?Q"
    if "\<And>x. spec (\<lambda>_. True) (f (Some x)) ?Q" and "spec port_open (f None) ?Q" for f
  proof (rule spec_bind [OF spec_init_elm])
    fix r
    show "spec (\<lambda>u. r = None \<longrightarrow> port_open u) (f r) ?Q"
      using that by (cases r) (auto intro: spec_pre)
  qed
  have "spec (\<lambda>_. True) (try_bauds env n i prev (b # bs)) ?Q"
    unfolding try_bauds.simps
    apply (rule spec_bind_keeps [OF keeps_check_ctx], rule spec_if)
     apply (rule spec_bind [OF spec_abandon], rule spec_ret, simp add: open_result_def)
    apply (rule spec_bind_keeps)
     apply (auto intro!: keeps_intro keeps_flags simp: flags_only_def)[1]
    apply (rule spec_case_option)
     apply (rule elm)
      apply (simp only: option.case)
      apply (rule spec_bind_keeps, rule keeps_flags_report, simp add: flags_only_def)
      apply (rule spec_if)
       apply (rule spec_bind [OF spec_abandon], rule spec_bind_keeps, rule keeps_reads)
       apply (rule spec_ret, simp add: open_result_def)
      apply (rule Cons.IH)
     apply (simp add: spec_def open_result_def)
    apply (rule spec_bind_keeps, rule keeps_flags_report, simp add: flags_only_def)
    apply (rule Cons.IH)
    done
  then show ?case by (rule spec_pre) simp
qed

lemma spec_usb_open:
  fixes env :: "'w env"
  shows "spec (\<lambda>u. \<not> port_open u \<and> \<not> ready u) (usb_open env goos) open_result"
proof -
  let ?P = "\<lambda>u :: 'w usb. \<not> port_open u \<and> \<not> ready u"
  have loop: "spec P (try_bauds env n i prev bs \<bind> (\<lambda>r. case r of Inl res \<Rightarrow> ret res
      | Inr q \<Rightarrow> abandon_port env \<bind> (\<lambda>_. ret (Some (e q))))) open_result" for n i prev bs e P
  proof (rule spec_bind [OF spec_try_bauds], rule spec_case_sum)
    fix r :: "gerr option + gerr option" and y
    show "r = Inl y \<Longrightarrow> spec (\<lambda>u. case r of Inl res \<Rightarrow> open_result res u | Inr _ \<Rightarrow> True) (ret y) open_result"
      by (simp add: spec_ret)
    show "r = Inr y \<Longrightarrow> spec (\<lambda>u. case r of Inl res \<Rightarrow> open_result res u | Inr _ \<Rightarrow> True)
        (abandon_port env \<bind> (\<lambda>_. ret (Some (e y)))) open_result"
      by (rule spec_bind [OF spec_abandon]) (simp add: spec_ret open_result_def)
  qed
  have opened: "spec ?P (do { o1 \<leftarrow> open_port env b; if o1 \<noteq> None then ret o1 else f }) open_result"
    if "spec (\<lambda>u. port_open u \<and> \<not> ready u) f open_result" for f :: "('w usb, gerr option) state" and b
  proof (rule spec_bind [OF spec_open_port], rule spec_if)
    fix o1 :: "gerr option"
    show "o1 \<noteq> None \<Longrightarrow> spec (\<lambda>u. (o1 = None) = port_open u \<and> \<not> ready u) (ret o1) open_result"
      by (auto intro!: spec_ret simp: open_result_def)
    show "\<not> o1 \<noteq> None \<Longrightarrow> spec (\<lambda>u. (o1 = None) = port_open u \<and> \<not> ready u) f open_result"
      using that by (rule spec_pre) simp
  qed
  show ?thesis
    unfolding usb_open_def
    apply (rule spec_bind [where R = "\<lambda>h u. h = port_open u \<and> \<not> port_open u \<and> \<not> ready u"])
     apply (rule spec_reads, simp)
    apply (rule spec_bind_keeps, rule keeps_reads)
    apply (rule spec_if, rule spec_ret, simp)
    apply (rule spec_pre [of ?P])
     apply (rule spec_if, rule spec_ret, simp add: open_result_def)
     apply (rule spec_let, rule spec_if, rule spec_ret, simp add: open_result_def)
     apply (rule spec_bind_keeps)
      apply (auto intro!: keeps_intro keeps_flags simp: flags_only_def)[1]
     apply (rule spec_bind_keeps, rule keeps_reads)
     apply (rule spec_let)
     apply (rule spec_bind_keeps, rule keeps_flags_report, simp add: flags_only_def)
     apply (rule opened)
     apply (rule spec_bind_keeps, rule keeps_flags_raise, simp add: flags_only_def)
     apply (rule loop)
    apply simp
    done
qed

lemma usb_open_held: "port_open u \<Longrightarrow> run_state (usb_open env goos) u = (None, u)"
  by (simp add: usb_open_def)

lemma spec_usb_close: "spec P (usb_close env) (\<lambda>_ u. \<not> port_open u \<and> \<not> ready u)"
proof -
  have "spec (\<lambda>_. True) (usb_close env) (\<lambda>_ u. \<not> port_open u \<and> \<not> ready u)"
    unfolding usb_close_def by (rule spec_bind_keeps [OF keeps_flags_park spec_abandon]) (simp add: flags_only_def)
  then show ?thesis by (rule spec_pre) simp
qed

section \<open>The life of an adapter\<close>

text \<open>The adapters that a new one becomes by calls of its methods, in any order.\<close>

inductive usb_reach :: "'w env \<Rightarrow> string \<Rightarrow> 'w usb \<Rightarrow> bool" for env goos where
  new: "usb_reach env goos (new_usb_adapter path w)"
| opened: "usb_reach env goos u \<Longrightarrow> usb_reach env goos (snd (run_state (usb_open env goos) u))"
| closed: "usb_reach env goos u \<Longrightarrow> usb_reach env goos (snd (run_state (usb_close env) u))"
| identified: "usb_reach env goos u \<Longrightarrow> usb_reach env goos (snd (run_state (identify env goos) u))"
| codes: "usb_reach env goos u \<Longrightarrow> usb_reach env goos (snd (run_state (read_dtcs env goos) u))"
| frame: "usb_reach env goos u \<Longrightarrow> usb_reach env goos (snd (run_state (read_freeze_frame env goos code) u))"
| live: "usb_reach env goos u \<Longrightarrow> usb_reach env goos (snd (run_state (read_live_snapshot env goos) u))"

definition usb_ok :: "'w usb \<Rightarrow> bool" where
  "usb_ok u \<longleftrightarrow> (ready u \<longrightarrow> port_open u)"

lemma flags_only_ok [simp]: "flags_only usb_ok"
  by (auto simp: flags_only_def usb_ok_def)

lemma ensure_open_eq: "usb_ok u \<Longrightarrow> run_state (ensure_open env goos) u = run_state (usb_open env goos) u"
  by (auto simp: ensure_open_def usb_ok_def usb_open_held)

lemma keeps_ok_open: "keeps usb_ok (usb_open env goos)"
proof (rule keepsI, rule specI)
  fix u r t
  assume ok: "usb_ok u" and run: "run_state (usb_open env goos) u = (r, t)"
  show "usb_ok t"
  proof (cases "port_open u")
    case True
    with run ok show ?thesis by (simp add: usb_open_held)
  next
    case False
    with ok have "open_result r t"
      by (intro specD [OF spec_usb_open _ run]) (simp add: usb_ok_def)
    then show ?thesis by (auto simp: open_result_def usb_ok_def split: if_splits)
  qed
qed

lemma keeps_ok_ensure: "keeps usb_ok (ensure_open env goos)"
  using keeps_ok_open [of env goos] by (simp add: keeps_def spec_def ensure_open_eq)

lemmas keeps_ok = keeps_ok_ensure keeps_flags keeps_intro

lemma keeps_ok_methods:
  "keeps usb_ok (usb_close env)"
  "keeps usb_ok (identify env goos)"
  "keeps usb_ok (read_dtcs env goos)"
  "keeps usb_ok (read_freeze_frame env goos code)"
  "keeps usb_ok (read_live_snapshot env goos)"
proof -
  show "keeps usb_ok (usb_close env)"
    by (rule keepsI, rule spec_post [OF spec_usb_close]) (simp add: usb_ok_def)
  show "keeps usb_ok (identify env goos)"
    unfolding identify_def
    by (intro keeps_bind keeps_case_option keeps_case_sum keeps_case_prod keeps_ok_ensure keeps_flags
        keeps_ret keeps_reads flags_only_ok) (auto split: bool.splits intro: keeps_ret)
  show "keeps usb_ok (read_dtcs env goos)"
    unfolding read_dtcs_def by (intro keeps_ok flags_only_ok)
  show "keeps usb_ok (read_freeze_frame env goos code)"
    unfolding read_freeze_frame_def by (intro keeps_ok flags_only_ok)
  show "keeps usb_ok (read_live_snapshot env goos)"
    unfolding read_live_snapshot_def by (intro keeps_ok flags_only_ok)
qed

lemma usb_reach_ok: "usb_reach env goos u \<Longrightarrow> usb_ok u"
proof (induction rule: usb_reach.induct)
  case (new path w)
  then show ?case by (simp add: usb_ok_def new_usb_adapter_def)
qed (blast intro: keepsD keeps_ok_open keeps_ok_methods)+

section \<open>What goes over the wire\<close>

definition wire_sent :: "string list \<Rightarrow> (string \<Rightarrow> bool) \<Rightarrow> 'w usb \<Rightarrow> bool" where
  "wire_sent w ok u \<longleftrightarrow> (\<exists>ws. wire u = w @ ws \<and> list_all ok ws)"

lemma wire_sent_here [simp]: "wire u = w \<Longrightarrow> wire_sent w ok u"
  by (simp add: wire_sent_def)

lemma wire_sent_cong: "wire_sent w ok u \<Longrightarrow> wire v = wire u \<Longrightarrow> wire_sent w ok v"
  by (simp add: wire_sent_def)

lemma wire_sent_snoc: "wire_sent w ok u \<Longrightarrow> ok cmd \<Longrightarrow> wire v = wire u @ [cmd] \<Longrightarrow> wire_sent w ok v"
  by (auto simp: wire_sent_def)

lemma keeps_wire_modify: "(\<And>u. wire (f u) = wire u) \<Longrightarrow> keeps (wire_sent w ok) (modify f)"
  by (rule keeps_modify) (metis wire_sent_cong)

lemma keeps_wire_command: "ok cmd \<Longrightarrow> keeps (wire_sent w ok) (command env cmd)"
  by (rule keeps_command) (auto elim: wire_sent_snoc)

lemma keeps_case_outcome:
  "keeps P a \<Longrightarrow> (\<And>e. keeps P (f e)) \<Longrightarrow> keeps P b
   \<Longrightarrow> keeps P (case x of Opened \<Rightarrow> a | OpenFailed e \<Rightarrow> f e | OpenTimedOut \<Rightarrow> b)"
  by (cases x) auto

lemma keeps_wire_basic:
  "keeps (wire_sent w ok) (report msg)"
  "keeps (wire_sent w ok) (check_ctx env)"
  "keeps (wire_sent w ok) (sleep env ms)"
  "keeps (wire_sent w ok) (wake env)"
  "keeps (wire_sent w ok) (abandon_port env)"
  "keeps (wire_sent w ok) (open_port env b)"
  "keeps (wire_sent w ok) (set_baud env b)"
  "keeps (wire_sent w ok) (raise_modem_lines env)"
proof -
  show rep: "keeps (wire_sent w ok) (report msg)"
    unfolding report_def by (rule keeps_wire_modify) simp
  show ctx: "keeps (wire_sent w ok) (check_ctx env)"
    unfolding check_ctx_def by (rule keeps_reads)
  show sl: "keeps (wire_sent w ok) (sleep env ms)" for ms
    unfolding sleep_def by (intro keeps_bind keeps_reads keeps_wire_modify) simp
  show "keeps (wire_sent w ok) (wake env)"
    unfolding wake_def by (intro keeps_bind keeps_if keeps_ret keeps_reads keeps_wire_modify sl) simp
  show "keeps (wire_sent w ok) (abandon_port env)"
    unfolding abandon_port_def by (rule keeps_wire_modify) simp
  show "keeps (wire_sent w ok) (open_port env b)"
    unfolding open_port_def
    by (intro keeps_bind keeps_ret keeps_reads keeps_case_option keeps_wire_modify keeps_case_outcome ctx) simp_all
  show "keeps (wire_sent w ok) (set_baud env b)"
    unfolding set_baud_def
    by (intro keeps_bind keeps_if keeps_ret keeps_reads keeps_case_option keeps_wire_modify) simp_all
  show "keeps (wire_sent w ok) (raise_modem_lines env)"
    unfolding raise_modem_lines_def by (rule keeps_wire_modify) simp
qed

lemma keeps_wire_wait_port: "keeps (wire_sent w ok) (wait_port env n deadline)"
  by (induction n) (auto intro!: keeps_intro keeps_wire_basic)

lemma keeps_wire_configure:
  "list_all ok (''ATSTFF'' # elm_setup) \<Longrightarrow> keeps (wire_sent w ok) (identified env banner)"
  unfolding identified_def configure_elm_def
  by (intro keeps_intro keeps_wire_basic keeps_wire_command) (simp_all add: list_all_iff)

lemma keeps_wire_reopen:
  "list_all ok (''ATI'' # ''ATSTFF'' # elm_setup) \<Longrightarrow> keeps (wire_sent w ok) (reopen_after_usb_reset env)"
  unfolding reopen_after_usb_reset_def
  by (intro keeps_intro keeps_wire_basic keeps_wire_wait_port keeps_wire_configure keeps_wire_command) simp_all

lemma spec_command_wire:
  "spec (\<lambda>u. port_open u \<and> wire u = w) (command env cmd) (\<lambda>_ u. port_open u \<and> wire u = w @ [cmd])"
  by (auto simp: spec_def command_def)

lemma keeps_at:
  "keeps (\<lambda>u. port_open u \<and> wire u = w) (report msg)"
  "keeps (\<lambda>u. port_open u \<and> wire u = w) (sleep env ms)"
  "keeps (\<lambda>u. port_open u \<and> wire u = w) (wake env)"
  by (auto simp: keeps_def spec_def report_def sleep_def wake_def)

lemma spec_ati_loop:
  "spec (\<lambda>u. port_open u \<and> wire u = w) (ati_loop env n)
     (\<lambda>r u. case r of Inl _ \<Rightarrow> wire_sent w (\<lambda>c. c = ''ATI'') u
       | Inr (ident, _) \<Rightarrow> if looks_like_elm ident then wire_sent w (\<lambda>c. c = ''ATI'') u
                        else port_open u \<and> wire u = w @ replicate n ''ATI'')"
    (is "spec _ _ (?Q w n)")
proof (induction n arbitrary: w)
  case 0
  show ?case by (auto intro!: spec_ret simp: wire_sent_def)
next
  case (Suc n)
  have IH: "spec (\<lambda>u. port_open u \<and> wire u = w @ [''ATI'']) (ati_loop env n) (?Q w (Suc n))"
    by (rule spec_post [OF Suc.IH])
      (auto simp: wire_sent_def split: sum.splits if_splits)
  show ?case
    unfolding ati_loop.simps
    apply (rule spec_bind_keeps, rule keeps_at)
    apply (rule spec_bind, rule spec_command_wire, rule spec_case_prod, rule spec_if)
     apply (rule spec_ret, simp add: wire_sent_def)
    apply (rule spec_if, rule spec_ret, simp add: wire_sent_def)
    apply (rule spec_if, rule spec_ret, simp)
    apply (rule spec_bind_keeps, rule keeps_at)
    apply (rule spec_bind_keeps, rule keeps_at)
    apply (rule spec_if, rule spec_ret, simp add: wire_sent_def)
    apply (rule spec_bind_keeps, rule keeps_at, rule IH)
    done
qed

text \<open>The conversation of the handshake: with no ATZ, or with ATZ only after three ATI and an ATWS.\<close>

definition no_atz :: "string list \<Rightarrow> bool" where
  "no_atz = list_all (\<lambda>c. c \<noteq> ''ATZ'')"

definition last_resort :: "string list \<Rightarrow> bool" where
  "last_resort ws \<longleftrightarrow> no_atz ws
     \<or> take 5 ws = [''ATI'', ''ATI'', ''ATI'', ''ATWS'', ''ATZ''] \<and> no_atz (drop 5 ws)"

lemma wire_sent_no_atz: "wire_sent w (\<lambda>c. c \<noteq> ''ATZ'') u \<Longrightarrow> last_resort (drop (length w) (wire u))"
  by (auto simp: wire_sent_def last_resort_def no_atz_def)

lemma wire_sent_after_atz:
  assumes "wire_sent (w @ replicate 3 ''ATI'' @ [''ATWS'', ''ATZ'']) (\<lambda>c. c \<noteq> ''ATZ'') u"
  shows "last_resort (drop (length w) (wire u))"
  using assms by (auto simp: wire_sent_def last_resort_def no_atz_def numeral_eq_Suc)

lemma wire_sent_ati: "wire_sent w (\<lambda>c. c = ''ATI'') u \<Longrightarrow> wire_sent w (\<lambda>c. c \<noteq> ''ATZ'') u"
  by (auto simp: wire_sent_def list_all_iff)

lemma wire_sent_append: "wire_sent (w @ ws) ok u \<Longrightarrow> list_all ok ws \<Longrightarrow> wire_sent w ok u"
  by (auto simp: wire_sent_def)

lemma no_atz_setup: "list_all (\<lambda>c. c \<noteq> ''ATZ'') (''ATI'' # ''ATSTFF'' # elm_setup)"
  by (simp add: elm_setup_def)

lemma spec_init_elm_wire:
  "spec (\<lambda>u. port_open u \<and> wire u = w) (init_elm env) (\<lambda>_ u. last_resort (drop (length w) (wire u)))"
proof -
  let ?Q = "\<lambda>_ u. last_resort (drop (length w) (wire u))"
  have config: "spec (wire_sent v (\<lambda>c. c \<noteq> ''ATZ'')) (identified env b) (\<lambda>_. wire_sent v (\<lambda>c. c \<noteq> ''ATZ''))" for v b
    unfolding keeps_def [symmetric] by (rule keeps_wire_configure) (use no_atz_setup in simp)
  have again: "spec (wire_sent v (\<lambda>c. c \<noteq> ''ATZ'')) (reopen_after_usb_reset env) (\<lambda>_. wire_sent v (\<lambda>c. c \<noteq> ''ATZ''))" for v
    unfolding keeps_def [symmetric] by (rule keeps_wire_reopen) (use no_atz_setup in simp)
  have quiet: "spec P (identified env b) ?Q"
    if "\<And>u. P u \<Longrightarrow> wire_sent w (\<lambda>c. c \<noteq> ''ATZ'') u" for P b
    using that by (auto intro!: spec_weaken [OF config] wire_sent_no_atz)
  have loud: "spec P (identified env b) ?Q" "spec P (reopen_after_usb_reset env) ?Q"
    if "\<And>u. P u \<Longrightarrow> wire_sent (w @ replicate 3 ''ATI'' @ [''ATWS'', ''ATZ'']) (\<lambda>c. c \<noteq> ''ATZ'') u" for P b
    using that by (auto intro!: spec_weaken [OF config] spec_weaken [OF again] wire_sent_after_atz)
  have done_quiet: "spec P (ret r) ?Q" if "\<And>u. P u \<Longrightarrow> wire_sent w (\<lambda>c. c \<noteq> ''ATZ'') u" for P and r :: "gerr option"
    using that by (auto intro!: spec_ret wire_sent_no_atz)
  have done_loud: "spec P (ret r) ?Q"
    if "\<And>u. P u \<Longrightarrow> wire_sent (w @ replicate 3 ''ATI'' @ [''ATWS'', ''ATZ'']) (\<lambda>c. c \<noteq> ''ATZ'') u"
    for P and r :: "gerr option"
    using that by (auto intro!: spec_ret wire_sent_after_atz)
  have three: "replicate 3 x = [x, x, x]" for x :: string
    by (simp add: numeral_eq_Suc)
  note sent = wire_sent_def three
  show ?thesis
    unfolding init_elm_def
    apply (rule spec_bind_keeps, rule keeps_at)
    apply (rule spec_bind_keeps, rule keeps_at)
    apply (rule spec_if, rule done_quiet, simp)
    apply (rule spec_bind_keeps, rule keeps_at)
    apply (rule spec_if, rule done_quiet, simp)
    apply (rule spec_bind, rule spec_ati_loop)
    apply (rule spec_case_sum, rule done_quiet, simp add: wire_sent_ati)
    apply (rule spec_case_prod, rule spec_if, rule spec_case_option, rule quiet, simp add: wire_sent_ati)
     apply (rule done_quiet, simp add: wire_sent_ati)
    apply (rule spec_pre [of "\<lambda>u. port_open u \<and> wire u = w @ replicate 3 ''ATI''"])
     apply (rule spec_bind_keeps, rule keeps_at)
     apply (rule spec_bind, rule spec_command_wire, rule spec_case_prod)
     apply (rule spec_if, rule done_quiet, simp add: sent)
     apply (rule spec_if, rule quiet, simp add: sent)
     apply (rule spec_bind_keeps, rule keeps_at)
     apply (rule spec_bind, rule spec_command_wire, rule spec_case_prod)
     apply (rule spec_if, rule done_loud, simp add: sent)
     apply (rule spec_if, rule loud, simp add: sent)
     apply (rule spec_if, rule loud, simp add: sent)
     apply (rule done_loud, simp add: sent)
    apply simp
    done
qed

text \<open>One probe of the bus: what is sent for a protocol that does not answer.\<close>

definition probe_cmds :: "string list \<Rightarrow> string list \<Rightarrow> bool" where
  "probe_cmds codes ws \<longleftrightarrow> filter (\<lambda>c. has_prefix c ''ATSP'') ws = map (\<lambda>c. ''ATSP'' @ c) codes"

lemma spec_find_bus_loop:
  assumes "\<And>c n. (c, n) \<in> set ps \<Longrightarrow> n \<noteq> []"
  shows "spec (\<lambda>u. port_open u \<and> wire u = w) (find_bus_loop env prev ps)
     (\<lambda>r u. \<forall>name. r = Inr name \<longrightarrow>
        (\<exists>as c bs ws. ps = as @ (c, name) # bs \<and> wire u = w @ ws @ [''ATSP'' @ c, ''0100'']
           \<and> probe_cmds (map fst as) ws))"
  using assms
proof (induction ps arbitrary: w prev)
  case Nil
  then show ?case by (simp add: spec_ret)
next
  case (Cons p ps)
  obtain c n where p: "p = (c, n)" by fastforce
  let ?Q = "\<lambda>r u. \<forall>name. r = Inr name \<longrightarrow>
        (\<exists>as d bs ws. p # ps = as @ (d, name) # bs \<and> wire u = w @ ws @ [''ATSP'' @ d, ''0100'']
           \<and> probe_cmds (map fst as) ws)"
  have next_one: "spec (\<lambda>u. port_open u \<and> wire u = w @ vs) (find_bus_loop env e ps) ?Q"
    if vs: "probe_cmds [c] vs" for e vs
  proof (rule spec_post [OF Cons.IH])
    fix r :: "gerr + string" and u :: "'a usb"
    assume R: "\<forall>name. r = Inr name \<longrightarrow>
        (\<exists>as d bs ws. ps = as @ (d, name) # bs \<and> wire u = (w @ vs) @ ws @ [''ATSP'' @ d, ''0100'']
           \<and> probe_cmds (map fst as) ws)"
    show "?Q r u"
    proof (intro allI impI)
      fix name assume "r = Inr name"
      with R obtain as d bs ws where "ps = as @ (d, name) # bs"
          "wire u = (w @ vs) @ ws @ [''ATSP'' @ d, ''0100'']" "probe_cmds (map fst as) ws"
        by blast
      with vs have "p # ps = (p # as) @ (d, name) # bs" "wire u = w @ (vs @ ws) @ [''ATSP'' @ d, ''0100'']"
        "probe_cmds (map fst (p # as)) (vs @ ws)"
        by (simp_all add: p probe_cmds_def)
      then show "\<exists>as d bs ws. p # ps = as @ (d, name) # bs \<and> wire u = w @ ws @ [''ATSP'' @ d, ''0100'']
           \<and> probe_cmds (map fst as) ws"
        by blast
    qed
  qed (use Cons.prems in auto)
  have sent: "probe_cmds [c] [''ATSP'' @ c]" "probe_cmds [c] [''ATSP'' @ c, ''0100'']" "probe_cmds [] []"
    by (simp_all add: probe_cmds_def has_prefix_def)
  have next1: "spec (\<lambda>u. port_open u \<and> wire u = w @ [''ATSP'' @ c]) (find_bus_loop env e ps) ?Q" for e
    by (rule next_one [OF sent(1)])
  have next2: "spec (\<lambda>u. port_open u \<and> wire u = (w @ [''ATSP'' @ c]) @ [''0100'']) (find_bus_loop env e ps) ?Q" for e
    using next_one [OF sent(2)] by simp
  have here: "spec (\<lambda>u :: 'a usb. port_open u \<and> wire u = (w @ [''ATSP'' @ c]) @ [''0100'']) (ret (Inr n :: gerr + string)) ?Q"
  proof (rule spec_ret, intro allI impI)
    fix u :: "'a usb" and name
    assume "port_open u \<and> wire u = (w @ [''ATSP'' @ c]) @ [''0100'']" "(Inr n :: gerr + string) = Inr name"
    then have "p # ps = [] @ (c, name) # ps" "wire u = w @ [] @ [''ATSP'' @ c, ''0100'']" "probe_cmds (map fst []) []"
      using sent(3) by (simp_all add: p)
    then show "\<exists>as d bs ws. p # ps = as @ (d, name) # bs \<and> wire u = w @ ws @ [''ATSP'' @ d, ''0100'']
           \<and> probe_cmds (map fst as) ws"
      by blast
  qed
  show ?case
    unfolding p find_bus_loop.simps
    apply (rule spec_bind_keeps, rule keeps_check_ctx, rule spec_case_option)
     apply (rule spec_bind_keeps, rule keeps_at)
     apply (rule spec_bind, rule spec_command_wire, rule spec_case_prod, rule spec_case_option)
      apply (rule spec_bind, rule spec_command_wire, rule spec_case_prod, rule spec_if)
       apply (rule spec_bind_keeps, rule keeps_at, rule here [unfolded p])
      apply (rule spec_case_option)
       apply (rule spec_let, rule spec_bind_keeps, rule keeps_at, rule next2 [unfolded p])
      apply (rule spec_bind_keeps, rule keeps_at, rule next2 [unfolded p])
     apply (rule spec_bind_keeps, rule keeps_at, rule next1 [unfolded p])
    apply (rule spec_ret, simp)
    done
qed

section \<open>Codes and sensors\<close>

lemma map_of_see_code:
  "map_of (see_code st seen c) k =
     (if k = c then (case map_of seen c of
          Some d \<Rightarrow> Some (if dtc_status d = DTCConfirmed then d else mk_dtc c st) | None \<Rightarrow> Some (mk_dtc c st))
      else map_of seen k)"
  by (simp add: see_code_def update_conv' split: option.split)

lemma distinct_see_code: "distinct (map fst seen) \<Longrightarrow> distinct (map fst (see_code st seen c))"
  by (auto simp: see_code_def distinct_update split: option.split)

lemma map_of_see_codes:
  "map_of (foldl (see_code st) seen cs) k =
     (if k \<in> set cs then (case map_of seen k of
          Some d \<Rightarrow> Some (if dtc_status d = DTCConfirmed then d else mk_dtc k st) | None \<Rightarrow> Some (mk_dtc k st))
      else map_of seen k)"
proof (induction cs arbitrary: seen)
  case (Cons c cs)
  then show ?case
    by (auto simp: map_of_see_code mk_dtc_def split: option.split)
qed simp

lemma distinct_see_codes: "distinct (map fst seen) \<Longrightarrow> distinct (map fst (foldl (see_code st) seen cs))"
  by (induction cs arbitrary: seen) (simp_all add: distinct_see_code)

text \<open>The codes of one answer, and the status a code gets from the three answers.\<close>

definition reply_codes :: "string \<times> gerr option \<Rightarrow> string list" where
  "reply_codes r = (if snd r \<noteq> None then [] else decode_dtcs (fst r))"

definition code_status :: "string list \<Rightarrow> string list \<Rightarrow> string \<Rightarrow> string" where
  "code_status stored perm code =
     (if code \<in> set stored then DTCConfirmed else if code \<in> set perm then DTCPermanent else DTCPending)"

lemma run_read_sources_Cons:
  "run_state (read_sources env seen ((cmd, st) # ss)) u =
     (case run_state (command env cmd) u of
        (r, v) \<Rightarrow> run_state (read_sources env (foldl (see_code st) seen (reply_codes r)) ss) v)"
  by (auto simp: reply_codes_def split: prod.splits)

lemma map_of_all_sources:
  "map_of (foldl (see_code DTCPermanent) (foldl (see_code DTCPending) (foldl (see_code DTCConfirmed) [] a) b) c) k =
     (if k \<in> set a \<union> set b \<union> set c then Some (mk_dtc k (code_status a c k)) else None)"
  by (simp add: map_of_see_codes code_status_def mk_dtc_def obd_consts)

definition plausible :: "live_snapshot \<Rightarrow> bool" where
  "plausible s \<longleftrightarrow>
     pred_option (\<lambda>v. 0 \<le> v \<and> v \<le> 65535 / 4) (rpm s)
   \<and> pred_option (\<lambda>v. 0 \<le> v \<and> v \<le> 255) (speed_kmh s)
   \<and> pred_option (\<lambda>v. 0 \<le> v \<and> v \<le> 100) (load_pct s)
   \<and> pred_option (\<lambda>v. - 40 \<le> v \<and> v \<le> 215) (coolant_c s)
   \<and> pred_option (\<lambda>v. - 40 \<le> v \<and> v \<le> 215) (iat_c s)
   \<and> pred_option (\<lambda>v. 0 \<le> v \<and> v \<le> 656) (maf_gs s)
   \<and> pred_option (\<lambda>v. 0 \<le> v \<and> v \<le> 255) (map_kpa s)
   \<and> pred_option (\<lambda>v. 0 \<le> v \<and> v \<le> 100) (tps_pct s)
   \<and> list_all (pred_option (\<lambda>v. - 100 \<le> v \<and> v \<le> 100)) [stft_b1 s, ltft_b1 s, stft_b2 s, ltft_b2 s]
   \<and> list_all (pred_option (\<lambda>v. 0 \<le> v \<and> v \<le> 2)) [o2_b1s1 s, o2_b1s2 s]
   \<and> pred_option (\<lambda>v. 0 \<le> v \<and> v \<le> 66) (module_volts s)"

lemma plausible_empty: "plausible (empty_snapshot now)"
  by (simp add: plausible_def empty_snapshot_def)

lemma plausible_set: "(cmd, f) \<in> set live_pids \<Longrightarrow> plausible s \<Longrightarrow> plausible (f r s)"
  using sensor_ranges [of r] by (auto simp: live_pids_def plausible_def)

lemma spec_sample_pids:
  assumes "\<And>cmd f r s. (cmd, f) \<in> set ps \<Longrightarrow> plausible s \<Longrightarrow> plausible (f r s)" and "plausible snap"
  shows "spec (\<lambda>_. True) (sample_pids env snap ps) (\<lambda>s _. plausible s)"
  using assms
proof (induction ps arbitrary: snap)
  case Nil
  then show ?case by (simp add: spec_ret)
next
  case (Cons p ps)
  obtain cmd f where p: "p = (cmd, f)" by fastforce
  have "spec (\<lambda>_. True) (sample_pids env (f r snap) ps) (\<lambda>s _. plausible s)" for r
    by (rule Cons.IH) (use Cons.prems p in \<open>meson list.set_intros\<close>)+
  moreover have "spec (\<lambda>_. True) (sample_pids env snap ps) (\<lambda>s _. plausible s)"
    by (rule Cons.IH) (use Cons.prems in \<open>meson list.set_intros\<close>)+
  ultimately show ?case
    using Cons.prems(2) unfolding p sample_pids.simps
    by (intro spec_bind_keeps keeps_check_ctx spec_if spec_case_prod spec_ret keeps_flags)
      (simp_all add: flags_only_def)
qed

text \<open>A clock that a wait moves on by its length unless the context ends it.\<close>

definition clock_law :: "'w env \<Rightarrow> bool" where
  "clock_law env \<longleftrightarrow> (\<forall>w ms. ctx_err env (pass_ms env ms w) = None
     \<longrightarrow> now_ms env w + ms \<le> now_ms env (pass_ms env ms w))"

lemma wait_port_fuel:
  assumes "clock_law env" and "deadline < now_ms env (world u) + 100 * n"
  shows "fst (run_state (wait_port env (Suc n) deadline) u) \<noteq> None"
  using assms(2)
proof (induction n arbitrary: u)
  case 0
  then show ?case by (simp add: check_ctx_def)
next
  case (Suc n)
  have "fst (run_state (wait_port env (Suc n) deadline) (u\<lparr>world := pass_ms env 100 (world u)\<rparr>)) \<noteq> None"
    if "ctx_err env (pass_ms env 100 (world u)) = None"
  proof (rule Suc.IH)
    have "now_ms env (world u) + 100 \<le> now_ms env (pass_ms env 100 (world u))"
      using assms(1) that by (simp add: clock_law_def)
    with Suc.prems show "deadline < now_ms env (world (u\<lparr>world := pass_ms env 100 (world u)\<rparr>)) + 100 * n"
      by simp
  qed
  then show ?case
    by (subst wait_port.simps) (auto simp: check_ctx_def sleep_def simp del: wait_port.simps)
qed

section \<open>Properties\<close>



text \<open>
  The quick reconnect of \<open>ensure_open\<close> is dead code: dropping the handle always clears the
  ready flag, so an adapter without a handle is never ready, and whenever a method finds the port
  closed it goes through the whole of \<open>usb_open\<close> again.
\<close>
theorem ensure_open_never_reconnects:
  assumes "usb_reach env goos u"
  shows "run_state (ensure_open env goos) u = run_state (usb_open env goos) u \<and> (ready u \<longrightarrow> port_open u)"
  using usb_reach_ok [OF assms] ensure_open_eq by (auto simp: usb_ok_def)

theorem ensure_open_never_reconnects_witness:
  "run_state (ensure_open (bench (\<lambda>_. ''STOPPED>'')) ''linux'') (new_usb_adapter ''/dev/ttyUSB0'' 0)
    = run_state (usb_open (bench (\<lambda>_. ''STOPPED>'')) ''linux'') (new_usb_adapter ''/dev/ttyUSB0'' 0)"
  using ensure_open_never_reconnects [OF usb_reach.new [of "bench (\<lambda>_. ''STOPPED>'')" "''linux''" "''/dev/ttyUSB0''" 0]] by simp



text \<open>
  When \<open>find_bus\<close> reports a protocol, it is the one the adapter was left on: the protocols
  before it in the list, CAN first, were selected in that order, and the last two commands are
  the selection of the reported protocol and the PID 00 request.
\<close>
theorem find_bus_reports_selected:
  assumes "port_open u" and "run_state (find_bus env) u = (Inr name, t)"
  shows "\<exists>as c bs ws. elm_bus_protocols = as @ (c, name) # bs
    \<and> wire t = wire u @ ws @ [''ATSP'' @ c, ''0100''] \<and> probe_cmds (map fst as) ws"
proof -
  have "\<And>c n. (c, n) \<in> set elm_bus_protocols \<Longrightarrow> n \<noteq> []"
    by (auto simp: elm_bus_protocols_def)
  note loop = spec_find_bus_loop [OF this, where w = "wire u" and env = env and prev = None]
  have "port_open u \<and> wire u = wire u" using assms(1) by simp
  from specD [OF loop this] assms(2) show ?thesis
    by (simp add: find_bus_def)
qed

theorem find_bus_reports_selected_witness:
  "\<exists>as c bs ws. elm_bus_protocols = as @ (c, ''ISO 15765-4 CAN 11/500'') # bs
    \<and> wire (snd (run_state (find_bus (bench (\<lambda>_. ''41 00 BE 3E A8 11>''))) ((new_usb_adapter [] 0)\<lparr>port_open := True\<rparr>)))
      = [] @ ws @ [''ATSP'' @ c, ''0100''] \<and> probe_cmds (map fst as) ws"
proof -
  let ?u = "(new_usb_adapter [] 0)\<lparr>port_open := True\<rparr>" and ?env = "bench (\<lambda>_. ''41 00 BE 3E A8 11>'')"
  have "fst (run_state (find_bus ?env) ?u) = Inr ''ISO 15765-4 CAN 11/500''"
    by code_simp
  then have "run_state (find_bus ?env) ?u = (Inr ''ISO 15765-4 CAN 11/500'', snd (run_state (find_bus ?env) ?u))"
    by (metis prod.collapse)
  from find_bus_reports_selected [OF _ this] show ?thesis
    by (simp add: new_usb_adapter_def)
qed

text \<open>
  C17. \<open>read_dtcs\<close> reports each code once, however the three answers overlap and in whatever
  order Go walks its map: the codes are those of the stored, pending and permanent answers, an
  answer with an error counts as empty, and a code is confirmed when it is stored, else permanent
  when it is permanent, else pending; every code has its description.
\<close>
theorem read_dtcs_correct:
  assumes "port_open u" and "\<And>xs. mset (map_order env xs) = mset xs"
    and "run_state (command env ''03'') u = (stored, u1)"
    and "run_state (command env ''07'') u1 = (pending, u2)"
    and "run_state (command env ''0A'') u2 = (perm, u3)"
  shows "\<exists>out. run_state (read_dtcs env goos) u = (Inr out, u3) \<and> distinct (map dtc_code out)
    \<and> set (map dtc_code out) = set (reply_codes stored) \<union> set (reply_codes pending) \<union> set (reply_codes perm)
    \<and> (\<forall>d \<in> set out. d = mk_dtc (dtc_code d) (code_status (reply_codes stored) (reply_codes perm) (dtc_code d)))"
proof -
  define seen where "seen = foldl (see_code DTCPermanent) (foldl (see_code DTCPending)
    (foldl (see_code DTCConfirmed) [] (reply_codes stored)) (reply_codes pending)) (reply_codes perm)"
  define out where "out = map snd (map_order env seen)"
  have run: "run_state (read_dtcs env goos) u = (Inr out, u3)"
    using assms by (simp add: read_dtcs_def ensure_open_def dtc_sources_def run_read_sources_Cons
        seen_def out_def del: read_sources.simps(2))
  have dist: "distinct (map fst seen)"
    unfolding seen_def by (intro distinct_see_codes) simp
  have perm: "set (map_order env seen) = set seen" "distinct (map fst (map_order env seen))"
    using assms(2) [of seen] dist by (metis set_mset_mset, metis mset_map mset_eq_imp_distinct_iff)
  have entry: "d = mk_dtc k (code_status (reply_codes stored) (reply_codes perm) k)
      \<and> k \<in> set (reply_codes stored) \<union> set (reply_codes pending) \<union> set (reply_codes perm)"
    if "(k, d) \<in> set seen" for k d
    using map_of_is_SomeI [OF dist that] map_of_all_sources [of _ _ _ k]
    unfolding seen_def by (auto split: if_splits)
  have code: "dtc_code d = k" if "(k, d) \<in> set seen" for k d
  proof -
    have "dtc_code d = dtc_code (mk_dtc k (code_status (reply_codes stored) (reply_codes perm) k))"
      using entry [OF that] by metis
    then show ?thesis by (simp add: mk_dtc_def)
  qed
  have keys: "map dtc_code out = map fst (map_order env seen)"
    using code perm(1) by (auto simp: out_def)
  have "fst ` set seen = dom (map_of seen)"
    by (simp add: dom_map_of_conv_image_fst)
  also have "\<dots> = set (reply_codes stored) \<union> set (reply_codes pending) \<union> set (reply_codes perm)"
    using map_of_all_sources unfolding seen_def by (auto simp: dom_def split: if_splits)
  finally have "set (map dtc_code out) = set (reply_codes stored) \<union> set (reply_codes pending) \<union> set (reply_codes perm)"
    using keys perm(1) by simp
  moreover have "\<forall>d \<in> set out. d = mk_dtc (dtc_code d) (code_status (reply_codes stored) (reply_codes perm) (dtc_code d))"
    using entry code perm(1) by (auto simp: out_def)
  ultimately show ?thesis
    using run keys perm(2) by metis
qed

theorem read_dtcs_correct_witness:
  "\<exists>out t. run_state (read_dtcs (bench (\<lambda>cmd. if cmd = ''03'' then ''43 01 33 00 00 00 00>''
        else if cmd = ''07'' then ''47 01 33 01 71 00 00>'' else ''NO DATA>'')) ''linux'')
      ((new_usb_adapter ''/dev/ttyUSB0'' 0)\<lparr>port_open := True\<rparr>) = (Inr out, t)
    \<and> distinct (map dtc_code out) \<and> set (map dtc_code out) = {''P0133'', ''P0171''}"
proof -
  let ?reply = "\<lambda>cmd. if cmd = ''03'' then ''43 01 33 00 00 00 00>''
        else if cmd = ''07'' then ''47 01 33 01 71 00 00>'' else ''NO DATA>''"
  let ?u = "(new_usb_adapter ''/dev/ttyUSB0'' 0)\<lparr>port_open := True\<rparr>"
  let ?run = "\<lambda>cmd u. run_state (command (bench ?reply) cmd) u"
  have codes: "reply_codes (fst (?run ''03'' ?u)) = [''P0133'']"
    "reply_codes (fst (?run ''07'' (snd (?run ''03'' ?u)))) = [''P0133'', ''P0171'']"
    "reply_codes (fst (?run ''0A'' (snd (?run ''07'' (snd (?run ''03'' ?u)))))) = []"
    by code_simp+
  have "port_open ?u" "\<And>xs. mset (map_order (bench ?reply) xs) = mset xs"
    by (simp_all add: bench_def)
  from read_dtcs_correct [OF this prod.collapse [symmetric] prod.collapse [symmetric] prod.collapse [symmetric],
      of "''linux''"]
  show ?thesis
    unfolding codes by auto
qed


text \<open>
  The wait for the port after a USB reset ends: as long as a wait of the clock really
  takes its time, \<open>wait_port\<close> decides within the 32 rounds that \<open>reopen_after_usb_reset\<close> gives it,
  that is 3 s and one round of 100 ms, whether or not the port ever comes back.
\<close>
theorem wait_port_ends:
  assumes "clock_law env"
  shows "fst (run_state (wait_port env 32 (now_ms env (world u) + 3000)) u) \<noteq> None"
  using wait_port_fuel [OF assms, of "now_ms env (world u) + 3000" u 31] by simp

theorem wait_port_ends_witness:
  "fst (run_state (wait_port ((bench (\<lambda>_. []))\<lparr>stat_ok := \<lambda>_ _. False\<rparr>) 32 3000) (new_usb_adapter ''/dev/ttyUSB0'' 0)) \<noteq> None"
  using wait_port_ends [of "(bench (\<lambda>_. []))\<lparr>stat_ok := \<lambda>_ _. False\<rparr>" "new_usb_adapter ''/dev/ttyUSB0'' 0"]
  by (simp add: bench_def clock_law_def new_usb_adapter_def)

text \<open>
  An OpenPort is never touched: for a device that classifies as J2534, opening fails with the
  J2534 error and neither the serial port, the world nor the adapter changes.
\<close>
theorem usb_open_refuses_j2534:
  assumes "\<not> port_open u" and "device_path u \<noteq> []"
    and "sp_kind (inspect_serial_port env goos (device_path u)) = KindJ2534OpenPort"
  shows "snd (run_state (usb_open env goos) u) = u
    \<and> (\<exists>e. fst (run_state (usb_open env goos) u) = Some e \<and> err_is e J2534Unsupported)"
  using assms by (simp add: usb_open_def Let_def)

theorem usb_open_refuses_j2534_witness:
  "snd (run_state (usb_open ((bench (\<lambda>_. []))\<lparr>read_file := \<lambda>p. if contains p ''idVendor'' then Some ''0403''
       else if contains p ''idProduct'' then Some ''cc4d'' else None\<rparr>) ''linux'') (new_usb_adapter ''/dev/ttyUSB0'' 0))
   = new_usb_adapter ''/dev/ttyUSB0'' 0"
proof -
  let ?env = "(bench (\<lambda>_. []))\<lparr>read_file := \<lambda>p. if contains p ''idVendor'' then Some ''0403''
       else if contains p ''idProduct'' then Some ''cc4d'' else None\<rparr>"
  have "sp_kind (inspect_serial_port ?env ''linux'' ''/dev/ttyUSB0'') = KindJ2534OpenPort"
    by code_simp
  then show ?thesis
    using usb_open_refuses_j2534 [of "new_usb_adapter ''/dev/ttyUSB0'' 0" ?env "''linux''"]
    by (simp add: new_usb_adapter_def)
qed

section \<open>The USB adapter in a scan\<close>

definition usb_adapter :: "'w env \<Rightarrow> string \<Rightarrow> 'w usb adapter" where
  "usb_adapter env goos =
     \<lparr>ad_name = usb_name, ad_link = LinkUSB, ad_open = usb_open env goos, ad_close = usb_close env,
      ad_identify = identify env goos, ad_dtcs = read_dtcs env goos,
      ad_freeze = (\<lambda>code. do {
        r \<leftarrow> read_freeze_frame env goos code;
        ret (case r of Inl e \<Rightarrow> Inl e | Inr f \<Rightarrow> Inr (Some f)) }),
      ad_live = Some (read_live_snapshot env goos), ad_report = report,
      ad_ctx = (\<lambda>u. ctx_err env (world u)), ad_now = (\<lambda>u. now_ms env (world u))\<rparr>"

interpretation usb: scan_adapter "usb_adapter env goos" port_open usb_ok for env :: "'w env" and goos
proof unfold_locales
  show "spec (\<lambda>u. usb_ok u \<and> \<not> port_open u) (ad_open (usb_adapter env goos)) (\<lambda>r u. r \<noteq> None \<longrightarrow> \<not> port_open u)"
    unfolding usb_adapter_def adapter.select_convs
    by (rule spec_weaken [OF spec_usb_open]) (auto simp: usb_ok_def open_result_def)
  show "spec usb_ok (ad_close (usb_adapter env goos)) (\<lambda>_ u. \<not> port_open u)"
    unfolding usb_adapter_def adapter.select_convs by (rule spec_post [OF spec_usb_close]) simp
qed (auto simp: usb_adapter_def intro!: keeps_bind keeps_ret keeps_ok_open keeps_ok_methods keeps_flags)

text \<open>
  C13. A scan always lets go of the serial port. From a closed adapter, whether the pass succeeds,
  fails in the middle or is cancelled, the port is not held afterwards and the adapter is ready
  for the next scan; a second scan of the same adapter ends closed as well.
\<close>
theorem usb_scan_lets_go:
  assumes "usb_reach env goos u" and "\<not> port_open u"
  shows "\<not> port_open (snd (run_state (scan (usb_adapter env goos)) u))
    \<and> \<not> port_open (snd (run_state (scan (usb_adapter env goos) \<bind> (\<lambda>_. scan (usb_adapter env goos))) u))"
proof -
  have start: "usb_ok u \<and> \<not> port_open u"
    using assms usb_reach_ok by blast
  have twice: "spec (\<lambda>u. usb_ok u \<and> \<not> port_open u)
      (scan (usb_adapter env goos) \<bind> (\<lambda>_. scan (usb_adapter env goos))) (\<lambda>_ u. usb_ok u \<and> \<not> port_open u)"
    by (rule spec_bind [OF usb.scan_closes]) (rule usb.scan_closes)
  show ?thesis
    using spec_run [OF usb.scan_closes start] spec_run [OF twice start] by (rule conjI [OF conjunct2 conjunct2])
qed

theorem usb_scan_lets_go_witness:
  "\<not> port_open (snd (run_state (scan (usb_adapter (bench (\<lambda>_. ''STOPPED>'')) ''linux'')) (new_usb_adapter ''/dev/ttyUSB0'' 0)))"
  using usb_scan_lets_go [OF usb_reach.new [of "bench (\<lambda>_. ''STOPPED>'')" "''linux''" "''/dev/ttyUSB0''" 0]]
  by (simp add: new_usb_adapter_def)

end
