(* ===== verification/Mock.thy ===== *)
theory Mock
  imports Scanner Bench
begin

text \<open>
  The simulated adapter of \<^verbatim>\<open>pkg/obd/mock.go\<close>. Its methods wait a few milliseconds on the
  context and answer from the VIN and the codes it was made with. It interprets the scanner's
  contract, and a scan of it is computed in full.
\<close>

record 'w mock =
  m_vin :: string
  m_codes :: "string list"
  m_opened :: bool
  m_log :: "string list"
  m_world :: 'w

definition new_mock_adapter :: "string \<Rightarrow> string list \<Rightarrow> 'w \<Rightarrow> 'w mock" where
  "new_mock_adapter vin codes w =
     \<lparr>m_vin = (if vin = [] then ''MOCKTESTVIN000001'' else vin),
      m_codes = (if codes = [] then [''P0300'', ''P0171''] else codes),
      m_opened = False, m_log = [], m_world = w\<rparr>"

definition mock_sleep :: "'w env \<Rightarrow> nat \<Rightarrow> ('w mock, gerr option) state" where
  "mock_sleep env ms = do {
     modify (\<lambda>m. m\<lparr>m_world := pass_ms env ms (m_world m)\<rparr>);
     reads (\<lambda>m. ctx_err env (m_world m))
   }"

definition mock_open :: "'w env \<Rightarrow> ('w mock, gerr option) state" where
  "mock_open env = do {
     e \<leftarrow> mock_sleep env 20;
     case e of
       Some x \<Rightarrow> ret (Some x)
     | None \<Rightarrow> do { modify (\<lambda>m. m\<lparr>m_opened := True\<rparr>); ret None }
   }"

definition mock_close :: "('w mock, unit) state" where
  "mock_close = modify (\<lambda>m. m\<lparr>m_opened := False\<rparr>)"

definition require_open :: "('w mock, gerr option) state" where
  "require_open = reads (\<lambda>m. if m_opened m then None else Some (Msg ''mock adapter is not open''))"

text \<open>Every method but \<^verbatim>\<open>Open\<close> and \<^verbatim>\<open>Close\<close> starts alike: the check, then the wait.\<close>

definition mock_ready :: "'w env \<Rightarrow> nat \<Rightarrow> ('w mock, gerr option) state" where
  "mock_ready env ms = do {
     e \<leftarrow> require_open;
     case e of Some x \<Rightarrow> ret (Some x) | None \<Rightarrow> mock_sleep env ms
   }"

definition mock_identify :: "'w env \<Rightarrow> ('w mock, gerr + vehicle_info) state" where
  "mock_identify env = do {
     e \<leftarrow> mock_ready env 30;
     case e of
       Some x \<Rightarrow> ret (Inl x)
     | None \<Rightarrow> do {
         vin \<leftarrow> reads m_vin;
         ret (Inr \<lparr>vi_vin = vin, vi_ecu = ''MOCK-ECM'', vi_proto = ''ISO 15765-4 (CAN)''\<rparr>)
       }
   }"

definition mock_dtcs :: "'w env \<Rightarrow> ('w mock, gerr + dtc list) state" where
  "mock_dtcs env = do {
     e \<leftarrow> mock_ready env 40;
     case e of
       Some x \<Rightarrow> ret (Inl x)
     | None \<Rightarrow> do {
         codes \<leftarrow> reads m_codes;
         ret (Inr (map (\<lambda>c. \<lparr>dtc_code = c, dtc_status = DTCConfirmed, dtc_freeze = None,
                             dtc_desc = describe_code c\<rparr>) codes))
       }
   }"

definition mock_frame :: "string \<Rightarrow> any_map" where
  "mock_frame code =
     [(''code'', VStr code), (''rpm'', VFloat64 2100), (''load_pct'', VFloat64 45),
      (''coolant_c'', VFloat64 91), (''stft_b1_pct'', VFloat64 14), (''ltft_b1_pct'', VFloat64 18),
      (''speed_kmh'', VFloat64 48), (''fuel_sys'', VStr ''closed_loop'')]"

definition mock_freeze :: "'w env \<Rightarrow> string \<Rightarrow> ('w mock, gerr + any_map option) state" where
  "mock_freeze env code = do {
     e \<leftarrow> mock_ready env 20;
     case e of Some x \<Rightarrow> ret (Inl x) | None \<Rightarrow> ret (Inr (Some (mock_frame code)))
   }"

definition mock_snapshot :: "nat \<Rightarrow> live_snapshot" where
  "mock_snapshot now =
     (empty_snapshot now)\<lparr>rpm := Some 820, speed_kmh := Some 0, load_pct := Some 28, coolant_c := Some 92,
       iat_c := Some 34, maf_gs := Some (rnd64 (21 / 10)), map_kpa := Some 32, tps_pct := Some 12,
       stft_b1 := Some (rnd64 (185 / 10)), ltft_b1 := Some (rnd64 (162 / 10)), o2_b1s1 := Some (rnd64 (12 / 100)),
       o2_b1s2 := Some (rnd64 (55 / 100)), module_volts := Some (rnd64 (139 / 10)), fuel_sys_status := ''closed_loop''\<rparr>"

definition mock_live :: "'w env \<Rightarrow> ('w mock, gerr + live_snapshot) state" where
  "mock_live env = do {
     e \<leftarrow> mock_ready env 25;
     case e of
       Some x \<Rightarrow> ret (Inl x)
     | None \<Rightarrow> do {
         now \<leftarrow> reads (\<lambda>m. now_ms env (m_world m));
         ret (Inr (mock_snapshot now))
       }
   }"

definition mock_adapter :: "'w env \<Rightarrow> 'w mock adapter" where
  "mock_adapter env =
     \<lparr>ad_name = (\<lambda>_. ''mock-elm327''), ad_link = LinkMock, ad_open = mock_open env, ad_close = mock_close,
      ad_identify = mock_identify env, ad_dtcs = mock_dtcs env, ad_freeze = mock_freeze env,
      ad_live = Some (mock_live env), ad_report = (\<lambda>msg. modify (\<lambda>m. m\<lparr>m_log := m_log m @ [msg]\<rparr>)),
      ad_ctx = (\<lambda>m. ctx_err env (m_world m)), ad_now = (\<lambda>m. now_ms env (m_world m))\<rparr>"

lemma mock_sels:
  "ad_open (mock_adapter env) = mock_open env" "ad_close (mock_adapter env) = mock_close"
  "ad_identify (mock_adapter env) = mock_identify env" "ad_dtcs (mock_adapter env) = mock_dtcs env"
  "run_state (ad_report (mock_adapter env) msg) s = ((), s\<lparr>m_log := m_log s @ [msg]\<rparr>)"
  "ad_now (mock_adapter env) s = now_ms env (m_world s)"
  by (simp_all add: mock_adapter_def)

section \<open>The contract\<close>

lemma keeps_True: "keeps (\<lambda>_. True) m"
  by (simp add: keeps_def spec_def split: prod.split)

interpretation mock: scan_adapter "mock_adapter env" m_opened "\<lambda>_. True" for env :: "'w env"
  by unfold_locales
    (auto simp: mock_adapter_def mock_open_def mock_close_def mock_sleep_def keeps_def spec_def
      split: option.splits prod.splits)

section \<open>A quiet run\<close>

text \<open>In a context that never ends each method returns its answer.\<close>

definition endless :: "'w env \<Rightarrow> bool" where
  "endless env \<longleftrightarrow> (\<forall>w. ctx_err env w = None)"

lemma run_mock_ready:
  "endless env \<Longrightarrow> m_opened s \<Longrightarrow>
     run_state (mock_ready env ms) s = (None, s\<lparr>m_world := pass_ms env ms (m_world s)\<rparr>)"
  by (simp add: mock_ready_def require_open_def mock_sleep_def endless_def)

definition mock_dtc :: "string \<Rightarrow> dtc" where
  "mock_dtc c = \<lparr>dtc_code = c, dtc_status = DTCConfirmed, dtc_freeze = Some (mock_frame c), dtc_desc = describe_code c\<rparr>"

lemma run_mock_freeze_loop:
  assumes "endless env" and "m_opened s" and "counted m n" and "lm_failures m = 0"
  shows "\<exists>m' ff' s'. run_state (freeze_loop (mock_adapter env) m ff handled
        (map (\<lambda>c. \<lparr>dtc_code = c, dtc_status = DTCConfirmed, dtc_freeze = None, dtc_desc = describe_code c\<rparr>) cs)) s
      = (Inr (m', ff', handled @ map mock_dtc cs), s')
    \<and> m_opened s' \<and> counted m' (n + int (length cs)) \<and> lm_failures m' = 0"
  using assms(2-4)
proof (induction cs arbitrary: m n ff handled s)
  case Nil
  then show ?case by simp
next
  case (Cons c cs)
  let ?s = "s\<lparr>m_log := m_log s @ [''Freeze frame for '' @ c], m_world := pass_ms env 20 (m_world s)\<rparr>"
  obtain m' ff' s' where
    "run_state (freeze_loop (mock_adapter env) (tried True m) (AList.update c (mock_frame c) ff) (handled @ [mock_dtc c])
        (map (\<lambda>c. \<lparr>dtc_code = c, dtc_status = DTCConfirmed, dtc_freeze = None, dtc_desc = describe_code c\<rparr>) cs)) ?s
      = (Inr (m', ff', (handled @ [mock_dtc c]) @ map mock_dtc cs), s')"
    "m_opened s'" "counted m' (n + 1 + int (length cs))" "lm_failures m' = 0"
    using Cons.IH [of ?s "tried True m" "n + 1" "AList.update c (mock_frame c) ff" "handled @ [mock_dtc c]"] Cons.prems counted_tried
    by (fastforce simp: tried_def)
  moreover have "ad_ctx (mock_adapter env) s = None" "run_state (ad_freeze (mock_adapter env) c) (s\<lparr>m_log := l\<rparr>)
      = (Inr (Some (mock_frame c)), s\<lparr>m_log := l, m_world := pass_ms env 20 (m_world s)\<rparr>)" for l
    using assms(1) Cons.prems(1) by (simp_all add: mock_adapter_def endless_def mock_freeze_def run_mock_ready)
  moreover have "run_state (ad_report (mock_adapter env) msg) s = ((), s\<lparr>m_log := m_log s @ [msg]\<rparr>)" for msg
    by (simp add: mock_adapter_def)
  ultimately show ?case
    by (simp add: mock_dtc_def describe_code_not_Nil add.assoc)
qed

lemma run_mock_finish:
  assumes "endless env" and "m_opened s" and "counted m n" and "lm_failures m = 0" and "0 \<le> n"
  shows "\<exists>r t obs m'. run_state (finish_scan (mock_adapter env) start info m ff ds) s = (Inr r, t)
    \<and> sr_dtcs r = ds \<and> sr_vehicle r = info \<and> sr_obs r = Some obs \<and> obs_link obs = Some m'
    \<and> lm_failures m' = 0 \<and> lm_confidence m' = 100"
proof -
  let ?m = "(tried True m)\<lparr>lm_protocol := vi_proto info\<rparr>"
  have "link_confidence ?m = 100"
    using counted_tried [OF assms(3), of True] assms(4,5)
    by (intro link_confidence_clean [of _ "n + 1"]) (simp_all add: counted_update tried_def)
  then show ?thesis
    using assms by (simp add: finish_scan_def sample_live_def mock_adapter_def mock_live_def run_mock_ready Let_def tried_def)
qed

section \<open>Properties\<close>

text \<open>
  C38. The account of a pass. When a scan of any adapter succeeds, its result carries link metrics
  that count the identification, the code reading, one freeze frame per code and the live sample;
  failures are between 0 and the attempts, and Timeouts is 0 always, although the field is
  there to be counted. The codes are those the adapter read, in their order, each with a
  description.
\<close>
theorem scan_accounts:
  assumes "run_state (scan A) s = (Inr r, t)"
  shows "(\<exists>obs m. sr_obs r = Some obs \<and> obs_link obs = Some m \<and> pass_account A r m \<and> lm_timeouts m = 0)
    \<and> (\<exists>ds u. fst (run_state (ad_dtcs A) u) = Inr ds \<and> list_all2 filled ds (sr_dtcs r))"
  using specD [OF spec_scan [of "\<lambda>_. True" A] _ assms]
  by (auto simp: good_result_def pass_account_def counted_def)

theorem scan_accounts_witness:
  "\<exists>r t. run_state (scan (mock_adapter (bench (\<lambda>_. [])))) (new_mock_adapter [] [''P0171''] 0) = (Inr r, t)
    \<and> (\<exists>obs m. sr_obs r = Some obs \<and> obs_link obs = Some m \<and> lm_timeouts m = 0)"
proof -
  let ?A = "mock_adapter (bench (\<lambda>_. []))" and ?s = "new_mock_adapter [] [''P0171''] 0"
  have "\<not> isl (fst (run_state (scan ?A) ?s))"
    by code_simp
  then obtain r where "run_state (scan ?A) ?s = (Inr r, snd (run_state (scan ?A) ?s))"
    by (metis prod.collapse sum.collapse(2))
  with scan_accounts [OF this] show ?thesis by blast
qed

text \<open>
  A scan of the mock adapter, in a context that does not end, returns its VIN and all its
  codes as confirmed, in order, each with the freeze frame of the mock and a description, over a link
  rated 100; and the adapter is closed again.
\<close>
theorem mock_scan_complete:
  assumes "endless env"
  shows "\<exists>r t obs m. run_state (scan (mock_adapter env)) (new_mock_adapter vin codes w) = (Inr r, t) \<and> \<not> m_opened t
    \<and> sr_dtcs r = map mock_dtc (if codes = [] then [''P0300'', ''P0171''] else codes)
    \<and> vi_vin (sr_vehicle r) = (if vin = [] then ''MOCKTESTVIN000001'' else vin)
    \<and> sr_obs r = Some obs \<and> obs_link obs = Some m \<and> lm_failures m = 0 \<and> lm_confidence m = 100"
proof -
  define vin' where "vin' = (if vin = [] then ''MOCKTESTVIN000001'' else vin)"
  define codes' where "codes' = (if codes = [] then [''P0300'', ''P0171''] else codes)"
  have new: "new_mock_adapter vin codes w
      = \<lparr>m_vin = vin', m_codes = codes', m_opened = False, m_log = [], m_world = w\<rparr>"
    by (simp add: new_mock_adapter_def vin'_def codes'_def)
  let ?info = "\<lparr>vi_vin = vin', vi_ecu = ''MOCK-ECM'', vi_proto = ''ISO 15765-4 (CAN)''\<rparr>"
  let ?start = "now_ms env w"
  let ?A = "mock_adapter env"
  define s where "s = \<lparr>m_vin = vin', m_codes = codes', m_opened = True,
    m_log = [''Opening adapter'', ''Reading VIN and protocol'', ''Reading trouble codes''],
    m_world = pass_ms env 40 (pass_ms env 30 (pass_ms env 20 w))\<rparr>"
  have "counted (tried True (tried True new_metrics)) 2"
    using counted_tried [OF counted_tried [OF counted_new]] by simp
  then obtain m ff s' where loop: "run_state (freeze_loop ?A (tried True (tried True new_metrics)) [] []
        (map (\<lambda>c. \<lparr>dtc_code = c, dtc_status = DTCConfirmed, dtc_freeze = None, dtc_desc = describe_code c\<rparr>) codes')) s
      = (Inr (m, ff, map mock_dtc codes'), s')"
    and s': "m_opened s'" "counted m (2 + int (length codes'))" "lm_failures m = 0"
    using run_mock_freeze_loop [OF assms, of s "tried True (tried True new_metrics)" 2 "[]" "[]" codes']
    by (auto simp: s_def tried_def new_metrics_def)
  obtain r t obs m' where fin: "run_state (finish_scan ?A ?start ?info m ff (map mock_dtc codes')) s' = (Inr r, t)"
    and r: "sr_dtcs r = map mock_dtc codes'" "sr_vehicle r = ?info" "sr_obs r = Some obs" "obs_link obs = Some m'"
      "lm_failures m' = 0" "lm_confidence m' = 100"
    using run_mock_finish [OF assms s'(1) s'(2) s'(3), of ?start ?info ff "map mock_dtc codes'"] by auto
  have "run_state (scan ?A) (new_mock_adapter vin codes w) = (Inr r, t\<lparr>m_opened := False\<rparr>)"
    unfolding new scan_def scan_body_def
    using assms loop [unfolded s_def] fin
    by (simp add: mock_sels mock_open_def mock_sleep_def mock_identify_def mock_dtcs_def mock_close_def
        run_mock_ready endless_def del: freeze_loop.simps)
  then show ?thesis
    using r unfolding vin'_def codes'_def by fastforce
qed

theorem mock_scan_complete_witness:
  "\<exists>r t. run_state (scan (mock_adapter (bench (\<lambda>_. [])))) (new_mock_adapter [] [''P0171''] 0) = (Inr r, t)
    \<and> \<not> m_opened t \<and> sr_dtcs r = [mock_dtc ''P0171'']"
  using mock_scan_complete [of "bench (\<lambda>_. [])" "[]" "[''P0171'']" 0]
  by (auto simp: endless_def bench_def)

end
