(* ===== verification/Diagnosis.thy ===== *)
theory Diagnosis
  imports ObdTypes "HOL-Library.AList"
begin

text \<open>
  The rule engine of \<^verbatim>\<open>internal/diagnosis/engine.go\<close>: eight rules over the trouble codes, the
  live sample, the freeze frames, the link metrics and the fleet statistics, and the ranking
  of what they find. The one thing not defined here is the parsing of a float in a text by
  \<^verbatim>\<open>fmt.Sscanf\<close>, an argument of the rules that may meet a text.
\<close>

section \<open>Data\<close>

record finding =
  f_id :: string
  f_title :: string
  f_summary :: string
  f_confidence :: float64
  f_evidence :: "string list"
  f_related :: "string list"
  f_severity :: string

record co_occur =
  co_code :: string
  co_with :: int
  co_focus :: int
  co_rate :: float64

record diag_input =
  in_focus :: string
  in_dtcs :: "dtc list"
  in_obs :: "observations option"
  in_co :: "co_occur list"

type_synonym codes = "(string \<times> dtc) list"

section \<open>Helpers\<close>

definition has_any :: "codes \<Rightarrow> string list \<Rightarrow> bool" where
  "has_any cs list = list_ex (\<lambda>c. map_of cs (to_upper c) \<noteq> None) list"

definition related :: "codes \<Rightarrow> string list \<Rightarrow> string list" where
  "related cs list = filter (\<lambda>c. map_of cs c \<noteq> None) (map to_upper list)"

fun as_float :: "(string \<Rightarrow> float64 option) \<Rightarrow> gval \<Rightarrow> float64 option" where
  "as_float scan_f (VFloat64 x) = Some x"
| "as_float scan_f (VFloat32 x) = Some x"
| "as_float scan_f (VInt i) = Some (f64_of_int i)"
| "as_float scan_f (VInt64 i) = Some (f64_of_int i)"
| "as_float scan_f (VStr s) = scan_f s"
| "as_float scan_f _ = None"

definition f64_max :: "float64 \<Rightarrow> float64 \<Rightarrow> float64" where
  "f64_max x y = (if x < y then y else x)"

text \<open>The UTF-8 bytes of the two symbols in the evidence texts.\<close>

definition approx_sign :: string where
  "approx_sign = [CHR 0xE2, CHR 0x89, CHR 0x88]"

definition delta_sign :: string where
  "delta_sign = [CHR 0xCE, CHR 0x94]"

section \<open>The rules\<close>

definition trim_text :: "float64 \<Rightarrow> float64 \<Rightarrow> string" where
  "trim_text st lt = ''STFT B1='' @ fmt_fixed 1 st @ ''% LTFT B1='' @ fmt_fixed 1 lt @ ''%''"

definition trim_idle_vs_cruise :: "string \<Rightarrow> codes \<Rightarrow> live_snapshot option \<Rightarrow> finding list" where
  "trim_idle_vs_cruise focus cs live =
     (case live of None \<Rightarrow> [] | Some l \<Rightarrow>
       (case (stft_b1 l, ltft_b1 l) of
          (Some st, Some lt) \<Rightarrow>
            let r = (case rpm l of Some v \<Rightarrow> v | None \<Rightarrow> 0);
                speed = (case speed_kmh l of Some v \<Rightarrow> v | None \<Rightarrow> 0);
                idle = (r > 0 \<and> r < 1100 \<and> speed < 3);
                lean = (has_any cs [''P0171'', ''P0174''] \<or> focus = ''P0171'' \<or> focus = ''P0174'');
                at_rpm = trim_text st lt @ '' at ~'' @ fmt_fixed 0 r @ '' rpm''
            in (if lean \<and> idle \<and> st > 12 \<and> lt > 10
                then [\<lparr>f_id = ''trim.idle_lean_unmetered_air'',
                       f_title = ''Idle-lean pattern suggests unmetered air'',
                       f_summary = ''Short and long-term trims are strongly positive at idle. Prefer smoke-test / PCV / intake boots before replacing O2 sensors.'',
                       f_confidence = 78,
                       f_evidence = [at_rpm, ''Idle / near-zero speed sample''],
                       f_related = related cs [''P0171'', ''P0174''],
                       f_severity = ''likely''\<rparr>] else [])
             @ (if lean \<and> \<not> idle \<and> r > 1800 \<and> st > 10 \<and> lt > 10
                then [\<lparr>f_id = ''trim.cruise_lean_fuel_or_maf'',
                       f_title = ''Cruise-lean pattern suggests fuel delivery or MAF skew'',
                       f_summary = ''Positive trims persist off-idle. Prioritize MAF rationality and fuel pressure over vacuum leaks alone.'',
                       f_confidence = 72,
                       f_evidence = [at_rpm],
                       f_related = related cs [''P0171'', ''P0174''],
                       f_severity = ''likely''\<rparr>] else [])
             @ (if (focus = ''P0172'' \<or> has_any cs [''P0172'']) \<and> st < - 12 \<and> lt < - 8
                then [\<lparr>f_id = ''trim.rich_bias'',
                       f_title = ''Rich fuel-trim bias'',
                       f_summary = ''Strongly negative trims. Check fuel pressure regulator, leaking injectors, or contaminated MAF before chasing O2.'',
                       f_confidence = 70,
                       f_evidence = [trim_text st lt],
                       f_related = related cs [''P0172''],
                       f_severity = ''likely''\<rparr>] else [])
        | _ \<Rightarrow> []))"

definition maf_ratio :: "float64 \<Rightarrow> float64 \<Rightarrow> float64 option \<Rightarrow> float64" where
  "maf_ratio maf r load =
     (let idle = (case load of Some v \<Rightarrow> if v > 40 then 8 else 7 / 2 | None \<Rightarrow> 7 / 2)
      in f64_div maf (f64_max (f64_mul idle (f64_div r 800)) (1 / 2)))"

definition maf_plausibility :: "string \<Rightarrow> codes \<Rightarrow> live_snapshot option \<Rightarrow> finding list" where
  "maf_plausibility focus cs live =
     (case live of None \<Rightarrow> [] | Some l \<Rightarrow>
       (case (maf_gs l, rpm l) of
          (Some maf, Some r) \<Rightarrow>
            if r < 600 then []
            else
              let ratio = maf_ratio maf r (load_pct l);
                  leanish = (has_any cs [''P0171'', ''P0174''] \<or> focus = ''P0171'')
              in if leanish \<and> ratio < rnd64 (55 / 100)
                 then [\<lparr>f_id = ''maf.low_vs_rpm'',
                        f_title = ''MAF airflow low versus RPM expectation'',
                        f_summary = ''Reported mass air flow is low for engine speed. Contaminated/skewed MAF or intake metering issue is plausible.'',
                        f_confidence = 68,
                        f_evidence = [''MAF='' @ fmt_fixed 2 maf @ '' g/s at '' @ fmt_fixed 0 r @ '' rpm (ratio'' @ approx_sign
                                       @ fmt_fixed 2 ratio @ '' vs simple model)''],
                        f_related = related cs [''P0171'', ''P0174''],
                        f_severity = ''watch''\<rparr>]
                 else if leanish \<and> ratio > rnd64 (18 / 10)
                 then [\<lparr>f_id = ''maf.high_vs_rpm'',
                        f_title = ''MAF airflow high versus RPM expectation'',
                        f_summary = ''MAF reports more air than expected. Possible MAF over-reporting or unmetered air compensated oddly ''
                                     @ em_dash @ '' verify with speed-density cross-check.'',
                        f_confidence = 60,
                        f_evidence = [''MAF='' @ fmt_fixed 2 maf @ '' g/s at '' @ fmt_fixed 0 r @ '' rpm (ratio'' @ approx_sign
                                       @ fmt_fixed 2 ratio @ '')''],
                        f_related = related cs [''P0171'', ''P0174''],
                        f_severity = ''watch''\<rparr>]
                 else []
        | _ \<Rightarrow> []))"

definition o2_catalyst_proxy :: "string \<Rightarrow> codes \<Rightarrow> live_snapshot option \<Rightarrow> finding list" where
  "o2_catalyst_proxy focus cs live =
     (case live of None \<Rightarrow> [] | Some l \<Rightarrow>
       (case (o2_b1s1 l, o2_b1s2 l) of
          (Some s1, Some s2) \<Rightarrow>
            if focus \<noteq> ''P0420'' \<and> \<not> has_any cs [''P0420''] then []
            else
              let delta = \<bar>f64_sub s1 s2\<bar>
              in if delta < rnd64 (5 / 100) \<and> s2 > rnd64 (4 / 10) \<and> s2 < rnd64 (7 / 10)
                 then [\<lparr>f_id = ''o2.rear_tracks_front'',
                        f_title = ''Rear O2 mirrors front (catalyst efficiency soft signal)'',
                        f_summary = ''With P0420, similar front/rear O2 levels on a snapshot can support inefficient cat storage ''
                                     @ em_dash @ '' still confirm with waveform activity over time.'',
                        f_confidence = 55,
                        f_evidence = [''B1S1='' @ fmt_fixed 3 s1 @ ''V B1S2='' @ fmt_fixed 3 s2 @ ''V (|'' @ delta_sign @ ''|=''
                                       @ fmt_fixed 3 delta @ '')''],
                        f_related = related cs [''P0420''],
                        f_severity = ''watch''\<rparr>]
                 else []
        | _ \<Rightarrow> []))"

definition focus_frame :: "string \<Rightarrow> codes \<Rightarrow> observations \<Rightarrow> any_map option" where
  "focus_frame focus cs obs =
     (case map_of cs focus of
        Some d \<Rightarrow> (case dtc_freeze d of Some ff \<Rightarrow> Some ff | None \<Rightarrow> map_of (obs_freeze obs) focus)
      | None \<Rightarrow> map_of (obs_freeze obs) focus)"

definition freeze_frame_mismatch ::
    "(string \<Rightarrow> float64 option) \<Rightarrow> string \<Rightarrow> codes \<Rightarrow> observations option \<Rightarrow> finding list" where
  "freeze_frame_mismatch scan_f focus cs obs =
     (case obs of None \<Rightarrow> [] | Some ob \<Rightarrow>
       (case (obs_live ob, focus_frame focus cs ob) of
          (Some l, Some ff) \<Rightarrow>
            (case (case map_of ff ''rpm'' of Some v \<Rightarrow> as_float scan_f v | None \<Rightarrow> None, rpm l) of
               (Some a, Some b) \<Rightarrow>
                 if \<bar>f64_sub a b\<bar> > 800
                 then [\<lparr>f_id = ''ff.condition_mismatch'',
                        f_title = ''Freeze-frame condition differs from live sample'',
                        f_summary = ''The fault set under different speed/load than now. Treat as intermittent or condition-specific ''
                                     @ em_dash @ '' reproduce the freeze-frame regime before parts replacement.'',
                        f_confidence = 74,
                        f_evidence = [''freeze-frame RPM='' @ fmt_fixed 0 a @ '' vs live RPM='' @ fmt_fixed 0 b],
                        f_related = [focus],
                        f_severity = ''likely''\<rparr>]
                 else []
             | _ \<Rightarrow> [])
        | _ \<Rightarrow> []))"

definition cylinder_codes :: "string list" where
  "cylinder_codes = [''P0301'', ''P0302'', ''P0303'', ''P0304'', ''P0305'', ''P0306'']"

definition misfire_fingerprint :: "string \<Rightarrow> codes \<Rightarrow> live_snapshot option \<Rightarrow> finding list" where
  "misfire_fingerprint focus cs live =
     (if focus \<noteq> ''P0300'' \<and> \<not> has_any cs [''P0300''] then []
      else
        let cyl = filter (\<lambda>c. has_any cs [c]) cylinder_codes
        in if length cyl = 1
           then [\<lparr>f_id = ''misfire.single_cylinder'',
                  f_title = ''Single-cylinder misfire fingerprint'',
                  f_summary = ''Random misfire accompanies one cylinder-specific code. Swap coil/plug to that cylinder before condemning fuel or ECM.'',
                  f_confidence = 80,
                  f_evidence = [''Co-present cylinder DTC: '' @ join '', '' cyl],
                  f_related = ''P0300'' # cyl,
                  f_severity = ''likely''\<rparr>]
           else case live of
                  Some l \<Rightarrow>
                    (case stft_b1 l of
                       Some st \<Rightarrow>
                         if cyl = [] \<and> st > 12
                         then [\<lparr>f_id = ''misfire.with_lean_trims'',
                                f_title = ''Random misfire with lean trims'',
                                f_summary = ''P0300 without cylinder IDs plus lean trims often tracks fuel/air issues more than a single bad coil.'',
                                f_confidence = 66,
                                f_evidence = [''STFT B1='' @ fmt_fixed 1 st @ ''% with P0300''],
                                f_related = related cs [''P0300'', ''P0171''],
                                f_severity = ''watch''\<rparr>]
                         else []
                     | None \<Rightarrow> [])
                | None \<Rightarrow> [])"

definition link_fragility :: "link_metrics option \<Rightarrow> finding list" where
  "link_fragility link =
     (case link of None \<Rightarrow> [] | Some m \<Rightarrow>
        if lm_confidence m > 0 \<and> lm_confidence m < 55
        then [\<lparr>f_id = ''link.fragile'',
               f_title = ''Fragile OBD link during scan'',
               f_summary = ''Elevated command failures/timeouts. Soft hint of gateway sleep, adapter quality, or intermittent wiring ''
                            @ em_dash @ '' do not trust incomplete PID packs alone.'',
               f_confidence = 62,
               f_evidence = [''attempts='' @ show_int (lm_attempts m) @ '' failures='' @ show_int (lm_failures m)
                              @ '' timeouts='' @ show_int (lm_timeouts m) @ '' confidence='' @ fmt_fixed 0 (lm_confidence m)],
               f_related = [],
               f_severity = ''watch''\<rparr>]
        else [])"

definition module_voltage :: "live_snapshot option \<Rightarrow> finding list" where
  "module_voltage live =
     (case live of None \<Rightarrow> [] | Some l \<Rightarrow>
       (case module_volts l of None \<Rightarrow> [] | Some v \<Rightarrow>
          if v > 0 \<and> v < rnd64 (118 / 10)
          then [\<lparr>f_id = ''power.low_module_voltage'',
                 f_title = ''Low control-module voltage'',
                 f_summary = ''Module voltage under ~11.8V can cause ghost U-codes and flaky communications. Stabilize battery/charging before deep electrical diagnosis.'',
                 f_confidence = 76,
                 f_evidence = [''module_voltage='' @ fmt_fixed 2 v @ ''V''],
                 f_related = [],
                 f_severity = ''likely''\<rparr>]
          else []))"

definition strong_stat :: "co_occur \<Rightarrow> bool" where
  "strong_stat s \<longleftrightarrow> \<not> (co_rate s < 1 / 4 \<or> co_with s < 2)"

definition co_evidence :: "string \<Rightarrow> co_occur \<Rightarrow> string" where
  "co_evidence focus s =
     co_code s @ '' appeared in '' @ fmt_fixed 0 (f64_mul (co_rate s) 100) @ ''% of scans that also had '' @ focus
     @ '' (n='' @ show_int (co_with s) @ '')''"

definition co_occurrence_findings :: "string \<Rightarrow> co_occur list \<Rightarrow> finding list" where
  "co_occurrence_findings focus stats =
     (if focus = [] \<or> stats = [] then []
      else
        let strong = filter strong_stat (take 3 stats);
            top = map co_code strong
        in if top = [] then []
           else [\<lparr>f_id = ''fleet.cooccurrence'',
                  f_title = ''Network co-occurrence patterns'',
                  f_summary = ''Across your shop network, this code often appears with: '' @ join '', '' top
                               @ ''. Use as prior '' @ em_dash @ '' not proof.'',
                  f_confidence = 58,
                  f_evidence = map (co_evidence focus) strong,
                  f_related = focus # top,
                  f_severity = ''info''\<rparr>])"

section \<open>Ranking and analysis\<close>

text \<open>
  One round of the insertion sort: the finding at the end of the sorted prefix is swapped to the
  left as long as its left neighbour has a lower confidence. The prefix is held in reverse.
\<close>

fun sift_left :: "finding list \<Rightarrow> finding \<Rightarrow> finding list" where
  "sift_left [] x = [x]"
| "sift_left (p # ps) x = (if f_confidence p < f_confidence x then p # sift_left ps x else x # p # ps)"

definition rank :: "finding list \<Rightarrow> finding list" where
  "rank fs = rev (foldl sift_left [] fs)"

definition code_map :: "dtc list \<Rightarrow> codes" where
  "code_map ds = foldl (\<lambda>cs d. AList.update (to_upper (dtc_code d)) d cs) [] ds"

definition all_rules :: "(string \<Rightarrow> float64 option) \<Rightarrow> diag_input \<Rightarrow> finding list" where
  "all_rules scan_f inp =
     (let live = (case in_obs inp of Some ob \<Rightarrow> obs_live ob | None \<Rightarrow> None);
          link = (case in_obs inp of Some ob \<Rightarrow> obs_link ob | None \<Rightarrow> None);
          cs = code_map (in_dtcs inp);
          focus = to_upper (in_focus inp)
      in trim_idle_vs_cruise focus cs live
       @ maf_plausibility focus cs live
       @ o2_catalyst_proxy focus cs live
       @ freeze_frame_mismatch scan_f focus cs (in_obs inp)
       @ misfire_fingerprint focus cs live
       @ link_fragility link
       @ module_voltage live
       @ co_occurrence_findings focus (in_co inp))"

definition analyze :: "(string \<Rightarrow> float64 option) \<Rightarrow> diag_input \<Rightarrow> finding list" where
  "analyze scan_f inp = rank (all_rules scan_f inp)"

section \<open>Lemmas\<close>

lemma sift_left_insort: "sift_left ps x = insort_key f_confidence x ps"
  by (induction ps) auto

lemma foldl_insort: "foldl sift_left acc fs = fold (insort_key f_confidence) fs acc"
  by (induction fs arbitrary: acc) (simp_all add: sift_left_insort)

lemma rank_rev_sort: "rank fs = rev (sort_key f_confidence (rev fs))"
  by (simp add: rank_def foldl_insort sort_key_def foldr_conv_fold)

lemma rank_sort: "rank fs = sort_key (\<lambda>f. - f_confidence f) fs"
proof (rule sym, rule properties_for_sort_key)
  show "mset (rank fs) = mset fs"
    by (simp add: rank_rev_sort)
  show "filter (\<lambda>f. - f_confidence g = - f_confidence f) (rank fs)
      = filter (\<lambda>f. - f_confidence g = - f_confidence f) fs" for g
  proof -
    have "filter (\<lambda>f. f_confidence f = f_confidence g) (sort_key f_confidence (rev fs))
        = filter (\<lambda>f. f_confidence f = f_confidence g) (rev fs)"
      by (rule sort_key_stable)
    then have "filter (\<lambda>f. f_confidence f = f_confidence g) (rank fs) = filter (\<lambda>f. f_confidence f = f_confidence g) fs"
      by (simp add: rank_rev_sort rev_filter [symmetric])
    then show ?thesis by (simp add: eq_commute)
  qed
  have "sorted_wrt (\<lambda>f g. f_confidence g \<le> f_confidence f) (rank fs)"
    using sorted_sort_key [of f_confidence "rev fs"]
    by (simp add: rank_rev_sort sorted_wrt_rev sorted_map)
  then show "sorted (map (\<lambda>f. - f_confidence f) (rank fs))"
    by (simp add: sorted_map)
qed

lemma mset_rank: "mset (rank fs) = mset fs"
  by (simp add: rank_rev_sort)

lemma set_rank [simp]: "set (rank fs) = set fs"
  by (metis mset_rank set_mset_mset)

text \<open>What every rule yields: findings under its own ids, each filled in and with evidence.\<close>

definition finding_ok :: "finding \<Rightarrow> bool" where
  "finding_ok f \<longleftrightarrow> 55 \<le> f_confidence f \<and> f_confidence f \<le> 80 \<and> f_evidence f \<noteq> []
     \<and> f_severity f \<in> {''info'', ''watch'', ''likely''}"

definition rule_ok :: "string set \<Rightarrow> finding list \<Rightarrow> bool" where
  "rule_ok ids fs \<longleftrightarrow> length fs \<le> 1 \<and> (\<forall>f \<in> set fs. f_id f \<in> ids \<and> finding_ok f)"

definition rules_ok :: "string set \<Rightarrow> nat \<Rightarrow> finding list \<Rightarrow> bool" where
  "rules_ok ids n fs \<longleftrightarrow> length fs \<le> n \<and> distinct (map f_id fs) \<and> (\<forall>f \<in> set fs. f_id f \<in> ids \<and> finding_ok f)"

lemma rule_okI [intro]: "rule_ok ids []"
  "f_id f \<in> ids \<Longrightarrow> finding_ok f \<Longrightarrow> rule_ok ids [f]"
  by (simp_all add: rule_ok_def)

lemma rules_ok_rule: "rule_ok ids fs \<Longrightarrow> rules_ok ids 1 fs"
  by (cases fs) (auto simp: rule_ok_def rules_ok_def)

lemma rules_ok_append:
  "rule_ok A xs \<Longrightarrow> rules_ok B n ys \<Longrightarrow> A \<inter> B = {} \<Longrightarrow> rules_ok (A \<union> B) (Suc n) (xs @ ys)"
  by (cases xs) (auto simp: rule_ok_def rules_ok_def)

lemma rule_ok_trim:
  "rule_ok {''trim.idle_lean_unmetered_air'', ''trim.cruise_lean_fuel_or_maf'', ''trim.rich_bias''}
     (trim_idle_vs_cruise focus cs live)"
  by (auto simp: trim_idle_vs_cruise_def Let_def finding_ok_def rule_ok_def split: option.split)

lemma rule_ok_maf: "rule_ok {''maf.low_vs_rpm'', ''maf.high_vs_rpm''} (maf_plausibility focus cs live)"
  by (auto simp: maf_plausibility_def Let_def finding_ok_def rule_ok_def split: option.split)

lemma rule_ok_o2: "rule_ok {''o2.rear_tracks_front''} (o2_catalyst_proxy focus cs live)"
  by (auto simp: o2_catalyst_proxy_def Let_def finding_ok_def rule_ok_def split: option.split)

lemma rule_ok_ff: "rule_ok {''ff.condition_mismatch''} (freeze_frame_mismatch scan_f focus cs obs)"
  by (auto simp: freeze_frame_mismatch_def Let_def finding_ok_def rule_ok_def split: option.split)

lemma rule_ok_misfire:
  "rule_ok {''misfire.single_cylinder'', ''misfire.with_lean_trims''} (misfire_fingerprint focus cs live)"
  by (auto simp: misfire_fingerprint_def Let_def finding_ok_def rule_ok_def split: option.split)

lemma rule_ok_link: "rule_ok {''link.fragile''} (link_fragility link)"
  by (auto simp: link_fragility_def finding_ok_def rule_ok_def split: option.split)

lemma rule_ok_volts: "rule_ok {''power.low_module_voltage''} (module_voltage live)"
  by (auto simp: module_voltage_def finding_ok_def rule_ok_def split: option.split)

lemma rule_ok_co: "rule_ok {''fleet.cooccurrence''} (co_occurrence_findings focus stats)"
  by (auto simp: co_occurrence_findings_def Let_def finding_ok_def rule_ok_def)

lemmas rule_oks = rule_ok_trim rule_ok_maf rule_ok_o2 rule_ok_ff rule_ok_misfire rule_ok_link rule_ok_volts

lemma all_rules_ok: "\<exists>ids. rules_ok ids 8 (all_rules scan_f inp)"
proof -
  have "rules_ok ids (Suc (Suc (Suc (Suc (Suc (Suc (Suc 1))))))) (all_rules scan_f inp)"
    if ids: "ids = {''trim.idle_lean_unmetered_air'', ''trim.cruise_lean_fuel_or_maf'', ''trim.rich_bias''}
      \<union> ({''maf.low_vs_rpm'', ''maf.high_vs_rpm''} \<union> ({''o2.rear_tracks_front''} \<union> ({''ff.condition_mismatch''}
      \<union> ({''misfire.single_cylinder'', ''misfire.with_lean_trims''} \<union> ({''link.fragile''}
      \<union> ({''power.low_module_voltage''} \<union> {''fleet.cooccurrence''}))))))" for ids
    unfolding all_rules_def Let_def ids
    by (intro rules_ok_append rules_ok_rule [OF rule_ok_co] rule_oks) simp_all
  moreover have "Suc (Suc (Suc (Suc (Suc (Suc (Suc 1)))))) = 8" by simp
  ultimately show ?thesis by metis
qed

text \<open>Which codes a finding may name.\<close>

definition code_known :: "string \<Rightarrow> codes \<Rightarrow> string \<Rightarrow> bool" where
  "code_known focus cs c \<longleftrightarrow> c = focus \<or> map_of cs c \<noteq> None"

lemma related_known: "c \<in> set (related cs list) \<Longrightarrow> map_of cs c \<noteq> None"
  by (simp add: related_def)

lemma rules_known:
  "f \<in> set (trim_idle_vs_cruise focus cs live @ maf_plausibility focus cs live @ o2_catalyst_proxy focus cs live
      @ freeze_frame_mismatch scan_f focus cs obs @ link_fragility link @ module_voltage live)
   \<Longrightarrow> list_all (code_known focus cs) (f_related f)"
  unfolding list_all_iff code_known_def
  by (auto simp: trim_idle_vs_cruise_def maf_plausibility_def o2_catalyst_proxy_def freeze_frame_mismatch_def
      link_fragility_def module_voltage_def Let_def dest!: related_known split: option.splits if_splits)

lemma has_any_single: "has_any cs [c] \<longleftrightarrow> map_of cs (to_upper c) \<noteq> None"
  by (simp add: has_any_def)

lemma upper_cylinders: "to_upper ''P0300'' = ''P0300''" "c \<in> set cylinder_codes \<Longrightarrow> to_upper c = c"
  by (auto simp: cylinder_codes_def go_string)

lemma misfire_known:
  assumes "f \<in> set (misfire_fingerprint focus cs live)"
  shows "list_all (code_known focus cs) (f_related f)"
  using assms upper_cylinders unfolding list_all_iff code_known_def
  by (auto simp: misfire_fingerprint_def has_any_single Let_def dest!: related_known split: option.splits if_splits)

lemma map_of_code_map:
  "map_of (foldl (\<lambda>cs d. AList.update (to_upper (dtc_code d)) d cs) cs ds) c \<noteq> None
     \<longleftrightarrow> map_of cs c \<noteq> None \<or> c \<in> (\<lambda>d. to_upper (dtc_code d)) ` set ds"
  by (induction ds arbitrary: cs) (auto simp: update_conv')

text \<open>The rules look at a trouble code only through its upper-case text and its freeze frame.\<close>

definition same_codes :: "codes \<Rightarrow> codes \<Rightarrow> bool" where
  "same_codes cs cs' \<longleftrightarrow> (\<forall>c. map_option dtc_freeze (map_of cs c) = map_option dtc_freeze (map_of cs' c))"

lemma same_codes_None: "same_codes cs cs' \<Longrightarrow> (map_of cs c = None) = (map_of cs' c = None)"
  unfolding same_codes_def by (metis map_option_is_None)

lemma same_codes_has_any: "same_codes cs cs' \<Longrightarrow> has_any cs list = has_any cs' list"
  by (simp add: has_any_def same_codes_None)

lemma same_codes_related: "same_codes cs cs' \<Longrightarrow> related cs list = related cs' list"
  by (simp add: related_def same_codes_None)

lemma same_codes_frame:
  assumes "same_codes cs cs'"
  shows "focus_frame focus cs ob = focus_frame focus cs' ob"
proof -
  have "map_option dtc_freeze (map_of cs focus) = map_option dtc_freeze (map_of cs' focus)"
    using assms by (simp add: same_codes_def)
  then show ?thesis
    by (cases "map_of cs focus"; cases "map_of cs' focus") (simp_all add: focus_frame_def)
qed

lemma same_codes_rules:
  assumes "same_codes cs cs'"
  shows "trim_idle_vs_cruise focus cs live = trim_idle_vs_cruise focus cs' live"
    and "maf_plausibility focus cs live = maf_plausibility focus cs' live"
    and "o2_catalyst_proxy focus cs live = o2_catalyst_proxy focus cs' live"
    and "freeze_frame_mismatch scan_f focus cs obs = freeze_frame_mismatch scan_f focus cs' obs"
    and "misfire_fingerprint focus cs live = misfire_fingerprint focus cs' live"
  unfolding trim_idle_vs_cruise_def maf_plausibility_def o2_catalyst_proxy_def freeze_frame_mismatch_def
    misfire_fingerprint_def
  by (simp_all only: same_codes_has_any [OF assms] same_codes_related [OF assms] same_codes_frame [OF assms])

lemma same_codes_update:
  "same_codes cs cs' \<Longrightarrow> dtc_freeze d = dtc_freeze d' \<Longrightarrow> same_codes (AList.update k d cs) (AList.update k d' cs')"
  by (simp add: same_codes_def update_conv')

lemma same_codes_map:
  assumes "\<And>d. to_upper (dtc_code (g d)) = to_upper (dtc_code d) \<and> dtc_freeze (g d) = dtc_freeze d"
  shows "same_codes (code_map (map g ds)) (code_map ds)"
proof -
  have "same_codes cs cs' \<Longrightarrow>
      same_codes (foldl (\<lambda>cs d. AList.update (to_upper (dtc_code d)) d cs) cs (map g ds))
        (foldl (\<lambda>cs d. AList.update (to_upper (dtc_code d)) d cs) cs' ds)" for cs cs'
    using assms by (induction ds arbitrary: cs cs') (simp_all add: same_codes_update)
  then show ?thesis by (simp add: code_map_def same_codes_def)
qed

section \<open>Properties\<close>

text \<open>
  C28. The hand-written insertion sort is a stable sort by descending confidence: the analysis is
  the findings of the rules, all of them and nothing else, sorted so, and findings of the same
  confidence keep the order of the rules.
\<close>
theorem analyze_stable_sort:
  "analyze scan_f inp = sort_key (\<lambda>f. - f_confidence f) (all_rules scan_f inp)"
  by (simp add: analyze_def rank_sort)

text \<open>
  An analysis never repeats itself or contradicts itself by giving two findings of one rule:
  its ids are distinct and at most eight, one per rule; every finding has a confidence between
  55 and 80, one of the three severities and some evidence.
\<close>
theorem analyze_well_formed:
  "distinct (map f_id (analyze scan_f inp)) \<and> length (analyze scan_f inp) \<le> 8
   \<and> list_all finding_ok (analyze scan_f inp)"
proof -
  obtain ids where ids: "rules_ok ids 8 (all_rules scan_f inp)"
    using all_rules_ok by blast
  then have "distinct (map f_id (rank (all_rules scan_f inp)))"
    unfolding rules_ok_def by (metis mset_map mset_rank mset_eq_imp_distinct_iff)
  moreover have "length (rank (all_rules scan_f inp)) = length (all_rules scan_f inp)"
    by (metis mset_rank size_mset)
  ultimately show ?thesis
    using ids by (simp add: analyze_def rules_ok_def list_all_iff)
qed

text \<open>
  C35. An analysis is grounded: every code that a finding relates to is the focus code, a code of
  the vehicle, or, for the fleet rule, a code of the statistics given; no rule makes up a code.
\<close>
theorem analyze_grounded:
  "list_all (\<lambda>f. list_all (\<lambda>c.
     c = to_upper (in_focus inp) \<or> c \<in> (\<lambda>d. to_upper (dtc_code d)) ` set (in_dtcs inp)
     \<or> f_id f = ''fleet.cooccurrence'' \<and> c \<in> co_code ` set (take 3 (in_co inp))) (f_related f)) (analyze scan_f inp)"
  unfolding list_all_iff
proof (intro ballI)
  fix f c
  assume "f \<in> set (analyze scan_f inp)" and c: "c \<in> set (f_related f)"
  then have f: "f \<in> set (all_rules scan_f inp)" by (simp add: analyze_def)
  let ?focus = "to_upper (in_focus inp)" and ?cs = "code_map (in_dtcs inp)"
  have known: "code_known ?focus ?cs c \<Longrightarrow> c = ?focus \<or> c \<in> (\<lambda>d. to_upper (dtc_code d)) ` set (in_dtcs inp)"
    using map_of_code_map [of "[]" "in_dtcs inp" c] by (auto simp: code_known_def code_map_def)
  consider "list_all (code_known ?focus ?cs) (f_related f)" | "f \<in> set (co_occurrence_findings ?focus (in_co inp))"
    using f rules_known [of f ?focus ?cs] misfire_known [of f ?focus ?cs]
    by (fastforce simp: all_rules_def Let_def)
  then show "c = ?focus \<or> c \<in> (\<lambda>d. to_upper (dtc_code d)) ` set (in_dtcs inp)
     \<or> f_id f = ''fleet.cooccurrence'' \<and> c \<in> co_code ` set (take 3 (in_co inp))"
  proof cases
    case 1
    then show ?thesis using c known by (auto simp: list_all_iff)
  next
    case 2
    then show ?thesis using c by (auto simp: co_occurrence_findings_def Let_def split: if_splits)
  qed
qed

text \<open>
  Letter case does not matter: with the focus code and the trouble codes in any case, the
  analysis is the same.
\<close>
theorem analyze_case_insensitive:
  "analyze scan_f (inp\<lparr>in_focus := to_lower (in_focus inp),
      in_dtcs := map (\<lambda>d. d\<lparr>dtc_code := to_lower (dtc_code d)\<rparr>) (in_dtcs inp)\<rparr>)
   = analyze scan_f inp"
proof -
  have "same_codes (code_map (map (\<lambda>d. d\<lparr>dtc_code := to_lower (dtc_code d)\<rparr>) (in_dtcs inp))) (code_map (in_dtcs inp))"
    by (rule same_codes_map) simp
  note same = same_codes_rules [OF this]
  show ?thesis
    by (simp add: analyze_def all_rules_def Let_def same)
qed

end
