(* ===== verification/Market.thy ===== *)
theory Market
  imports GoStrings
begin

text \<open>
  The market scope of \<^verbatim>\<open>internal/market/nigeria.go\<close>: five makes, model years from 2010. Which
  vehicles get recall data depends on it.
\<close>

definition RegionCode :: string where "RegionCode = ''NG''"
definition MinModelYear :: int where "MinModelYear = 2010"
definition MaxSeedYear :: int where "MaxSeedYear = 2024"
definition SeedYearStep :: int where "SeedYearStep = 2"

lemmas market_consts = RegionCode_def MinModelYear_def MaxSeedYear_def SeedYearStep_def

definition top_makes :: "string list" where
  "top_makes = [''Toyota'', ''Honda'', ''Hyundai'', ''Kia'', ''Mercedes-Benz'']"

fun normalize :: "string \<Rightarrow> string" where
  "normalize [] = []"
| "normalize (c # s) =
     (if c = CHR '' '' \<or> c = CHR ''-'' \<or> c = CHR ''_'' then normalize s
      else up c # normalize s)"

definition equal_fold_trim :: "string \<Rightarrow> string \<Rightarrow> bool" where
  "equal_fold_trim a b \<longleftrightarrow> normalize a = normalize b"

definition is_top_make :: "string \<Rightarrow> bool" where
  "is_top_make mk = list_ex (\<lambda>m. equal_fold_trim m mk) top_makes"

definition in_year_scope :: "int \<Rightarrow> bool" where
  "in_year_scope year \<longleftrightarrow> year \<ge> MinModelYear"

definition in_market_scope :: "string \<Rightarrow> int \<Rightarrow> bool" where
  "in_market_scope mk year \<longleftrightarrow> is_top_make mk \<and> in_year_scope year"

section \<open>Lemmas\<close>

lemma normalize_filter: "normalize s = to_upper (filter (\<lambda>c. c \<notin> {CHR '' '', CHR ''-'', CHR ''_''}) s)"
  by (induction s) (auto simp: to_upper_def)

lemma up_separator: "up c \<in> {CHR '' '', CHR ''-'', CHR ''_''} \<longleftrightarrow> c \<in> {CHR '' '', CHR ''-'', CHR ''_''}"
  by (auto simp: code_of_eq_iff [symmetric] code_of_up is_lower_code) (auto simp: code_of_def)

lemma normalize_idem [simp]: "normalize (normalize s) = normalize s"
  unfolding normalize_filter to_upper_def filter_map comp_def up_separator
  by (simp add: comp_def)

lemma normalize_up: "normalize (to_upper s) = normalize s"
  unfolding normalize_filter to_upper_def filter_map comp_def up_separator
  by (simp add: comp_def)

text \<open>The set of spellings that are in scope.\<close>

lemma is_top_make_iff:
  "is_top_make mk \<longleftrightarrow> normalize mk \<in> {''TOYOTA'', ''HONDA'', ''HYUNDAI'', ''KIA'', ''MERCEDESBENZ''}"
proof -
  have names: "map normalize top_makes = [''TOYOTA'', ''HONDA'', ''HYUNDAI'', ''KIA'', ''MERCEDESBENZ'']"
    by code_simp
  have "is_top_make mk \<longleftrightarrow> normalize mk \<in> set (map normalize top_makes)"
    unfolding is_top_make_def equal_fold_trim_def list_ex_iff set_map image_iff by metis
  then show ?thesis
    unfolding names list.set .
qed

section \<open>Properties\<close>

text \<open>
  Whether a vehicle is in the market scope depends on its make only up to letter case, blanks,
  hyphens and underscores, so that the names of the catalog (\<^verbatim>\<open>MERCEDES-BENZ\<close>) and those of a VIN
  decoder (\<^verbatim>\<open>Mercedes Benz\<close>) are the same make; and the scope is exactly the five makes from model year 2010.
\<close>
theorem market_scope_spelling:
  "in_market_scope (to_upper mk) year = in_market_scope mk year
   \<and> in_market_scope (filter (\<lambda>c. c \<notin> {CHR '' '', CHR ''-'', CHR ''_''}) mk) year = in_market_scope mk year
   \<and> (in_market_scope mk year \<longleftrightarrow>
        2010 \<le> year \<and> normalize mk \<in> {''TOYOTA'', ''HONDA'', ''HYUNDAI'', ''KIA'', ''MERCEDESBENZ''})"
proof -
  have "normalize (filter (\<lambda>c. c \<notin> {CHR '' '', CHR ''-'', CHR ''_''}) mk) = normalize mk"
    by (simp add: normalize_filter)
  then show ?thesis
    by (auto simp: in_market_scope_def is_top_make_iff normalize_up in_year_scope_def MinModelYear_def)
qed

end
