(* ===== verification/StoreTypes.thy ===== *)
theory StoreTypes
  imports ObdTypes "HOL-Library.List_Lexorder"
begin

text \<open>
  The data that \<^verbatim>\<open>internal/store\<close> keeps and returns. A UUID is a number, made fresh by a
  counter where the code calls \<^verbatim>\<open>uuid.New\<close> or the database makes one; the text form of a UUID
  belongs to the uuid package and is an argument where the code uses it.
\<close>

type_synonym uuid = nat

text \<open>A point in time, ordered by the clock that made it.\<close>

datatype timestamp = Tick (ticks: nat)

instantiation timestamp :: linorder
begin

definition less_eq_timestamp :: "timestamp \<Rightarrow> timestamp \<Rightarrow> bool" where
  "less_eq_timestamp a b \<longleftrightarrow> ticks a \<le> ticks b"

definition less_timestamp :: "timestamp \<Rightarrow> timestamp \<Rightarrow> bool" where
  "less_timestamp a b \<longleftrightarrow> ticks a < ticks b"

instance
  by intro_classes (auto simp: less_eq_timestamp_def less_timestamp_def timestamp.expand)

end

text \<open>Errors of the store.\<close>

datatype store_error =
    ErrNotFound | ErrEmailTaken | ErrInvalidCreds | ErrInactive | ErrRegisterClosed | ErrBadInvite
  | StoreMsg string
  | CheckViolation string
  | UniqueViolation string

record technician =
  t_id :: uuid
  t_org :: "uuid option"
  t_email :: string
  t_hash :: string
  t_name :: string
  t_role :: string
  t_active :: bool

record organization =
  o_id :: uuid
  o_name :: string
  o_network :: string
  o_invite :: string

record create_scan_input =
  ci_tech :: string
  ci_org :: string
  ci_vin :: string
  ci_link :: string
  ci_adapter :: string
  ci_protocol :: string
  ci_notes :: string
  ci_dtcs :: "dtc list"
  ci_obs :: "observations option"

record scan_record =
  sc_id :: uuid
  sc_vehicle :: uuid
  sc_vin :: string
  sc_tech :: uuid
  sc_org :: uuid
  sc_link :: string
  sc_adapter :: string
  sc_protocol :: string
  sc_started :: timestamp
  sc_finished :: "timestamp option"
  sc_dtcs :: "dtc list"
  sc_obs :: "observations option"

record knowledge_article =
  ka_code :: string
  ka_scope :: string
  ka_title :: string
  ka_summary :: string
  ka_causes :: "string list"
  ka_tests :: "string list"
  ka_parts :: "string list"

record vehicle_enrichment =
  ve_vehicle :: uuid
  ve_make :: string
  ve_model :: string
  ve_year :: int
  ve_body :: string
  ve_fuel :: string
  ve_disp :: string
  ve_cyl :: string
  ve_drive :: string
  ve_engine :: string
  ve_in_scope :: bool
  ve_source :: string
  ve_at :: timestamp

record recall_row =
  rc_make :: string
  rc_model :: string
  rc_year :: int
  rc_campaign :: string
  rc_component :: string
  rc_summary :: string
  rc_consequence :: string
  rc_remedy :: string
  rc_date :: string
  rc_source :: string

record co_occur_row =
  cr_code :: string
  cr_with :: int
  cr_focus :: int
  cr_rate :: float64

record history_hit =
  hh_scan :: uuid
  hh_vin :: string
  hh_link :: string
  hh_started :: timestamp
  hh_status :: string

record explanation =
  ex_code :: string
  ex_generic :: string
  ex_article :: "knowledge_article option"
  ex_history :: "history_hit list"
  ex_vehicle :: "vehicle_enrichment option"
  ex_recalls :: "recall_row list"
  ex_note :: string
  ex_obs :: "observations option"
  ex_co :: "co_occur_row list"

end
