(* ===== verification/Auth.thy ===== *)
theory Auth
  imports StoreTypes "HOL-Library.Countable"
begin

text \<open>
  \<^verbatim>\<open>internal/auth/auth.go\<close>: roles, password rules and tokens. The bcrypt and JWT packages are the
  record \<open>crypto\<close>; what the program relies on from them is \<open>crypto_law\<close>.
\<close>

definition RoleSuperAdmin :: string where "RoleSuperAdmin = ''super_admin''"
definition RoleOrgAdmin :: string where "RoleOrgAdmin = ''org_admin''"
definition RoleTechnician :: string where "RoleTechnician = ''technician''"

lemmas role_defs = RoleSuperAdmin_def RoleOrgAdmin_def RoleTechnician_def

record claims =
  cl_tech :: string
  cl_org :: string
  cl_email :: string
  cl_role :: string
  cl_exp :: nat
  cl_iat :: nat
  cl_jti :: string

record manager =
  mg_secret :: string
  mg_ttl :: int

text \<open>
  bcrypt: the hash of a password with a salt, or an error (it refuses long passwords), and the
  comparison. JWT: signing with HS256; the algorithm and the claims that a token says it has;
  and whether its signature and its times are good.
\<close>

record crypto =
  bc_hash :: "nat \<Rightarrow> string \<Rightarrow> gerr + string"
  bc_check :: "string \<Rightarrow> string \<Rightarrow> bool"
  jwt_sign :: "string \<Rightarrow> claims \<Rightarrow> string"
  jwt_parts :: "string \<Rightarrow> (string \<times> claims) option"
  jwt_valid :: "string \<Rightarrow> nat \<Rightarrow> string \<Rightarrow> bool"

definition crypto_law :: "crypto \<Rightarrow> bool" where
  "crypto_law X \<longleftrightarrow>
     (\<forall>salt pw h pw'. bc_hash X salt pw = Inr h \<longrightarrow> (bc_check X h pw' \<longleftrightarrow> pw' = pw))
   \<and> (\<forall>s c. jwt_parts X (jwt_sign X s c) = Some (''HS256'', c))
   \<and> (\<forall>s c now. jwt_valid X s now (jwt_sign X s c) \<longleftrightarrow> now < cl_exp c)
   \<and> (\<forall>s now tok c. jwt_valid X s now tok \<longrightarrow> jwt_parts X tok = Some (''HS256'', c) \<longrightarrow> tok = jwt_sign X s c)"

definition new_manager :: "string \<Rightarrow> int \<Rightarrow> gerr + manager" where
  "new_manager secret ttl =
     (if trim_space secret = [] then Inl (Msg ''JWT_SECRET is required'')
      else Inr \<lparr>mg_secret = secret, mg_ttl = (if ttl \<le> 0 then 24 * 60 * 60 * 1000 else ttl)\<rparr>)"

definition hash_password :: "crypto \<Rightarrow> nat \<Rightarrow> string \<Rightarrow> gerr + string" where
  "hash_password X salt pw =
     (if length pw < 8 then Inl (Msg ''password must be at least 8 characters'')
      else bc_hash X salt pw)"

definition check_password :: "crypto \<Rightarrow> string \<Rightarrow> string \<Rightarrow> bool" where
  "check_password X h pw = bc_check X h pw"

text \<open>\<^verbatim>\<open>NewNumericDate\<close> cuts a time to the second.\<close>

definition numeric_date :: "int \<Rightarrow> nat" where
  "numeric_date t = nat (t div 1000 * 1000)"

definition issue :: "crypto \<Rightarrow> manager \<Rightarrow> nat \<Rightarrow> string \<Rightarrow> string \<Rightarrow> string \<Rightarrow> string \<Rightarrow> string \<Rightarrow> string \<times> int" where
  "issue X m now jti tech org email role =
     (let e = int now + mg_ttl m
      in (jwt_sign X (mg_secret m)
            \<lparr>cl_tech = tech, cl_org = org, cl_email = email, cl_role = role,
             cl_exp = numeric_date e, cl_iat = numeric_date (int now), cl_jti = jti\<rparr>, e))"

definition parse_token :: "crypto \<Rightarrow> manager \<Rightarrow> nat \<Rightarrow> string \<Rightarrow> gerr + claims" where
  "parse_token X m now tok =
     (case jwt_parts X tok of
        None \<Rightarrow> Inl (Msg ''token is malformed'')
      | Some (alg, c) \<Rightarrow>
          if alg \<noteq> ''HS256'' then Inl (Msg ''unexpected signing method'')
          else if \<not> jwt_valid X (mg_secret m) now tok then Inl (Msg ''invalid token'')
          else Inr c)"

definition random_invite_code :: "string \<Rightarrow> string" where
  "random_invite_code uuid_str = to_upper (take 10 (remove_all ''-'' uuid_str))"

definition bootstrap_from_env :: "(string \<Rightarrow> string) \<Rightarrow> string \<times> string \<times> string \<times> bool" where
  "bootstrap_from_env getenv =
     (let email = trim_space (getenv ''BOOTSTRAP_ADMIN_EMAIL'');
          password = getenv ''BOOTSTRAP_ADMIN_PASSWORD'';
          name0 = trim_space (getenv ''BOOTSTRAP_ADMIN_NAME'');
          name = (if name0 = [] then ''Super Admin'' else name0)
      in (email, password, name, email \<noteq> [] \<and> password \<noteq> []))"

section \<open>Lemmas\<close>

lemma crypto_lawD:
  assumes "crypto_law X"
  shows "bc_hash X salt pw = Inr h \<Longrightarrow> bc_check X h pw' \<longleftrightarrow> pw' = pw"
    and "jwt_parts X (jwt_sign X s c) = Some (''HS256'', c)"
    and "jwt_valid X s now (jwt_sign X s c) \<longleftrightarrow> now < cl_exp c"
    and "jwt_valid X s now tok \<Longrightarrow> jwt_parts X tok = Some (''HS256'', c) \<Longrightarrow> tok = jwt_sign X s c"
  using assms by (simp_all add: crypto_law_def)

lemma parse_sign:
  "crypto_law X \<Longrightarrow> parse_token X m now (jwt_sign X (mg_secret m) c) = (if now < cl_exp c then Inr c else Inl (Msg ''invalid token''))"
  by (simp add: parse_token_def crypto_lawD)

lemma parse_token_Inr:
  "crypto_law X \<Longrightarrow> parse_token X m now tok = Inr c \<Longrightarrow> tok = jwt_sign X (mg_secret m) c \<and> now < cl_exp c"
  using crypto_lawD(3,4) [of X]
  by (fastforce simp: parse_token_def split: option.splits prod.splits if_splits)

text \<open>
  A stand-in for the two packages that obeys the law, for examples: a token is the number of the
  secret and the claims, and a hash is the password.
\<close>

definition claim_tuple :: "claims \<Rightarrow> string \<times> string \<times> string \<times> string \<times> nat \<times> nat \<times> string" where
  "claim_tuple c = (cl_tech c, cl_org c, cl_email c, cl_role c, cl_exp c, cl_iat c, cl_jti c)"

definition claim_of :: "string \<times> string \<times> string \<times> string \<times> nat \<times> nat \<times> string \<Rightarrow> claims" where
  "claim_of t = (case t of (a, b, c, d, e, f, g) \<Rightarrow>
     \<lparr>cl_tech = a, cl_org = b, cl_email = c, cl_role = d, cl_exp = e, cl_iat = f, cl_jti = g\<rparr>)"

definition plain_sign :: "string \<Rightarrow> claims \<Rightarrow> string" where
  "plain_sign secret c = show_nat (to_nat (secret, claim_tuple c))"

definition plain_read :: "string \<Rightarrow> string \<times> claims" where
  "plain_read tok = map_prod id claim_of (from_nat (read_nat tok))"

definition plain_crypto :: crypto where
  "plain_crypto =
     \<lparr>bc_hash = (\<lambda>_ pw. Inr pw), bc_check = (\<lambda>h pw. h = pw), jwt_sign = plain_sign,
      jwt_parts = (\<lambda>tok. Some (''HS256'', snd (plain_read tok))),
      jwt_valid = (\<lambda>secret now tok. plain_sign secret (snd (plain_read tok)) = tok \<and> now < cl_exp (snd (plain_read tok)))\<rparr>"

lemma plain_read_sign: "plain_read (plain_sign secret c) = (secret, c)"
  by (simp add: plain_read_def plain_sign_def read_show_nat claim_tuple_def claim_of_def)

lemma plain_crypto_law: "crypto_law plain_crypto"
  by (auto simp: crypto_law_def plain_crypto_def plain_read_sign)

lemma numeric_date_le: "int (numeric_date t) \<le> max 0 t"
  by (auto simp: numeric_date_def max_def)

section \<open>Properties\<close>



end
