(* ===== verification/StoreDb.thy ===== *)
theory StoreDb
  imports Auth Actions "HOL-Library.AList"
begin

text \<open>
  The database of \<^verbatim>\<open>internal/store/store.go\<close> as its tables, and the operations on shops, technicians
  and settings. A statement runs or violates a constraint of \<^verbatim>\<open>migrations/001_init.sql\<close> (unique columns,
  checks, references), and a transaction that fails leaves the tables as they were. Tables keep
  the order of insertion, which is the order of \<^verbatim>\<open>created_at\<close>. A server that cannot be
  reached is not modelled.
\<close>

record vehicle =
  v_id :: uuid
  v_vin :: string
  v_make :: "string option"
  v_model :: "string option"
  v_year :: "int option"
  v_engine :: "string option"

record session_row =
  ss_id :: uuid
  ss_vehicle :: uuid
  ss_tech :: uuid
  ss_org :: uuid
  ss_link :: string
  ss_adapter :: string
  ss_protocol :: string
  ss_started :: timestamp
  ss_finished :: "timestamp option"
  ss_obs :: "observations option"

record dtc_row =
  dr_session :: uuid
  dr_code :: string
  dr_status :: string
  dr_freeze :: "any_map option"

record job_row =
  j_id :: uuid
  j_kind :: string
  j_payload :: any_map
  j_status :: string
  j_attempts :: nat
  j_error :: "string option"
  j_created :: timestamp
  j_run_after :: timestamp

record market_model =
  mm_make :: string
  mm_nhtsa :: string
  mm_model :: string
  mm_nhtsa_model :: string
  mm_from :: int
  mm_to :: "int option"

record db =
  orgs :: "organization list"
  techs :: "technician list"
  settings :: "(string \<times> string) list"
  vehicles :: "vehicle list"
  sessions :: "session_row list"
  dtc_rows :: "dtc_row list"
  articles :: "knowledge_article list"
  enrichments :: "vehicle_enrichment list"
  veh_recalls :: "(uuid \<times> recall_row) list"
  recall_cat :: "recall_row list"
  market :: "market_model list"
  jobs :: "job_row list"
  next_id :: uuid
  clock :: timestamp

type_synonym 'a store_op = "(db, store_error + 'a) state"

definition fresh_id :: "(db, uuid) state" where
  "fresh_id = do {
     i \<leftarrow> reads next_id;
     modify (\<lambda>d. d\<lparr>next_id := Suc i\<rparr>);
     ret i
   }"

text \<open>A transaction: after an error the tables are those from before; ids are used up all the same.\<close>

definition transaction :: "'a store_op \<Rightarrow> 'a store_op" where
  "transaction m = State (\<lambda>d. case run_state m d of
     (Inl e, d') \<Rightarrow> (Inl e, d\<lparr>next_id := next_id d'\<rparr>) | (Inr x, d') \<Rightarrow> (Inr x, d'))"

section \<open>Statements\<close>

definition valid_role :: "string \<Rightarrow> bool" where
  "valid_role r \<longleftrightarrow> r \<in> {''super_admin'', ''org_admin'', ''technician''}"

definition insert_technician :: "uuid option \<Rightarrow> string \<Rightarrow> string \<Rightarrow> string \<Rightarrow> string \<Rightarrow> technician store_op" where
  "insert_technician org email h name role = do {
     i \<leftarrow> fresh_id;
     d \<leftarrow> reads (\<lambda>d. d);
     if email \<in> set (map t_email (techs d)) then ret (Inl (UniqueViolation ''technicians_email_key''))
     else if \<not> valid_role role then ret (Inl (CheckViolation ''technicians_role_check''))
     else if role \<noteq> RoleSuperAdmin \<and> org = None then ret (Inl (CheckViolation ''technicians_org_required''))
     else if (case org of Some x \<Rightarrow> x \<notin> set (map o_id (orgs d)) | None \<Rightarrow> False)
     then ret (Inl (CheckViolation ''technicians_org_id_fkey''))
     else
       let t = \<lparr>t_id = i, t_org = org, t_email = email, t_hash = h, t_name = name, t_role = role, t_active = True\<rparr>
       in do {
         modify (\<lambda>d. d\<lparr>techs := techs d @ [t]\<rparr>);
         ret (Inr (t\<lparr>t_hash := []\<rparr>))
       }
   }"

definition insert_organization :: "organization \<Rightarrow> unit store_op" where
  "insert_organization org = do {
     d \<leftarrow> reads (\<lambda>d. d);
     if o_id org \<in> set (map o_id (orgs d)) then ret (Inl (UniqueViolation ''organizations_pkey''))
     else if o_invite org \<in> set (map o_invite (orgs d)) then ret (Inl (UniqueViolation ''organizations_invite_code_key''))
     else do {
       modify (\<lambda>d. d\<lparr>orgs := orgs d @ [org]\<rparr>);
       ret (Inr ())
     }
   }"

section \<open>Settings and accounts\<close>

definition setting :: "string \<Rightarrow> string store_op" where
  "setting key = do {
     v \<leftarrow> reads (\<lambda>d. map_of (settings d) key);
     ret (case v of Some x \<Rightarrow> Inr x | None \<Rightarrow> Inl ErrNotFound)
   }"

definition set_setting :: "string \<Rightarrow> string \<Rightarrow> unit store_op" where
  "set_setting key val = do {
     modify (\<lambda>d. d\<lparr>settings := AList.update key val (settings d)\<rparr>);
     ret (Inr ())
   }"

definition count_by_role :: "string \<Rightarrow> nat store_op" where
  "count_by_role role = do {
     n \<leftarrow> reads (\<lambda>d. length (filter (\<lambda>t. t_role t = role) (techs d)));
     ret (Inr n)
   }"

definition gerr_store :: "gerr \<Rightarrow> store_error" where
  "gerr_store e = StoreMsg (err_text e)"

definition ensure_bootstrap_admin :: "crypto \<Rightarrow> nat \<Rightarrow> string \<Rightarrow> string \<Rightarrow> string \<Rightarrow> technician option store_op" where
  "ensure_bootstrap_admin X salt email password name = do {
     n \<leftarrow> count_by_role RoleSuperAdmin;
     case n of
       Inl e \<Rightarrow> ret (Inl e)
     | Inr k \<Rightarrow>
         if k > 0 then ret (Inr None)
         else case hash_password X salt password of
                Inl e \<Rightarrow> ret (Inl (gerr_store e))
              | Inr h \<Rightarrow> do {
                  r \<leftarrow> insert_technician None email h name RoleSuperAdmin;
                  ret (map_sum id Some r)
                }
   }"

definition get_technician_by_email :: "string \<Rightarrow> technician store_op" where
  "get_technician_by_email email = do {
     t \<leftarrow> reads (\<lambda>d. find (\<lambda>t. t_email t = email) (techs d));
     ret (case t of Some x \<Rightarrow> Inr x | None \<Rightarrow> Inl ErrNotFound)
   }"

definition get_technician :: "uuid \<Rightarrow> technician store_op" where
  "get_technician i = do {
     t \<leftarrow> reads (\<lambda>d. find (\<lambda>t. t_id t = i) (techs d));
     ret (case t of Some x \<Rightarrow> Inr x | None \<Rightarrow> Inl ErrNotFound)
   }"

definition authenticate :: "crypto \<Rightarrow> string \<Rightarrow> string \<Rightarrow> technician store_op" where
  "authenticate X email password = do {
     r \<leftarrow> get_technician_by_email email;
     case r of
       Inl e \<Rightarrow> ret (Inl (if e = ErrNotFound then ErrInvalidCreds else e))
     | Inr t \<Rightarrow>
         if \<not> t_active t then ret (Inl ErrInactive)
         else if \<not> check_password X (t_hash t) password then ret (Inl ErrInvalidCreds)
         else ret (Inr t)
   }"

record register_input =
  ri_email :: string
  ri_password :: string
  ri_name :: string
  ri_shop :: string
  ri_invite :: string

definition is_unique_violation :: "store_error \<Rightarrow> bool" where
  "is_unique_violation e = (case e of UniqueViolation _ \<Rightarrow> True | _ \<Rightarrow> False)"

text \<open>The shop that a new technician joins or founds, and the role that goes with it.\<close>

definition join_or_found :: "(uuid \<Rightarrow> string) \<Rightarrow> bool \<Rightarrow> register_input \<Rightarrow> (organization \<times> string) store_op" where
  "join_or_found invite_for require_invite inp =
     (if ri_invite inp \<noteq> []
      then do {
        org \<leftarrow> reads (\<lambda>d. find (\<lambda>x. o_invite x = ri_invite inp) (orgs d));
        ret (case org of Some x \<Rightarrow> Inr (x, RoleTechnician) | None \<Rightarrow> Inl ErrBadInvite)
      }
      else if require_invite then ret (Inl ErrBadInvite)
      else if ri_shop inp = [] then ret (Inl (StoreMsg ''shop_name is required when not using an invite code''))
      else do {
        i \<leftarrow> fresh_id;
        j \<leftarrow> fresh_id;
        let org = \<lparr>o_id = i, o_name = ri_shop inp, o_network = invite_for j, o_invite = invite_for j\<rparr>
        in do {
          r \<leftarrow> insert_organization org;
          ret (case r of Inl e \<Rightarrow> Inl e | Inr _ \<Rightarrow> Inr (org, RoleOrgAdmin))
        }
      })"

definition register_technician ::
    "crypto \<Rightarrow> (uuid \<Rightarrow> string) \<Rightarrow> nat \<Rightarrow> register_input \<Rightarrow> (technician \<times> organization) store_op" where
  "register_technician X invite_for salt inp = do {
     allow \<leftarrow> setting ''allow_self_register'';
     case allow of
       Inl e \<Rightarrow> ret (Inl e)
     | Inr a \<Rightarrow>
         if a \<noteq> ''true'' then ret (Inl ErrRegisterClosed)
         else do {
           req \<leftarrow> setting ''require_invite_code'';
           case hash_password X salt (ri_password inp) of
             Inl e \<Rightarrow> ret (Inl (gerr_store e))
           | Inr h \<Rightarrow> transaction (do {
               jr \<leftarrow> join_or_found invite_for (req = Inr ''true'') inp;
               case jr of
                 Inl e \<Rightarrow> ret (Inl e)
               | Inr (org, role) \<Rightarrow> do {
                   tr \<leftarrow> insert_technician (Some (o_id org)) (ri_email inp) h (ri_name inp) role;
                   case tr of
                     Inl e \<Rightarrow> ret (Inl (if is_unique_violation e then ErrEmailTaken else e))
                   | Inr t \<Rightarrow> ret (Inr (t, org))
                 }
             })
         }
   }"

definition create_organization :: "(uuid \<Rightarrow> string) \<Rightarrow> string \<Rightarrow> organization store_op" where
  "create_organization invite_for name = do {
     i \<leftarrow> fresh_id;
     j \<leftarrow> fresh_id;
     let org = \<lparr>o_id = i, o_name = name, o_network = invite_for j, o_invite = invite_for j\<rparr>
     in do {
       r \<leftarrow> insert_organization org;
       ret (case r of Inl e \<Rightarrow> Inl e | Inr _ \<Rightarrow> Inr org)
     }
   }"

definition list_organizations :: "organization list store_op" where
  "list_organizations = do { os \<leftarrow> reads orgs; ret (Inr os) }"

definition list_technicians :: "uuid option \<Rightarrow> technician list store_op" where
  "list_technicians org = do {
     ts \<leftarrow> reads techs;
     ret (Inr (map (\<lambda>t. t\<lparr>t_hash := []\<rparr>)
       (case org of Some x \<Rightarrow> filter (\<lambda>t. t_org t = Some x) ts | None \<Rightarrow> ts)))
   }"

definition set_technician_active :: "uuid \<Rightarrow> bool \<Rightarrow> unit store_op" where
  "set_technician_active i act = do {
     known \<leftarrow> reads (\<lambda>d. i \<in> set (map t_id (techs d)));
     modify (\<lambda>d. d\<lparr>techs := map (\<lambda>t. if t_id t = i then t\<lparr>t_active := act\<rparr> else t) (techs d)\<rparr>);
     ret (if known then Inr () else Inl ErrNotFound)
   }"

section \<open>The account invariant\<close>

definition account_ok :: "organization list \<Rightarrow> technician \<Rightarrow> bool" where
  "account_ok os t \<longleftrightarrow> valid_role (t_role t) \<and> (t_role t = RoleSuperAdmin \<or> t_org t \<noteq> None)
     \<and> (\<forall>x. t_org t = Some x \<longrightarrow> x \<in> set (map o_id os))"

definition accounts_ok :: "db \<Rightarrow> bool" where
  "accounts_ok d \<longleftrightarrow>
     distinct (map t_email (techs d)) \<and> distinct (map t_id (techs d)) \<and> (\<forall>t \<in> set (techs d). t_id t < next_id d)
   \<and> distinct (map o_id (orgs d)) \<and> distinct (map o_invite (orgs d)) \<and> (\<forall>x \<in> set (orgs d). o_id x < next_id d)
   \<and> (\<forall>t \<in> set (techs d). account_ok (orgs d) t)"

text \<open>What an operation that is not about accounts leaves alone.\<close>

definition same_accounts :: "db \<Rightarrow> db \<Rightarrow> bool" where
  "same_accounts d d' \<longleftrightarrow> techs d' = techs d \<and> orgs d' = orgs d \<and> next_id d \<le> next_id d'"

lemma same_accounts_refl [simp]: "same_accounts d d"
  by (simp add: same_accounts_def)

lemma same_accounts_trans: "same_accounts a b \<Longrightarrow> same_accounts b c \<Longrightarrow> same_accounts a c"
  by (auto simp: same_accounts_def)

lemma accounts_ok_same: "accounts_ok d \<Longrightarrow> same_accounts d d' \<Longrightarrow> accounts_ok d'"
  by (fastforce simp: accounts_ok_def same_accounts_def)

lemma run_fresh_id [simp]: "run_state fresh_id d = (next_id d, d\<lparr>next_id := Suc (next_id d)\<rparr>)"
  by (simp add: fresh_id_def)

lemma run_setting: "run_state (setting key) d = (case map_of (settings d) key of Some x \<Rightarrow> Inr x | None \<Rightarrow> Inl ErrNotFound, d)"
  by (simp add: setting_def)

text \<open>The outcome of the two inserts.\<close>

lemma insert_technician_Inr:
  assumes "run_state (insert_technician org email h name role) d = (Inr t, d')"
  shows "email \<notin> set (map t_email (techs d)) \<and> valid_role role \<and> (role = RoleSuperAdmin \<or> org \<noteq> None)
    \<and> (\<forall>x. org = Some x \<longrightarrow> x \<in> set (map o_id (orgs d)))
    \<and> t = \<lparr>t_id = next_id d, t_org = org, t_email = email, t_hash = [], t_name = name, t_role = role, t_active = True\<rparr>
    \<and> d' = d\<lparr>next_id := Suc (next_id d), techs := techs d @ [t\<lparr>t_hash := h\<rparr>]\<rparr>"
  using assms by (auto simp: insert_technician_def Let_def split: if_splits option.splits)

lemma insert_technician_Inl:
  "run_state (insert_technician org email h name role) d = (Inl e, d') \<Longrightarrow> d' = d\<lparr>next_id := Suc (next_id d)\<rparr>"
  by (auto simp: insert_technician_def Let_def split: if_splits option.splits)

lemma insert_organization_Inr:
  assumes "run_state (insert_organization x) d = (Inr u, d')"
  shows "o_id x \<notin> set (map o_id (orgs d)) \<and> o_invite x \<notin> set (map o_invite (orgs d))
    \<and> d' = d\<lparr>orgs := orgs d @ [x]\<rparr>"
  using assms by (auto simp: insert_organization_def split: if_splits)

lemma insert_organization_Inl: "run_state (insert_organization x) d = (Inl e, d') \<Longrightarrow> d' = d"
  by (auto simp: insert_organization_def split: if_splits)

lemma accounts_ok_insert_technician:
  assumes "accounts_ok d" and "run_state (insert_technician org email h name role) d = (r, d')"
  shows "accounts_ok d'"
proof (cases r)
  case (Inl e)
  with assms insert_technician_Inl show ?thesis
    by (fastforce simp: same_accounts_def intro: accounts_ok_same)
next
  case (Inr t)
  with assms(2) insert_technician_Inr [of org email h name role d t d'] have
    "email \<notin> set (map t_email (techs d))" "valid_role role" "role = RoleSuperAdmin \<or> org \<noteq> None"
    "\<forall>x. org = Some x \<longrightarrow> x \<in> set (map o_id (orgs d))"
    "d' = d\<lparr>next_id := Suc (next_id d), techs := techs d @
      [\<lparr>t_id = next_id d, t_org = org, t_email = email, t_hash = h, t_name = name, t_role = role, t_active = True\<rparr>]\<rparr>"
    by auto
  with assms(1) show ?thesis
    by (fastforce simp: accounts_ok_def account_ok_def)
qed

lemma accounts_ok_insert_organization:
  assumes "accounts_ok d" and "o_id x < next_id d" and "run_state (insert_organization x) d = (r, d')"
  shows "accounts_ok d'"
proof (cases r)
  case (Inl e)
  with assms insert_organization_Inl show ?thesis by blast
next
  case (Inr u)
  with assms(3) insert_organization_Inr have
    "o_id x \<notin> set (map o_id (orgs d))" "o_invite x \<notin> set (map o_invite (orgs d))" "d' = d\<lparr>orgs := orgs d @ [x]\<rparr>"
    by blast+
  with assms(1,2) show ?thesis
    by (fastforce simp: accounts_ok_def account_ok_def)
qed

lemma join_or_found_Inr:
  assumes "run_state (join_or_found mk_inv req inp) d = (Inr (x, role), d')"
  shows "x \<in> set (orgs d') \<and> techs d' = techs d
    \<and> (if ri_invite inp \<noteq> [] then role = RoleTechnician \<and> o_invite x = ri_invite inp \<and> d' = d
       else \<not> req \<and> role = RoleOrgAdmin \<and> o_name x = ri_shop inp \<and> o_id x = next_id d \<and> orgs d' = orgs d @ [x])"
  using assms
  by (auto simp: join_or_found_def Let_def insert_organization_def dest: find_SomeD split: if_splits option.splits sum.splits)

lemma accounts_ok_join:
  assumes "accounts_ok d" and "run_state (join_or_found mk_inv req inp) d = (r, d')"
  shows "accounts_ok d'"
proof (cases "ri_invite inp \<noteq> [] \<or> req \<or> ri_shop inp = []")
  case True
  with assms(2) have "d' = d" by (auto simp: join_or_found_def split: if_splits)
  with assms(1) show ?thesis by simp
next
  case False
  let ?x = "\<lparr>o_id = next_id d, o_name = ri_shop inp, o_network = mk_inv (Suc (next_id d)), o_invite = mk_inv (Suc (next_id d))\<rparr>"
  let ?d = "d\<lparr>next_id := Suc (Suc (next_id d))\<rparr>"
  from False assms(2) have "d' = snd (run_state (insert_organization ?x) ?d)"
    by (auto simp: join_or_found_def Let_def split: prod.splits)
  moreover have "accounts_ok ?d"
    using assms(1) by (rule accounts_ok_same) (simp add: same_accounts_def)
  ultimately show ?thesis
    using accounts_ok_insert_organization [of ?d ?x] by (metis lessI less_SucI organization.select_convs(1) prod.collapse
        db.select_convs(13) db.surjective db.update_convs(13))
qed

lemma transaction_Inr: "run_state (transaction m) d = (Inr x, d') \<longleftrightarrow> run_state m d = (Inr x, d')"
  by (auto simp: transaction_def split: prod.splits sum.splits)

lemma transaction_Inl:
  "run_state (transaction m) d = (Inl e, d') \<longleftrightarrow>
     (\<exists>d1. run_state m d = (Inl e, d1) \<and> d' = d\<lparr>next_id := next_id d1\<rparr>)"
  by (auto simp: transaction_def split: prod.splits sum.splits)

definition register_body :: "(uuid \<Rightarrow> string) \<Rightarrow> bool \<Rightarrow> string \<Rightarrow> register_input \<Rightarrow> (technician \<times> organization) store_op" where
  "register_body invite_for req h inp = do {
     jr \<leftarrow> join_or_found invite_for req inp;
     case jr of
       Inl e \<Rightarrow> ret (Inl e)
     | Inr (org, role) \<Rightarrow> do {
         tr \<leftarrow> insert_technician (Some (o_id org)) (ri_email inp) h (ri_name inp) role;
         case tr of
           Inl e \<Rightarrow> ret (Inl (if is_unique_violation e then ErrEmailTaken else e))
         | Inr t \<Rightarrow> ret (Inr (t, org))
       }
   }"

lemma register_cases:
  assumes "run_state (register_technician X invite_for salt inp) d = (r, d')"
  obtains (closed) "isl r" "d' = d"
  | (tried) h req where "map_of (settings d) ''allow_self_register'' = Some ''true''"
      "req = (map_of (settings d) ''require_invite_code'' = Some ''true'')"
      "hash_password X salt (ri_password inp) = Inr h"
      "run_state (transaction (register_body invite_for req h inp)) d = (r, d')"
proof -
  have req: "(case map_of (settings d) ''require_invite_code'' of Some x \<Rightarrow> Inr x | None \<Rightarrow> Inl ErrNotFound) = Inr ''true''
      \<longleftrightarrow> map_of (settings d) ''require_invite_code'' = Some ''true''"
    by (simp split: option.split)
  show ?thesis
    using assms closed tried [OF _ refl]
    by (auto simp: register_technician_def run_setting register_body_def [symmetric] req
        split: option.splits if_splits sum.splits)
qed

lemma register_body_Inr:
  assumes "run_state (register_body invite_for req h inp) d = (Inr (t, org), d')"
  shows "org \<in> set (orgs d') \<and> t_org t = Some (o_id org) \<and> t_email t = ri_email inp \<and> t_active t
    \<and> techs d' = techs d @ [t\<lparr>t_hash := h\<rparr>] \<and> ri_email inp \<notin> set (map t_email (techs d))
    \<and> (if ri_invite inp \<noteq> [] then t_role t = RoleTechnician \<and> org \<in> set (orgs d) \<and> o_invite org = ri_invite inp \<and> orgs d' = orgs d
       else \<not> req \<and> t_role t = RoleOrgAdmin \<and> o_name org = ri_shop inp \<and> orgs d' = orgs d @ [org])"
proof -
  obtain role d1 where j: "run_state (join_or_found invite_for req inp) d = (Inr (org, role), d1)"
    and i: "run_state (insert_technician (Some (o_id org)) (ri_email inp) h (ri_name inp) role) d1 = (Inr t, d')"
    using assms by (auto simp: register_body_def split: sum.splits prod.splits if_splits)
  show ?thesis
    using join_or_found_Inr [OF j] insert_technician_Inr [OF i] by (auto split: if_splits)
qed

lemma accounts_ok_register_body:
  assumes "accounts_ok d" and "run_state (register_body invite_for req h inp) d = (r, d')"
  shows "accounts_ok d'"
proof -
  obtain jr d1 where j: "run_state (join_or_found invite_for req inp) d = (jr, d1)" by fastforce
  have d1: "accounts_ok d1" using accounts_ok_join [OF assms(1) j] .
  show ?thesis
  proof (cases jr)
    case (Inl e)
    with assms(2) j d1 show ?thesis by (simp add: register_body_def)
  next
    case (Inr p)
    obtain org role where p: "p = (org, role)" by fastforce
    obtain tr d2 where i: "run_state (insert_technician (Some (o_id org)) (ri_email inp) h (ri_name inp) role) d1 = (tr, d2)"
      by fastforce
    have "d' = d2"
      using assms(2) j i Inr p by (auto simp: register_body_def split: sum.splits)
    then show ?thesis using accounts_ok_insert_technician [OF d1 i] by simp
  qed
qed

lemma accounts_ok_transaction:
  assumes "accounts_ok d" and "run_state (transaction m) d = (r, d')"
    and "\<And>r d'. run_state m d = (r, d') \<Longrightarrow> accounts_ok d' \<and> next_id d \<le> next_id d'"
  shows "accounts_ok d'"
proof (cases r)
  case (Inl e)
  then obtain d1 where "run_state m d = (Inl e, d1)" "d' = d\<lparr>next_id := next_id d1\<rparr>"
    using assms(2) transaction_Inl by blast
  with assms(1) assms(3) [of "Inl e" d1] show ?thesis
    by (auto intro: accounts_ok_same simp: same_accounts_def)
next
  case (Inr x)
  with assms(2) have "run_state m d = (Inr x, d')" by (simp add: transaction_Inr)
  then show ?thesis using assms(3) by simp
qed

lemma next_id_insert_technician:
  "run_state (insert_technician org email h name role) d = (r, d') \<Longrightarrow> next_id d' = Suc (next_id d)"
  by (cases r) (auto dest: insert_technician_Inl insert_technician_Inr)

lemma next_id_join: "run_state (join_or_found mk_inv req inp) d = (r, d') \<Longrightarrow> next_id d \<le> next_id d'"
  by (auto simp: join_or_found_def Let_def insert_organization_def split: if_splits)

lemma next_id_register_body:
  "run_state (register_body invite_for req h inp) d = (r, d') \<Longrightarrow> next_id d \<le> next_id d'"
proof -
  assume run: "run_state (register_body invite_for req h inp) d = (r, d')"
  obtain jr d1 where j: "run_state (join_or_found invite_for req inp) d = (jr, d1)" by fastforce
  show ?thesis
  proof (cases jr)
    case (Inl e)
    with run j next_id_join [OF j] show ?thesis by (simp add: register_body_def)
  next
    case (Inr p)
    obtain org role where p: "p = (org, role)" by fastforce
    obtain tr d2 where i: "run_state (insert_technician (Some (o_id org)) (ri_email inp) h (ri_name inp) role) d1 = (tr, d2)"
      by fastforce
    have "d' = d2"
      using run j i Inr p by (auto simp: register_body_def split: sum.splits)
    then show ?thesis using next_id_insert_technician [OF i] next_id_join [OF j] by simp
  qed
qed

lemma accounts_ok_register:
  assumes "accounts_ok d" and "run_state (register_technician X invite_for salt inp) d = (r, d')"
  shows "accounts_ok d'"
  using assms(2)
proof (cases rule: register_cases)
  case closed
  with assms(1) show ?thesis by simp
next
  case (tried h req)
  then show ?thesis
    using accounts_ok_transaction [OF assms(1)] accounts_ok_register_body [OF assms(1)] next_id_register_body by blast
qed

lemma accounts_ok_create_organization:
  assumes "accounts_ok d" and "run_state (create_organization invite_for name) d = (r, d')"
  shows "accounts_ok d'"
proof -
  let ?x = "\<lparr>o_id = next_id d, o_name = name, o_network = invite_for (Suc (next_id d)), o_invite = invite_for (Suc (next_id d))\<rparr>"
  let ?d = "d\<lparr>next_id := Suc (Suc (next_id d))\<rparr>"
  have "d' = snd (run_state (insert_organization ?x) ?d)"
    using assms(2) by (auto simp: create_organization_def Let_def split: prod.splits)
  moreover have "accounts_ok ?d"
    using assms(1) by (rule accounts_ok_same) (simp add: same_accounts_def)
  moreover have "o_id ?x < next_id ?d" by simp
  ultimately show ?thesis
    using accounts_ok_insert_organization [of ?d ?x] by (metis prod.collapse)
qed

lemma accounts_ok_set_active:
  assumes "accounts_ok d" and "run_state (set_technician_active i act) d = (r, d')"
  shows "accounts_ok d'"
proof -
  let ?f = "\<lambda>t. if t_id t = i then t\<lparr>t_active := act\<rparr> else t"
  have d': "d' = d\<lparr>techs := map ?f (techs d)\<rparr>"
    using assms(2) by (simp add: set_technician_active_def)
  have cols: "map t_email (map ?f ts) = map t_email ts" "map t_id (map ?f ts) = map t_id ts" for ts
    by simp_all
  have act: "account_ok os (t\<lparr>t_active := act\<rparr>) = account_ok os t" for os t
    by (simp add: account_ok_def)
  show ?thesis
    using assms(1) unfolding d' accounts_ok_def by (auto simp: cols act simp del: map_map)
qed

lemma accounts_ok_bootstrap:
  assumes "accounts_ok d" and "run_state (ensure_bootstrap_admin X salt email pw name) d = (r, d')"
  shows "accounts_ok d'"
proof -
  consider "d' = d" | h x where "run_state (insert_technician None email h name RoleSuperAdmin) d = (x, d')"
    using assms(2) by (auto simp: ensure_bootstrap_admin_def count_by_role_def split: if_splits sum.splits prod.splits)
  then show ?thesis
    using assms(1) accounts_ok_insert_technician by cases auto
qed

lemma authenticate_state: "snd (run_state (authenticate X email pw) d) = d"
  by (auto simp: authenticate_def get_technician_by_email_def split: option.splits)

lemma find_email:
  "distinct (map t_email ts) \<Longrightarrow> t \<in> set ts \<Longrightarrow> find (\<lambda>x. t_email x = t_email t) ts = Some t"
  by (induction ts) auto

text \<open>The database after the migrations; the seeded articles and models are data.\<close>

definition initial_db :: "knowledge_article list \<Rightarrow> market_model list \<Rightarrow> timestamp \<Rightarrow> db" where
  "initial_db arts mms now =
     \<lparr>orgs = [], techs = [],
      settings = [(''allow_self_register'', ''true''), (''require_invite_code'', ''false''), (''market_region'', ''NG''),
                  (''min_vehicle_year'', ''2010''), (''enrichment_enabled'', ''true'')],
      vehicles = [], sessions = [], dtc_rows = [], articles = arts, enrichments = [], veh_recalls = [],
      recall_cat = [], market = mms, jobs = [], next_id = 0, clock = now\<rparr>"

lemma accounts_ok_initial: "accounts_ok (initial_db arts mms now)"
  by (simp add: accounts_ok_def initial_db_def)

lemma authenticate_found:
  assumes "accounts_ok d" and "t \<in> set (techs d)"
  shows "run_state (authenticate X (t_email t) pw) d =
     ((if \<not> t_active t then Inl ErrInactive else if \<not> check_password X (t_hash t) pw then Inl ErrInvalidCreds else Inr t), d)"
proof -
  have "find (\<lambda>x. t_email x = t_email t) (techs d) = Some t"
    using assms by (simp add: accounts_ok_def find_email)
  then show ?thesis
    by (simp add: authenticate_def get_technician_by_email_def)
qed

section \<open>Properties\<close>

text \<open>
  C27. Registration is all or nothing. When it fails, for whatever reason, even after a new shop was
  inserted in the transaction, the tables are as before. When it succeeds, one active technician is added and
  nothing else about technicians changes; with an invite code he joins the shop of that code as a technician, without one, if invites
  are not required, he founds one new shop and is its admin; nobody registers as super admin.
\<close>
theorem register_all_or_nothing:
  assumes "run_state (register_technician X invite_for salt inp) d = (r, d')"
  shows "case r of
      Inl e \<Rightarrow> \<exists>k. d' = d\<lparr>next_id := k\<rparr>
    | Inr (t, org) \<Rightarrow>
        map_of (settings d) ''allow_self_register'' = Some ''true''
      \<and> (\<exists>h. techs d' = techs d @ [t\<lparr>t_hash := h\<rparr>]) \<and> t_active t \<and> t_email t = ri_email inp
      \<and> t_org t = Some (o_id org) \<and> t_role t \<noteq> RoleSuperAdmin
      \<and> (if ri_invite inp \<noteq> []
         then t_role t = RoleTechnician \<and> orgs d' = orgs d \<and> org \<in> set (orgs d) \<and> o_invite org = ri_invite inp
         else t_role t = RoleOrgAdmin \<and> orgs d' = orgs d @ [org] \<and> o_name org = ri_shop inp
            \<and> map_of (settings d) ''require_invite_code'' \<noteq> Some ''true'')"
  using assms
proof (cases rule: register_cases)
  case closed
  then show ?thesis by (cases r) (auto intro: exI [of _ "next_id d"])
next
  case (tried h req)
  show ?thesis
  proof (cases r)
    case (Inl e)
    with tried(4) transaction_Inl show ?thesis by fastforce
  next
    case (Inr p)
    obtain t org where p: "p = (t, org)" by fastforce
    with Inr tried(4) have "run_state (register_body invite_for req h inp) d = (Inr (t, org), d')"
      by (simp add: transaction_Inr)
    from register_body_Inr [OF this] show ?thesis
      using Inr p tried(1,2) by (auto simp: role_defs split: if_splits)
  qed
qed

theorem register_all_or_nothing_witness:
  "\<exists>k. snd (run_state (register_technician plain_crypto show_nat 0
       \<lparr>ri_email = ''a@b'', ri_password = ''short'', ri_name = ''A'', ri_shop = ''S'', ri_invite = []\<rparr>)
       (initial_db [] [] (Tick 0))) = (initial_db [] [] (Tick 0))\<lparr>next_id := k\<rparr>"
proof -
  let ?run = "run_state (register_technician plain_crypto show_nat 0
       \<lparr>ri_email = ''a@b'', ri_password = ''short'', ri_name = ''A'', ri_shop = ''S'', ri_invite = []\<rparr>) (initial_db [] [] (Tick 0))"
  have "fst ?run = Inl (StoreMsg ''password must be at least 8 characters'')"
    by (simp add: register_technician_def run_setting initial_db_def hash_password_def gerr_store_def)
  then show ?thesis
    using register_all_or_nothing [OF prod.collapse [symmetric], of plain_crypto show_nat 0
       "\<lparr>ri_email = ''a@b'', ri_password = ''short'', ri_name = ''A'', ri_shop = ''S'', ri_invite = []\<rparr>" "initial_db [] [] (Tick 0)"]
    by simp
qed



end
