(* ===== verification/Scans.thy ===== *)
theory Scans
  imports StoreDb
begin

text \<open>
  Scans in \<^verbatim>\<open>internal/store/store.go\<close>: storing one in a transaction, reading it back, and the queries that
  gather what is known about a code. SQL joins, filters, groups and orders are list functions over
  the tables; rows that an order leaves equal keep the order of the table. JSON columns hold their
  values. \<^verbatim>\<open>uuid.Parse\<close> is an argument.
\<close>

section \<open>Storing a scan\<close>

definition vehicle_for :: "string \<Rightarrow> (db, uuid) state" where
  "vehicle_for vin = do {
     v \<leftarrow> reads (\<lambda>d. find (\<lambda>v. v_vin v = vin) (vehicles d));
     case v of
       Some x \<Rightarrow> ret (v_id x)
     | None \<Rightarrow> do {
         i \<leftarrow> fresh_id;
         modify (\<lambda>d. d\<lparr>vehicles := vehicles d @
           [\<lparr>v_id = i, v_vin = vin, v_make = None, v_model = None, v_year = None, v_engine = None\<rparr>]\<rparr>);
         ret i
       }
   }"

definition insert_session :: "session_row \<Rightarrow> unit store_op" where
  "insert_session s = do {
     d \<leftarrow> reads (\<lambda>d. d);
     if ss_link s \<notin> {''usb'', ''bluetooth'', ''mock''} then ret (Inl (CheckViolation ''scan_sessions_link_type_check''))
     else if ss_tech s \<notin> set (map t_id (techs d)) then ret (Inl (CheckViolation ''scan_sessions_technician_id_fkey''))
     else if ss_org s \<notin> set (map o_id (orgs d)) then ret (Inl (CheckViolation ''scan_sessions_org_id_fkey''))
     else do {
       modify (\<lambda>d. d\<lparr>sessions := sessions d @ [s]\<rparr>);
       ret (Inr ())
     }
   }"

definition stored_status :: "string \<Rightarrow> string" where
  "stored_status st = (if st = [] then DTCConfirmed else st)"

fun insert_dtcs :: "uuid \<Rightarrow> dtc list \<Rightarrow> unit store_op" where
  "insert_dtcs sid [] = ret (Inr ())"
| "insert_dtcs sid (c # cs) =
     (if stored_status (dtc_status c) \<notin> {''pending'', ''confirmed'', ''permanent'', ''cleared''}
      then ret (Inl (CheckViolation ''dtc_observations_status_check''))
      else do {
        modify (\<lambda>d. d\<lparr>dtc_rows := dtc_rows d @
          [\<lparr>dr_session = sid, dr_code = dtc_code c, dr_status = stored_status (dtc_status c), dr_freeze = dtc_freeze c\<rparr>]\<rparr>);
        insert_dtcs sid cs
      })"

definition create_scan_body :: "uuid \<Rightarrow> uuid \<Rightarrow> create_scan_input \<Rightarrow> scan_record store_op" where
  "create_scan_body tech org inp = do {
     vid \<leftarrow> vehicle_for (ci_vin inp);
     now \<leftarrow> reads clock;
     sid \<leftarrow> fresh_id;
     r \<leftarrow> insert_session \<lparr>ss_id = sid, ss_vehicle = vid, ss_tech = tech, ss_org = org, ss_link = ci_link inp,
            ss_adapter = ci_adapter inp, ss_protocol = ci_protocol inp, ss_started = now, ss_finished = Some now,
            ss_obs = ci_obs inp\<rparr>;
     case r of
       Inl e \<Rightarrow> ret (Inl e)
     | Inr _ \<Rightarrow> do {
         q \<leftarrow> insert_dtcs sid (ci_dtcs inp);
         case q of
           Inl e \<Rightarrow> ret (Inl e)
         | Inr _ \<Rightarrow> ret (Inr \<lparr>sc_id = sid, sc_vehicle = vid, sc_vin = ci_vin inp, sc_tech = tech, sc_org = org,
               sc_link = ci_link inp, sc_adapter = ci_adapter inp, sc_protocol = ci_protocol inp, sc_started = now,
               sc_finished = Some now, sc_dtcs = ci_dtcs inp, sc_obs = ci_obs inp\<rparr>)
       }
   }"

definition create_scan :: "(string \<Rightarrow> gerr + uuid) \<Rightarrow> create_scan_input \<Rightarrow> scan_record store_op" where
  "create_scan parse_uuid inp =
     (if ci_vin inp = [] then ret (Inl (StoreMsg ''vin is required''))
      else case parse_uuid (ci_tech inp) of
        Inl e \<Rightarrow> ret (Inl (StoreMsg (''technician_id: '' @ err_text e)))
      | Inr tech \<Rightarrow>
          (case parse_uuid (ci_org inp) of
             Inl e \<Rightarrow> ret (Inl (StoreMsg (''org_id: '' @ err_text e)))
           | Inr org \<Rightarrow> transaction (create_scan_body tech org inp)))"

section \<open>Reading scans\<close>

definition sort_desc :: "('a \<Rightarrow> 'k :: linorder) \<Rightarrow> 'a list \<Rightarrow> 'a list" where
  "sort_desc f xs = rev (sort_key f (rev xs))"

text \<open>The joins with \<^verbatim>\<open>vehicles\<close> and with \<^verbatim>\<open>dtc_observations\<close>.\<close>

definition with_vin :: "db \<Rightarrow> session_row list \<Rightarrow> (session_row \<times> string) list" where
  "with_vin d ss = concat (map (\<lambda>s. map (\<lambda>v. (s, v_vin v)) (filter (\<lambda>v. v_id v = ss_vehicle s) (vehicles d))) ss)"

definition of_org :: "uuid option \<Rightarrow> session_row \<Rightarrow> bool" where
  "of_org org s \<longleftrightarrow> (case org of Some x \<Rightarrow> ss_org s = x | None \<Rightarrow> True)"

definition list_dtcs :: "db \<Rightarrow> uuid \<Rightarrow> dtc list" where
  "list_dtcs d sid =
     map (\<lambda>r. \<lparr>dtc_code = dr_code r, dtc_status = dr_status r, dtc_freeze = dr_freeze r, dtc_desc = describe_code (dr_code r)\<rparr>)
       (sort_key dr_code (filter (\<lambda>r. dr_session r = sid) (dtc_rows d)))"

definition scan_of :: "db \<Rightarrow> session_row \<Rightarrow> string \<Rightarrow> observations option \<Rightarrow> scan_record" where
  "scan_of d s vin obs =
     \<lparr>sc_id = ss_id s, sc_vehicle = ss_vehicle s, sc_vin = vin, sc_tech = ss_tech s, sc_org = ss_org s,
      sc_link = ss_link s, sc_adapter = ss_adapter s, sc_protocol = ss_protocol s, sc_started = ss_started s,
      sc_finished = ss_finished s, sc_dtcs = list_dtcs d (ss_id s), sc_obs = obs\<rparr>"

definition get_scan :: "uuid \<Rightarrow> scan_record store_op" where
  "get_scan sid = do {
     d \<leftarrow> reads (\<lambda>d. d);
     ret (case with_vin d (filter (\<lambda>s. ss_id s = sid) (sessions d)) of
            [] \<Rightarrow> Inl ErrNotFound
          | (s, vin) # _ \<Rightarrow> Inr (scan_of d s vin (ss_obs s)))
   }"

definition sessions_of_vin :: "db \<Rightarrow> string \<Rightarrow> uuid option \<Rightarrow> (session_row \<times> string) list" where
  "sessions_of_vin d vin org =
     sort_desc (\<lambda>(s, _). ss_started s) (filter (\<lambda>(s, v). v = vin \<and> of_org org s) (with_vin d (sessions d)))"

definition list_scans_by_vin :: "string \<Rightarrow> uuid option \<Rightarrow> int \<Rightarrow> scan_record list store_op" where
  "list_scans_by_vin vin org limit = do {
     d \<leftarrow> reads (\<lambda>d. d);
     let n = (if limit \<le> 0 then 20 else limit)
     in ret (Inr (map (\<lambda>(s, v). scan_of d s v None) (take (nat n) (sessions_of_vin d vin org))))
   }"

definition latest_observations :: "db \<Rightarrow> string \<Rightarrow> uuid option \<Rightarrow> store_error + observations" where
  "latest_observations d vin org =
     (case filter (\<lambda>(s, _). ss_obs s \<noteq> None) (sessions_of_vin d vin org) of
        [] \<Rightarrow> Inl ErrNotFound
      | (s, _) # _ \<Rightarrow> Inr (the (ss_obs s)))"

definition latest_dtcs_for_vin :: "string \<Rightarrow> uuid option \<Rightarrow> dtc list store_op" where
  "latest_dtcs_for_vin vin org = do {
     d \<leftarrow> reads (\<lambda>d. d);
     ret (case sessions_of_vin d vin org of
            [] \<Rightarrow> Inl ErrNotFound
          | (s, _) # _ \<Rightarrow> Inr (list_dtcs d (ss_id s)))
   }"

section \<open>Co-occurrence\<close>

definition code_sessions :: "db \<Rightarrow> (string \<Rightarrow> bool) \<Rightarrow> uuid option \<Rightarrow> (dtc_row \<times> session_row) list" where
  "code_sessions d P org =
     concat (map (\<lambda>r. map (\<lambda>s. (r, s)) (filter (\<lambda>s. ss_id s = dr_session r \<and> of_org org s) (sessions d)))
       (filter (\<lambda>r. P (dr_code r)) (dtc_rows d)))"

definition focus_scans :: "db \<Rightarrow> string \<Rightarrow> uuid option \<Rightarrow> uuid list" where
  "focus_scans d focus org = map (\<lambda>(r, _). dr_session r) (code_sessions d (\<lambda>c. to_upper c = to_upper focus) org)"

text \<open>The join of the other codes with the focus scans: one row per pair.\<close>

definition co_rows :: "db \<Rightarrow> string \<Rightarrow> uuid option \<Rightarrow> string list" where
  "co_rows d focus org =
     concat (map (\<lambda>r. replicate (count_list (focus_scans d focus org) (dr_session r)) (dr_code r))
       (filter (\<lambda>r. to_upper (dr_code r) \<noteq> to_upper focus) (dtc_rows d)))"

definition co_row :: "nat \<Rightarrow> string list \<Rightarrow> string \<Rightarrow> co_occur_row" where
  "co_row n cs c =
     \<lparr>cr_code = c, cr_with = int (count_list cs c), cr_focus = int n,
      cr_rate = (if n = 0 then 0 else f64_div (f64_of_int (int (count_list cs c))) (f64_of_int (int n)))\<rparr>"

definition dtc_co_occurrence :: "db \<Rightarrow> string \<Rightarrow> uuid option \<Rightarrow> int \<Rightarrow> co_occur_row list" where
  "dtc_co_occurrence d focus org limit =
     (let cs = co_rows d focus org;
          n = length (focus_scans d focus org);
          k = (if limit \<le> 0 then 5 else limit)
      in take (nat k) (sort_desc cr_rate (sort_desc cr_with (map (co_row n cs) (remdups cs)))))"

section \<open>Recalls and articles\<close>

definition list_recalls_for_vehicle :: "db \<Rightarrow> uuid \<Rightarrow> recall_row list" where
  "list_recalls_for_vehicle d vid =
     take 20 (sort_desc rc_date (map snd (filter (\<lambda>(v, _). v = vid) (veh_recalls d))))"

definition list_recalls_mmy :: "db \<Rightarrow> string \<Rightarrow> string \<Rightarrow> int \<Rightarrow> recall_row list" where
  "list_recalls_mmy d mk mdl year =
     take 20 (sort_desc rc_date (filter (\<lambda>r. to_lower (rc_make r) = to_lower mk \<and> to_lower (rc_model r) = to_lower mdl
       \<and> rc_year r = year) (recall_cat d)))"

definition get_vehicle_enrichment :: "db \<Rightarrow> uuid \<Rightarrow> store_error + vehicle_enrichment" where
  "get_vehicle_enrichment d vid =
     (case find (\<lambda>e. ve_vehicle e = vid) (enrichments d) of Some e \<Rightarrow> Inr e | None \<Rightarrow> Inl ErrNotFound)"

definition article_fits :: "string \<Rightarrow> string \<Rightarrow> string \<Rightarrow> knowledge_article \<Rightarrow> bool" where
  "article_fits code mk mdl a \<longleftrightarrow> ka_code a = code \<and>
     (ka_scope a = ''*'' \<or> to_upper (ka_scope a) = to_upper mk \<or> to_upper (ka_scope a) = to_upper mdl \<or> mk = [] \<and> mdl = [])"

definition article_rank :: "string \<Rightarrow> string \<Rightarrow> knowledge_article \<Rightarrow> nat" where
  "article_rank mk mdl a =
     (if mdl \<noteq> [] \<and> to_upper (ka_scope a) = to_upper mdl then 0
      else if mk \<noteq> [] \<and> to_upper (ka_scope a) = to_upper mk then 1
      else if ka_scope a = ''*'' then 2
      else 3)"

definition best_article :: "db \<Rightarrow> string \<Rightarrow> string \<Rightarrow> string \<Rightarrow> knowledge_article option" where
  "best_article d code mk mdl =
     (case sort_key (article_rank mk mdl) (filter (article_fits code mk mdl) (articles d)) of
        [] \<Rightarrow> None | a # _ \<Rightarrow> Some a)"

section \<open>Explaining a code\<close>

definition text_or_empty :: "string option \<Rightarrow> string" where
  "text_or_empty t = (case t of Some x \<Rightarrow> x | None \<Rightarrow> [])"

text \<open>What is known about the vehicle: make and model for the article, enrichment, note, recalls.\<close>

definition vehicle_part :: "db \<Rightarrow> string \<Rightarrow> string \<times> string \<times> vehicle_enrichment option \<times> string \<times> recall_row list" where
  "vehicle_part d vin =
     (if vin = [] then ([], [], None, [], [])
      else case find (\<lambda>v. v_vin v = vin) (vehicles d) of
        None \<Rightarrow> ([], [], None, [], [])
      | Some v \<Rightarrow>
          let enr = get_vehicle_enrichment d (v_id v);
              mk = (case enr of Inr e \<Rightarrow> ve_make e | Inl _ \<Rightarrow> text_or_empty (v_make v));
              mdl = (case enr of Inr e \<Rightarrow> ve_model e | Inl _ \<Rightarrow> text_or_empty (v_model v));
              year = (case enr of Inr e \<Rightarrow> Some (ve_year e) | Inl _ \<Rightarrow> v_year v);
              note = (case enr of
                  Inr e \<Rightarrow> if ve_in_scope e then []
                    else ''Outside Nigeria focus scope (Toyota/Honda/Hyundai/Kia/Mercedes-Benz, model year 2010+). Lean decode stored; recall catalog skipped.''
                | Inl _ \<Rightarrow> []);
              recs = (case year of
                  Some y \<Rightarrow> if y > 0 \<and> mk \<noteq> [] \<and> mdl \<noteq> []
                    then let own = list_recalls_for_vehicle d (v_id v) in if own \<noteq> [] then own else list_recalls_mmy d mk mdl y
                    else []
                | None \<Rightarrow> [])
          in (mk, mdl, (case enr of Inr e \<Rightarrow> Some e | Inl _ \<Rightarrow> None), note, recs))"

definition history_rows :: "db \<Rightarrow> string \<Rightarrow> string \<Rightarrow> uuid option \<Rightarrow> history_hit list" where
  "history_rows d code vin org =
     take 10 (sort_desc hh_started
       (concat (map (\<lambda>(r, s). map (\<lambda>(s, v). \<lparr>hh_scan = ss_id s, hh_vin = v, hh_link = ss_link s, hh_started = ss_started s,
                                          hh_status = dr_status r\<rparr>)
                 (filter (\<lambda>(_, v). vin = [] \<or> v = vin) (with_vin d [s])))
         (code_sessions d (\<lambda>c. c = code) org))))"

definition explain_code :: "string \<Rightarrow> string \<Rightarrow> uuid option \<Rightarrow> explanation store_op" where
  "explain_code code vin org = do {
     d \<leftarrow> reads (\<lambda>d. d);
     let (mk, mdl, enr, note, recs) = vehicle_part d vin
     in ret (Inr
       \<lparr>ex_code = code, ex_generic = describe_code code, ex_article = best_article d code mk mdl,
        ex_history = history_rows d code vin org, ex_vehicle = enr, ex_recalls = recs, ex_note = note,
        ex_obs = (if vin = [] then None else (case latest_observations d vin org of Inr x \<Rightarrow> Some x | Inl _ \<Rightarrow> None)),
        ex_co = dtc_co_occurrence d code org 5\<rparr>)
   }"

section \<open>The scan invariant\<close>

definition scans_ok :: "db \<Rightarrow> bool" where
  "scans_ok d \<longleftrightarrow>
     distinct (map v_vin (vehicles d)) \<and> distinct (map v_id (vehicles d)) \<and> (\<forall>v \<in> set (vehicles d). v_id v < next_id d)
   \<and> distinct (map ss_id (sessions d)) \<and> (\<forall>s \<in> set (sessions d). ss_id s < next_id d)
   \<and> (\<forall>s \<in> set (sessions d). ss_vehicle s \<in> set (map v_id (vehicles d)) \<and> ss_tech s \<in> set (map t_id (techs d))
        \<and> ss_org s \<in> set (map o_id (orgs d)))
   \<and> (\<forall>r \<in> set (dtc_rows d). dr_session r \<in> set (map ss_id (sessions d)))"

definition same_scans :: "db \<Rightarrow> db \<Rightarrow> bool" where
  "same_scans d d' \<longleftrightarrow> vehicles d' = vehicles d \<and> sessions d' = sessions d \<and> dtc_rows d' = dtc_rows d
     \<and> next_id d \<le> next_id d' \<and> set (map t_id (techs d)) \<subseteq> set (map t_id (techs d'))
     \<and> set (map o_id (orgs d)) \<subseteq> set (map o_id (orgs d'))"

lemma scans_ok_same: "scans_ok d \<Longrightarrow> same_scans d d' \<Longrightarrow> scans_ok d'"
  unfolding scans_ok_def same_scans_def by (fastforce dest: order_less_le_trans)

definition dtc_row_of :: "uuid \<Rightarrow> dtc \<Rightarrow> dtc_row" where
  "dtc_row_of sid c = \<lparr>dr_session = sid, dr_code = dtc_code c, dr_status = stored_status (dtc_status c), dr_freeze = dtc_freeze c\<rparr>"

lemma insert_dtcs_cases:
  assumes "run_state (insert_dtcs sid cs) d = (r, d')"
  shows "(r = Inr () \<and> d' = d\<lparr>dtc_rows := dtc_rows d @ map (dtc_row_of sid) cs\<rparr>) \<or> (isl r \<and> (\<exists>xs. d' = d\<lparr>dtc_rows := xs\<rparr>))"
  using assms
proof (induction cs arbitrary: d)
  case Nil
  then show ?case by simp
next
  case (Cons c cs)
  show ?case
  proof (cases "stored_status (dtc_status c) \<in> {''pending'', ''confirmed'', ''permanent'', ''cleared''}")
    case True
    with Cons.prems have "run_state (insert_dtcs sid cs) (d\<lparr>dtc_rows := dtc_rows d @ [dtc_row_of sid c]\<rparr>) = (r, d')"
      by (auto simp: dtc_row_of_def)
    from Cons.IH [OF this] show ?thesis by auto
  next
    case False
    with Cons.prems have "isl r \<and> d' = d" by auto
    then show ?thesis by (metis db.surjective db.update_convs(6))
  qed
qed

lemma vehicle_for_run:
  assumes "run_state (vehicle_for vin) d = (vid, d')" and "scans_ok d"
  shows "scans_ok d' \<and> (\<exists>v \<in> set (vehicles d'). v_id v = vid \<and> v_vin v = vin) \<and> sessions d' = sessions d
    \<and> dtc_rows d' = dtc_rows d \<and> techs d' = techs d \<and> orgs d' = orgs d \<and> next_id d \<le> next_id d' \<and> clock d' = clock d
    \<and> same_accounts d d' \<and> set (vehicles d) \<subseteq> set (vehicles d') \<and> set (map v_vin (vehicles d')) = insert vin (set (map v_vin (vehicles d)))"
proof (cases "find (\<lambda>v. v_vin v = vin) (vehicles d)")
  case (Some v)
  with assms find_SomeD [OF Some] show ?thesis
    by (auto simp: vehicle_for_def same_accounts_def)
next
  case None
  then have "vin \<notin> set (map v_vin (vehicles d))"
    using find_NoneD [OF None] by auto
  with assms None show ?thesis
    by (fastforce simp: vehicle_for_def scans_ok_def same_accounts_def)
qed

lemma insert_session_cases:
  assumes "run_state (insert_session s) d = (r, d')"
  shows "(r = Inr () \<and> d' = d\<lparr>sessions := sessions d @ [s]\<rparr> \<and> ss_tech s \<in> set (map t_id (techs d)) \<and> ss_org s \<in> set (map o_id (orgs d)))
    \<or> (isl r \<and> d' = d)"
  using assms by (auto simp: insert_session_def split: if_splits)

lemma scans_ok_add:
  assumes "scans_ok d" and "ss_id s = next_id d" and "ss_vehicle s \<in> set (map v_id (vehicles d))"
    and "ss_tech s \<in> set (map t_id (techs d))" and "ss_org s \<in> set (map o_id (orgs d))"
  shows "scans_ok (d\<lparr>next_id := Suc (next_id d), sessions := sessions d @ [s],
    dtc_rows := dtc_rows d @ map (dtc_row_of (next_id d)) cs\<rparr>)"
proof -
  have ids: "\<forall>x \<in> set (sessions d). ss_id x < next_id d" "\<forall>v \<in> set (vehicles d). v_id v < next_id d"
    using assms(1) by (simp_all add: scans_ok_def)
  have "distinct (map ss_id (sessions d @ [s]))"
    using assms(1,2) ids(1) by (auto simp: scans_ok_def)
  moreover have "\<forall>x \<in> set (sessions d @ [s]). ss_id x < Suc (next_id d)" "\<forall>v \<in> set (vehicles d). v_id v < Suc (next_id d)"
    using assms(2) ids by (auto simp: less_Suc_eq)
  moreover have "\<forall>r \<in> set (dtc_rows d @ map (dtc_row_of (next_id d)) cs). dr_session r \<in> set (map ss_id (sessions d @ [s]))"
    using assms(1,2) by (auto simp: scans_ok_def dtc_row_of_def)
  ultimately show ?thesis
    using assms(1,3-5) unfolding scans_ok_def by (auto simp del: map_append)
qed

text \<open>A body that succeeds adds one session with its codes, for a vehicle of the VIN.\<close>

definition stored :: "uuid \<Rightarrow> uuid \<Rightarrow> create_scan_input \<Rightarrow> scan_record \<Rightarrow> db \<Rightarrow> db \<Rightarrow> bool" where
  "stored tech org inp rec d d' \<longleftrightarrow>
     (\<exists>s. sessions d' = sessions d @ [s] \<and> ss_id s = sc_id rec \<and> ss_vehicle s = sc_vehicle rec \<and> ss_tech s = tech \<and> ss_org s = org
       \<and> ss_link s = ci_link inp \<and> ss_adapter s = ci_adapter inp \<and> ss_protocol s = ci_protocol inp
       \<and> ss_started s = clock d \<and> ss_finished s = Some (clock d) \<and> ss_obs s = ci_obs inp)
   \<and> dtc_rows d' = dtc_rows d @ map (dtc_row_of (sc_id rec)) (ci_dtcs inp)
   \<and> techs d' = techs d \<and> orgs d' = orgs d \<and> next_id d \<le> sc_id rec \<and> sc_id rec < next_id d'
   \<and> (\<exists>v \<in> set (vehicles d'). v_id v = sc_vehicle rec \<and> v_vin v = ci_vin inp) \<and> set (vehicles d) \<subseteq> set (vehicles d')
   \<and> rec = \<lparr>sc_id = sc_id rec, sc_vehicle = sc_vehicle rec, sc_vin = ci_vin inp, sc_tech = tech, sc_org = org,
             sc_link = ci_link inp, sc_adapter = ci_adapter inp, sc_protocol = ci_protocol inp, sc_started = clock d,
             sc_finished = Some (clock d), sc_dtcs = ci_dtcs inp, sc_obs = ci_obs inp\<rparr>"

lemma create_scan_body_run:
  assumes "run_state (create_scan_body tech org inp) d = (r, d')" and "scans_ok d"
  shows "next_id d \<le> next_id d' \<and> (case r of Inl e \<Rightarrow> True | Inr rec \<Rightarrow>
     scans_ok d' \<and> same_accounts d d' \<and> stored tech org inp rec d d'
     \<and> set (map v_vin (vehicles d')) = insert (ci_vin inp) (set (map v_vin (vehicles d))))"
proof -
  obtain vid d1 where v: "run_state (vehicle_for (ci_vin inp)) d = (vid, d1)" by fastforce
  note d1 = vehicle_for_run [OF v assms(2)]
  let ?s = "\<lparr>ss_id = next_id d1, ss_vehicle = vid, ss_tech = tech, ss_org = org, ss_link = ci_link inp,
            ss_adapter = ci_adapter inp, ss_protocol = ci_protocol inp, ss_started = clock d1, ss_finished = Some (clock d1),
            ss_obs = ci_obs inp\<rparr>"
  let ?d2 = "d1\<lparr>next_id := Suc (next_id d1)\<rparr>"
  obtain q d3 where q: "run_state (insert_session ?s) ?d2 = (q, d3)" by fastforce
  show ?thesis
  proof (cases q)
    case (Inl e)
    with insert_session_cases [OF q] d1 assms(1) v q show ?thesis
      by (auto simp: create_scan_body_def)
  next
    case (Inr u)
    then have d3: "d3 = ?d2\<lparr>sessions := sessions d1 @ [?s]\<rparr>" "tech \<in> set (map t_id (techs d1))" "org \<in> set (map o_id (orgs d1))"
      using insert_session_cases [OF q] by auto
    obtain w d4 where w: "run_state (insert_dtcs (next_id d1) (ci_dtcs inp)) d3 = (w, d4)" by fastforce
    have d': "d' = d4" using assms(1) v q Inr w
      by (auto simp: create_scan_body_def split: sum.splits)
    show ?thesis
    proof (cases w)
      case (Inl e)
      then have "isl r" using assms(1) v q Inr w by (auto simp: create_scan_body_def)
      moreover have "next_id d \<le> next_id d'"
        using insert_dtcs_cases [OF w] d3 d1 d' by auto
      ultimately show ?thesis by (auto split: sum.split)
    next
      case (Inr u')
      then have d4: "d4 = d3\<lparr>dtc_rows := dtc_rows d3 @ map (dtc_row_of (next_id d1)) (ci_dtcs inp)\<rparr>"
        using insert_dtcs_cases [OF w] by auto
      have r: "r = Inr \<lparr>sc_id = next_id d1, sc_vehicle = vid, sc_vin = ci_vin inp, sc_tech = tech, sc_org = org,
             sc_link = ci_link inp, sc_adapter = ci_adapter inp, sc_protocol = ci_protocol inp, sc_started = clock d1,
             sc_finished = Some (clock d1), sc_dtcs = ci_dtcs inp, sc_obs = ci_obs inp\<rparr>"
        using assms(1) v q \<open>q = Inr u\<close> w Inr by (auto simp: create_scan_body_def)
      have "scans_ok d'"
        using scans_ok_add [of d1 ?s "ci_dtcs inp"] d1 d3(2,3) unfolding d' d4 d3(1) by auto
      moreover have "same_accounts d d'"
        using d1 unfolding d' d4 d3(1) by (auto simp: same_accounts_def)
      ultimately show ?thesis
        using d1 unfolding r d' d4 d3(1) by (auto simp: stored_def)
    qed
  qed
qed

lemma filter_unique:
  "distinct (map f xs) \<Longrightarrow> x \<in> set xs \<Longrightarrow> filter (\<lambda>y. f y = f x) xs = [x]"
proof (induction xs)
  case (Cons a xs)
  show ?case
  proof (cases "x = a")
    case True
    with Cons.prems(1) have "filter (\<lambda>y. f y = f x) xs = []"
      by (auto simp: filter_empty_conv) (metis image_eqI)
    with True show ?thesis by simp
  next
    case False
    with Cons show ?thesis by auto
  qed
qed simp

lemma get_scan_found:
  assumes "scans_ok d" and "s \<in> set (sessions d)" and "v \<in> set (vehicles d)" and "v_id v = ss_vehicle s"
  shows "run_state (get_scan (ss_id s)) d = (Inr (scan_of d s (v_vin v) (ss_obs s)), d)"
proof -
  have "filter (\<lambda>x. ss_id x = ss_id s) (sessions d) = [s]"
    using assms(1,2) by (intro filter_unique) (simp_all add: scans_ok_def)
  moreover have "filter (\<lambda>x. v_id x = v_id v) (vehicles d) = [v]"
    using assms(1,3) by (intro filter_unique) (simp_all add: scans_ok_def)
  ultimately show ?thesis
    by (simp add: get_scan_def with_vin_def assms(4) [symmetric])
qed

text \<open>The codes of a scan as they come back: sorted by code, statuses filled in, described.\<close>

definition read_back :: "dtc list \<Rightarrow> dtc list" where
  "read_back cs = map (\<lambda>c. c\<lparr>dtc_status := stored_status (dtc_status c), dtc_desc := describe_code (dtc_code c)\<rparr>) (sort_key dtc_code cs)"

lemma map_sort_key: "map f (sort_key (\<lambda>x. g (f x)) xs) = sort_key g (map f xs)"
proof (rule sym, rule properties_for_sort_key)
  show "mset (map f (sort_key (\<lambda>x. g (f x)) xs)) = mset (map f xs)" by simp
  show "filter (\<lambda>y. g k = g y) (map f (sort_key (\<lambda>x. g (f x)) xs)) = filter (\<lambda>y. g k = g y) (map f xs)" for k
    using sort_key_stable [of "\<lambda>x. g (f x)" "g k" xs] by (simp add: filter_map comp_def eq_commute)
  show "sorted (map g (map f (sort_key (\<lambda>x. g (f x)) xs)))"
    by (simp add: comp_def)
qed

lemma list_dtcs_stored:
  assumes "scans_ok d" and "dtc_rows d' = dtc_rows d @ map (dtc_row_of sid) cs" and "next_id d \<le> sid"
  shows "list_dtcs d' sid = read_back cs"
proof -
  have "\<forall>r \<in> set (dtc_rows d). dr_session r \<noteq> sid"
    using assms(1,3) by (fastforce simp: scans_ok_def)
  then have "filter (\<lambda>r. dr_session r = sid) (dtc_rows d') = map (dtc_row_of sid) cs"
    unfolding assms(2) by (auto simp: dtc_row_of_def filter_empty_conv)
  moreover have "sort_key dr_code (map (dtc_row_of sid) cs) = map (dtc_row_of sid) (sort_key dtc_code cs)"
    using map_sort_key [of "dtc_row_of sid" dr_code cs] by (simp add: dtc_row_of_def)
  moreover have "\<lparr>dtc_code = dtc_code c, dtc_status = stored_status (dtc_status c), dtc_freeze = dtc_freeze c, dtc_desc = describe_code (dtc_code c)\<rparr>
      = c\<lparr>dtc_status := stored_status (dtc_status c), dtc_desc := describe_code (dtc_code c)\<rparr>" for c
    by (cases c) simp
  ultimately show ?thesis
    by (simp add: list_dtcs_def read_back_def dtc_row_of_def comp_def)
qed

lemma get_scan_Inr:
  assumes "fst (run_state (get_scan i) d) = Inr x"
  shows "\<exists>s \<in> set (sessions d). \<exists>v \<in> set (vehicles d). ss_id s = i \<and> v_id v = ss_vehicle s \<and> x = scan_of d s (v_vin v) (ss_obs s)"
proof -
  obtain s vin rest where "with_vin d (filter (\<lambda>s. ss_id s = i) (sessions d)) = (s, vin) # rest"
    and x: "x = scan_of d s vin (ss_obs s)"
    using assms by (auto simp: get_scan_def split: list.splits)
  then have "(s, vin) \<in> set (with_vin d (filter (\<lambda>s. ss_id s = i) (sessions d)))" by simp
  with x show ?thesis by (auto simp: with_vin_def)
qed

lemma get_scan_older:
  assumes "scans_ok d" and "scans_ok d'" and "stored tech org inp rec d d'" and "fst (run_state (get_scan i) d) = Inr x"
  shows "fst (run_state (get_scan i) d') = Inr x"
proof -
  obtain s v where s: "s \<in> set (sessions d)" "v \<in> set (vehicles d)" "ss_id s = i" "v_id v = ss_vehicle s"
    and x: "x = scan_of d s (v_vin v) (ss_obs s)"
    using get_scan_Inr [OF assms(4)] by blast
  have "i < sc_id rec"
    using assms(1,3) s by (fastforce simp: scans_ok_def stored_def)
  then have "list_dtcs d' i = list_dtcs d i"
    using assms(3) by (auto simp: list_dtcs_def stored_def dtc_row_of_def)
  then have "scan_of d' s (v_vin v) (ss_obs s) = x"
    by (simp add: x scan_of_def s(3))
  then show ?thesis
    using get_scan_found [OF assms(2), of s v] assms(3) s by (auto simp: stored_def)
qed

section \<open>Tenants\<close>

text \<open>The database as one shop sees it: the sessions of the others are not there.\<close>

definition only_org :: "uuid \<Rightarrow> db \<Rightarrow> db" where
  "only_org org d = d\<lparr>sessions := filter (\<lambda>s. ss_org s = org) (sessions d)\<rparr>"

lemma with_vin_filter: "with_vin d (filter P ss) = filter (\<lambda>(s, _). P s) (with_vin d ss)"
  by (induction ss) (auto simp: with_vin_def filter_map comp_def filter_empty_conv intro!: filter_True [symmetric])

lemma with_vin_only_org: "with_vin (only_org org d) ss = with_vin d ss"
  by (simp add: with_vin_def only_org_def)

lemma sessions_of_vin_only_org: "sessions_of_vin (only_org org d) vin (Some org) = sessions_of_vin d vin (Some org)"
proof -
  have "filter (\<lambda>(s, v). v = vin \<and> of_org (Some org) s) (with_vin d (filter (\<lambda>s. ss_org s = org) (sessions d)))
      = filter (\<lambda>(s, v). v = vin \<and> of_org (Some org) s) (with_vin d (sessions d))"
    unfolding with_vin_filter filter_filter by (rule filter_cong) (auto simp: of_org_def)
  then show ?thesis
    by (simp add: sessions_of_vin_def with_vin_only_org) (simp add: only_org_def)
qed

lemma list_dtcs_only_org [simp]: "list_dtcs (only_org org d) = list_dtcs d"
  by (simp add: list_dtcs_def only_org_def fun_eq_iff)

lemma code_sessions_only_org: "code_sessions (only_org org d) P (Some org) = code_sessions d P (Some org)"
proof -
  have "filter (\<lambda>s. ss_id s = i \<and> of_org (Some org) s) (filter (\<lambda>s. ss_org s = org) (sessions d))
      = filter (\<lambda>s. ss_id s = i \<and> of_org (Some org) s) (sessions d)" for i
    unfolding filter_filter by (rule filter_cong) (auto simp: of_org_def)
  then show ?thesis
    by (simp add: code_sessions_def only_org_def)
qed

lemma focus_scans_only_org: "focus_scans (only_org org d) focus (Some org) = focus_scans d focus (Some org)"
  by (simp add: focus_scans_def code_sessions_only_org)

lemma co_only_org: "dtc_co_occurrence (only_org org d) focus (Some org) k = dtc_co_occurrence d focus (Some org) k"
proof -
  have "co_rows (only_org org d) focus (Some org) = co_rows d focus (Some org)"
    by (simp add: co_rows_def focus_scans_only_org) (simp add: only_org_def)
  then show ?thesis
    by (simp add: dtc_co_occurrence_def focus_scans_only_org)
qed

lemma history_only_org: "history_rows (only_org org d) code vin (Some org) = history_rows d code vin (Some org)"
  by (simp add: history_rows_def code_sessions_only_org with_vin_only_org)

lemma vehicle_part_only_org: "vehicle_part (only_org org d) vin = vehicle_part d vin"
proof -
  have "get_vehicle_enrichment (only_org org d) = get_vehicle_enrichment d"
    "list_recalls_for_vehicle (only_org org d) = list_recalls_for_vehicle d"
    "list_recalls_mmy (only_org org d) = list_recalls_mmy d" "vehicles (only_org org d) = vehicles d"
    by (simp_all add: only_org_def get_vehicle_enrichment_def list_recalls_for_vehicle_def list_recalls_mmy_def fun_eq_iff)
  then show ?thesis by (simp only: vehicle_part_def)
qed

section \<open>Rates\<close>

lemma count_list_le_length: "count_list xs x \<le> length xs"
  by (induction xs) auto

lemma set_sort_desc [simp]: "set (sort_desc f xs) = set xs"
  by (simp add: sort_desc_def)

lemma sorted_sort_desc: "sorted_wrt (\<lambda>a b. f b \<le> f a) (sort_desc f xs)"
  using sorted_sort_key [of f "rev xs"] by (simp add: sort_desc_def sorted_wrt_rev sorted_map)

lemma count_concat_replicate:
  "count_list (concat (map (\<lambda>r. replicate (k r) (g r)) rs)) c = sum_list (map k (filter (\<lambda>r. g r = c) rs))"
proof (induction rs)
  case (Cons r rs)
  have "count_list (replicate n x) c = (if x = c then n else 0)" for n :: nat and x
    by (induction n) auto
  with Cons show ?case by simp
qed simp

lemma sum_count_distinct:
  "distinct is \<Longrightarrow> sum_list (map (count_list fs) is) \<le> length fs"
proof -
  assume "distinct is"
  then have "sum_list (map (count_list fs) is) = sum (count_list fs) (set is)"
    by (simp add: sum_list_distinct_conv_sum_set)
  also have "\<dots> \<le> sum (count_list fs) (set is \<union> set fs)"
    by (rule sum_mono2) auto
  also have "\<dots> = sum (count_list fs) (set fs)"
    by (rule sum.mono_neutral_right) (auto simp: count_list_0_iff)
  also have "\<dots> = length fs"
    by (rule sum_count_set) auto
  finally show ?thesis .
qed

lemma co_count_le:
  assumes "distinct (map (\<lambda>r. (dr_session r, dr_code r)) (dtc_rows d))"
  shows "count_list (co_rows d focus org) c \<le> length (focus_scans d focus org)"
proof -
  let ?rs = "filter (\<lambda>r. dr_code r = c) (filter (\<lambda>r. to_upper (dr_code r) \<noteq> to_upper focus) (dtc_rows d))"
  have "distinct (map (\<lambda>r. (dr_session r, dr_code r)) ?rs)"
    using assms by (metis (no_types, lifting) distinct_map_filter)
  moreover have "map (\<lambda>r. (dr_session r, dr_code r)) ?rs = map (\<lambda>i. (i, c)) (map dr_session ?rs)"
    by (auto simp: comp_def)
  ultimately have "distinct (map (\<lambda>i. (i, c)) (map dr_session ?rs))"
    by (simp only:)
  then have "distinct (map dr_session ?rs)"
    by (rule distinct_map [THEN iffD1, THEN conjunct1])
  from sum_count_distinct [OF this, of "focus_scans d focus org"] show ?thesis
    by (simp add: co_rows_def count_concat_replicate comp_def)
qed

lemma co_row_rate:
  assumes "count_list cs c \<le> n"
  shows "0 \<le> cr_rate (co_row n cs c) \<and> cr_rate (co_row n cs c) \<le> 1"
proof (cases "n = 0")
  case False
  have "1 \<le> rnd64 (of_int (int n))"
    using rnd64_mono [of 1 "of_int (int n)"] f64.rnd_int [of 1] False by simp
  moreover have "0 \<le> rnd64 (of_int (int (count_list cs c)))" "rnd64 (of_int (int (count_list cs c))) \<le> rnd64 (of_int (int n))"
    using assms by (auto intro!: rnd64_nonneg rnd64_mono)
  ultimately have "0 \<le> rnd64 (of_int (int (count_list cs c))) / rnd64 (of_int (int n))"
    "rnd64 (of_int (int (count_list cs c))) / rnd64 (of_int (int n)) \<le> 1"
    by simp_all
  then show ?thesis
    using False f64.rnd_range [of 0 "rnd64 (of_int (int (count_list cs c))) / rnd64 (of_int (int n))" 1]
    by (simp add: co_row_def f64_div_def f64_of_int_def)
qed (simp add: co_row_def)

lemma best_article_only_org: "best_article (only_org org d) = best_article d"
proof -
  have "articles (only_org org d) = articles d" by (simp add: only_org_def)
  then show ?thesis by (simp add: best_article_def fun_eq_iff)
qed

lemma latest_observations_only_org: "latest_observations (only_org org d) vin (Some org) = latest_observations d vin (Some org)"
  by (simp only: latest_observations_def sessions_of_vin_only_org)

lemma scan_of_only_org: "scan_of (only_org org d) = scan_of d"
  by (simp add: scan_of_def fun_eq_iff)

lemma queries_only_org:
  "fst (run_state (list_scans_by_vin vin (Some org) limit) (only_org org d)) = fst (run_state (list_scans_by_vin vin (Some org) limit) d)"
  "fst (run_state (latest_dtcs_for_vin vin (Some org)) (only_org org d)) = fst (run_state (latest_dtcs_for_vin vin (Some org)) d)"
  "fst (run_state (explain_code code vin (Some org)) (only_org org d)) = fst (run_state (explain_code code vin (Some org)) d)"
  by (simp_all add: list_scans_by_vin_def latest_dtcs_for_vin_def explain_code_def sessions_of_vin_only_org best_article_only_org
      latest_observations_only_org scan_of_only_org history_only_org vehicle_part_only_org co_only_org split: prod.split list.split)

section \<open>A scan that is stored\<close>

lemma create_scan_found:
  assumes "scans_ok d" and "run_state (create_scan parse_uuid inp) d = (Inr rec, d')"
  shows "scans_ok d' \<and> parse_uuid (ci_tech inp) = Inr (sc_tech rec) \<and> parse_uuid (ci_org inp) = Inr (sc_org rec)
    \<and> sc_vin rec = ci_vin inp \<and> sc_obs rec = ci_obs inp
    \<and> run_state (get_scan (sc_id rec)) d' = (Inr (rec\<lparr>sc_dtcs := read_back (ci_dtcs inp)\<rparr>), d')
    \<and> (\<forall>i x. fst (run_state (get_scan i) d) = Inr x \<longrightarrow> fst (run_state (get_scan i) d') = Inr x)"
proof -
  obtain tech org where ids: "parse_uuid (ci_tech inp) = Inr tech" "parse_uuid (ci_org inp) = Inr org"
    and body: "run_state (create_scan_body tech org inp) d = (Inr rec, d')"
    using assms(2) by (auto simp: create_scan_def transaction_Inr split: if_splits sum.splits)
  have ok: "scans_ok d'" and st: "stored tech org inp rec d d'"
    using create_scan_body_run [OF body assms(1)] by auto
  obtain s v where s: "sessions d' = sessions d @ [s]" "ss_id s = sc_id rec" "ss_vehicle s = sc_vehicle rec" "ss_tech s = tech" "ss_org s = org"
      "ss_link s = ci_link inp" "ss_adapter s = ci_adapter inp" "ss_protocol s = ci_protocol inp"
      "ss_started s = clock d" "ss_finished s = Some (clock d)" "ss_obs s = ci_obs inp"
    and v: "v \<in> set (vehicles d')" "v_id v = sc_vehicle rec" "v_vin v = ci_vin inp"
    and rec: "rec = \<lparr>sc_id = sc_id rec, sc_vehicle = sc_vehicle rec, sc_vin = ci_vin inp, sc_tech = tech, sc_org = org,
             sc_link = ci_link inp, sc_adapter = ci_adapter inp, sc_protocol = ci_protocol inp, sc_started = clock d,
             sc_finished = Some (clock d), sc_dtcs = ci_dtcs inp, sc_obs = ci_obs inp\<rparr>"
    using st by (auto simp: stored_def)
  have "list_dtcs d' (sc_id rec) = read_back (ci_dtcs inp)"
    using st by (intro list_dtcs_stored [OF assms(1)]) (auto simp: stored_def)
  then have "scan_of d' s (v_vin v) (ss_obs s) = rec\<lparr>sc_dtcs := read_back (ci_dtcs inp)\<rparr>"
    by (subst rec) (simp add: scan_of_def s v)
  with get_scan_found [OF ok, of s v] have "run_state (get_scan (sc_id rec)) d' = (Inr (rec\<lparr>sc_dtcs := read_back (ci_dtcs inp)\<rparr>), d')"
    using s v by simp
  moreover have "parse_uuid (ci_tech inp) = Inr (sc_tech rec)" "parse_uuid (ci_org inp) = Inr (sc_org rec)"
    using ids by (subst rec, simp)+
  moreover have "fst (run_state (get_scan i) d') = Inr x" if "fst (run_state (get_scan i) d) = Inr x" for i x
    by (rule get_scan_older [OF assms(1) ok st that])
  moreover have "sc_vin rec = ci_vin inp" "sc_obs rec = ci_obs inp"
    by (subst rec, simp)+
  ultimately show ?thesis using ok by simp
qed

text \<open>When nothing stands against it, a scan is stored.\<close>

lemma insert_dtcs_accepts:
  "list_all (\<lambda>c. stored_status (dtc_status c) \<in> {''pending'', ''confirmed'', ''permanent'', ''cleared''}) cs
   \<Longrightarrow> fst (run_state (insert_dtcs sid cs) d) = Inr ()"
  by (induction cs arbitrary: d) auto

lemma create_scan_accepts:
  assumes "scans_ok d" and "ci_vin inp \<noteq> []" and "parse_uuid (ci_tech inp) = Inr tech" and "parse_uuid (ci_org inp) = Inr org"
    and "tech \<in> set (map t_id (techs d))" and "org \<in> set (map o_id (orgs d))" and "ci_link inp \<in> {''usb'', ''bluetooth'', ''mock''}"
    and "list_all (\<lambda>c. stored_status (dtc_status c) \<in> {''pending'', ''confirmed'', ''permanent'', ''cleared''}) (ci_dtcs inp)"
  shows "\<exists>rec d'. run_state (create_scan parse_uuid inp) d = (Inr rec, d')"
proof -
  obtain vid d1 where v: "run_state (vehicle_for (ci_vin inp)) d = (vid, d1)" by fastforce
  then have same: "techs d1 = techs d" "orgs d1 = orgs d"
    using vehicle_for_run [OF v assms(1)] by simp_all
  have "\<exists>rec d'. run_state (create_scan_body tech org inp) d = (Inr rec, d')"
    using assms(5-7) same insert_dtcs_accepts [OF assms(8)]
    by (fastforce simp: create_scan_body_def v fresh_id_def insert_session_def split: prod.split sum.split dest: arg_cong [of _ _ fst])
  then show ?thesis
    using assms(2-4) by (auto simp: create_scan_def transaction_Inr)
qed

section \<open>Properties\<close>

text \<open>
  C15. Storing a scan is all or nothing, and what is stored comes back. When it fails, for a missing VIN, an
  id that does not parse, a reference that does not exist or a status or link type the schema refuses, the tables are as before, no vehicle left
  behind. When it succeeds, the record can be read under its id with its observations and all its codes, sorted and
  described, an empty status read as confirmed; and every scan stored earlier reads as it did.
\<close>
theorem create_scan_stored:
  assumes "scans_ok d" and "run_state (create_scan parse_uuid inp) d = (r, d')"
  shows "case r of
      Inl e \<Rightarrow> \<exists>k. d' = d\<lparr>next_id := k\<rparr>
    | Inr rec \<Rightarrow> scans_ok d' \<and> parse_uuid (ci_tech inp) = Inr (sc_tech rec) \<and> parse_uuid (ci_org inp) = Inr (sc_org rec)
        \<and> run_state (get_scan (sc_id rec)) d' = (Inr (rec\<lparr>sc_dtcs := read_back (ci_dtcs inp)\<rparr>), d')
        \<and> (\<forall>i x. fst (run_state (get_scan i) d) = Inr x \<longrightarrow> fst (run_state (get_scan i) d') = Inr x)"
proof (cases r)
  case (Inl e)
  have "\<exists>k. d = d\<lparr>next_id := k\<rparr>" by (rule exI [of _ "next_id d"]) simp
  with Inl assms(2) show ?thesis
    by (auto simp: create_scan_def transaction_Inl split: if_splits sum.splits)
next
  case (Inr rec)
  with create_scan_found [OF assms(1), of parse_uuid inp rec d'] assms(2) show ?thesis by simp
qed

text \<open>A database with one shop and one technician, and a scan for it; a UUID is written as that many \<open>u\<close>s.\<close>

definition parse_us :: "string \<Rightarrow> gerr + uuid" where
  "parse_us t = (if set t \<subseteq> {CHR ''u''} then Inr (length t) else Inl (Msg ''invalid UUID''))"

definition shop_db :: db where
  "shop_db = (initial_db [] [] (Tick 5))\<lparr>orgs := [\<lparr>o_id = 1, o_name = ''S'', o_network = ''n'', o_invite = ''i''\<rparr>],
     techs := [\<lparr>t_id = 2, t_org = Some 1, t_email = ''a@b'', t_hash = [], t_name = ''A'', t_role = RoleOrgAdmin, t_active = True\<rparr>],
     next_id := 3\<rparr>"

definition shop_dtc :: "string \<Rightarrow> dtc" where
  "shop_dtc c = \<lparr>dtc_code = c, dtc_status = [], dtc_freeze = None, dtc_desc = []\<rparr>"

definition shop_scan :: "string list \<Rightarrow> create_scan_input" where
  "shop_scan cs = \<lparr>ci_tech = ''uu'', ci_org = ''u'', ci_vin = ''V'', ci_link = ''usb'', ci_adapter = ''elm'', ci_protocol = ''p'',
     ci_notes = [], ci_dtcs = map shop_dtc cs, ci_obs = None\<rparr>"

lemma shop_db_ok: "scans_ok shop_db"
  by (simp add: scans_ok_def shop_db_def initial_db_def)

lemma run_shop_scan:
  "run_state (create_scan parse_us (shop_scan [''P0420'', ''P0300''])) shop_db =
    (Inr \<lparr>sc_id = 4, sc_vehicle = 3, sc_vin = ''V'', sc_tech = 2, sc_org = 1, sc_link = ''usb'', sc_adapter = ''elm'',
       sc_protocol = ''p'', sc_started = Tick 5, sc_finished = Some (Tick 5), sc_dtcs = [shop_dtc ''P0420'', shop_dtc ''P0300''],
       sc_obs = None\<rparr>,
     shop_db\<lparr>next_id := 5, vehicles := [\<lparr>v_id = 3, v_vin = ''V'', v_make = None, v_model = None, v_year = None, v_engine = None\<rparr>],
       sessions := [\<lparr>ss_id = 4, ss_vehicle = 3, ss_tech = 2, ss_org = 1, ss_link = ''usb'', ss_adapter = ''elm'', ss_protocol = ''p'',
         ss_started = Tick 5, ss_finished = Some (Tick 5), ss_obs = None\<rparr>],
       dtc_rows := [\<lparr>dr_session = 4, dr_code = ''P0420'', dr_status = ''confirmed'', dr_freeze = None\<rparr>,
         \<lparr>dr_session = 4, dr_code = ''P0300'', dr_status = ''confirmed'', dr_freeze = None\<rparr>]\<rparr>)"
  by (simp add: create_scan_def shop_scan_def parse_us_def transaction_def create_scan_body_def vehicle_for_def fresh_id_def
      shop_db_def initial_db_def insert_session_def shop_dtc_def stored_status_def DTCConfirmed_def)

theorem create_scan_stored_witness:
  "\<exists>rec d. run_state (get_scan 4) d = (Inr rec, d) \<and> sc_vin rec = ''V''
     \<and> sc_dtcs rec = read_back [shop_dtc ''P0420'', shop_dtc ''P0300'']"
proof -
  obtain rec d where run: "run_state (create_scan parse_us (shop_scan [''P0420'', ''P0300''])) shop_db = (Inr rec, d)"
    and rec: "sc_id rec = 4" "sc_vin rec = ''V''"
    using run_shop_scan by fastforce
  have "run_state (get_scan 4) d = (Inr (rec\<lparr>sc_dtcs := read_back [shop_dtc ''P0420'', shop_dtc ''P0300'']\<rparr>), d)"
    using create_scan_stored [OF shop_db_ok run] rec by (simp add: shop_scan_def)
  with rec(2) show ?thesis by force
qed

text \<open>
  C16. Shops are isolated from one another: every query that is asked for one shop (the scans of a
  VIN, its latest codes, and the explanation of a code with its history, observations and
  co-occurring codes) answers as if the sessions of the other shops did not exist.
\<close>
theorem tenant_isolation:
  "fst (run_state (list_scans_by_vin vin (Some org) limit) d) = fst (run_state (list_scans_by_vin vin (Some org) limit) (only_org org d))
   \<and> fst (run_state (latest_dtcs_for_vin vin (Some org)) d) = fst (run_state (latest_dtcs_for_vin vin (Some org)) (only_org org d))
   \<and> fst (run_state (explain_code code vin (Some org)) d) = fst (run_state (explain_code code vin (Some org)) (only_org org d))"
  by (simp only: queries_only_org)

text \<open>
  C39. The codes that occur together with a focus code: at most \<open>limit\<close> rows (five by default), ordered
  by falling rate, never the focus code itself in any spelling, each seen at least once; and when no scan lists
  a code twice, every rate is a share between 0 and 1.
\<close>
theorem co_occurrence_ranked:
  "(let rows = dtc_co_occurrence d focus org limit in
     length rows \<le> (if limit \<le> 0 then 5 else nat limit)
   \<and> sorted_wrt (\<lambda>a b. cr_rate b \<le> cr_rate a) rows
   \<and> (\<forall>r \<in> set rows. to_upper (cr_code r) \<noteq> to_upper focus \<and> 1 \<le> cr_with r \<and> cr_focus r = int (length (focus_scans d focus org)))
   \<and> (distinct (map (\<lambda>r. (dr_session r, dr_code r)) (dtc_rows d)) \<longrightarrow> (\<forall>r \<in> set rows. 0 \<le> cr_rate r \<and> cr_rate r \<le> 1)))"
proof -
  let ?cs = "co_rows d focus org" and ?n = "length (focus_scans d focus org)"
  have mem: "\<exists>c \<in> set ?cs. r = co_row ?n ?cs c" if "r \<in> set (dtc_co_occurrence d focus org limit)" for r
    using in_set_takeD [OF that [unfolded dtc_co_occurrence_def Let_def]] by auto
  have "to_upper c \<noteq> to_upper focus \<and> 1 \<le> count_list ?cs c" if "c \<in> set ?cs" for c
    using that by (auto simp: co_rows_def Suc_le_eq count_list_0_iff neq0_conv [symmetric] simp del: neq0_conv)
  then have rows: "\<forall>r \<in> set (dtc_co_occurrence d focus org limit).
      to_upper (cr_code r) \<noteq> to_upper focus \<and> 1 \<le> cr_with r \<and> cr_focus r = int ?n"
    using mem by (fastforce simp: co_row_def)
  have "length (dtc_co_occurrence d focus org limit) \<le> (if limit \<le> 0 then 5 else nat limit)"
    by (simp add: dtc_co_occurrence_def Let_def)
  moreover have "sorted_wrt (\<lambda>a b. cr_rate b \<le> cr_rate a) (dtc_co_occurrence d focus org limit)"
    unfolding dtc_co_occurrence_def Let_def by (rule sorted_wrt_take) (rule sorted_sort_desc)
  moreover have "\<forall>r \<in> set (dtc_co_occurrence d focus org limit). 0 \<le> cr_rate r \<and> cr_rate r \<le> 1"
    if "distinct (map (\<lambda>r. (dr_session r, dr_code r)) (dtc_rows d))"
    using mem co_row_rate [OF co_count_le [OF that]] by blast
  ultimately show ?thesis
    using rows unfolding Let_def by blast
qed

definition co_db :: db where
  "co_db = shop_db\<lparr>
     sessions := [\<lparr>ss_id = 4, ss_vehicle = 3, ss_tech = 2, ss_org = 1, ss_link = ''usb'', ss_adapter = ''elm'', ss_protocol = ''p'',
         ss_started = Tick 5, ss_finished = Some (Tick 5), ss_obs = None\<rparr>],
     dtc_rows := [\<lparr>dr_session = 4, dr_code = ''P0420'', dr_status = ''confirmed'', dr_freeze = None\<rparr>,
         \<lparr>dr_session = 4, dr_code = ''P0300'', dr_status = ''confirmed'', dr_freeze = None\<rparr>]\<rparr>"

lemma co_db_rows: "co_rows co_db ''p0300'' (Some (Suc 0)) = [''P0420'']" "focus_scans co_db ''p0300'' (Some (Suc 0)) = [4]"
  by code_simp+

theorem co_occurrence_ranked_witness:
  "\<exists>r. dtc_co_occurrence co_db ''p0300'' (Some 1) 0 = [r] \<and> cr_with r = 1 \<and> cr_focus r = 1 \<and> 0 \<le> cr_rate r \<and> cr_rate r \<le> 1"
proof -
  let ?r = "co_row (Suc 0) [''P0420''] ''P0420''"
  have rows: "dtc_co_occurrence co_db ''p0300'' (Some (Suc 0)) 0 = [?r]"
    by (simp add: dtc_co_occurrence_def co_db_rows sort_desc_def)
  have "distinct (map (\<lambda>r. (dr_session r, dr_code r)) (dtc_rows co_db))"
    by (simp add: co_db_def)
  then have "0 \<le> cr_rate ?r \<and> cr_rate ?r \<le> 1"
    using co_occurrence_ranked [of co_db "''p0300''" "Some 1" 0] by (simp add: rows)
  then show ?thesis by (simp add: rows) (simp add: co_row_def)
qed

end
