(* ===== verification/Explain.thy ===== *)
theory Explain
  imports StoreTypes Diagnosis Actions Json
begin

text \<open>
  \<^verbatim>\<open>internal/explain\<close>: the lean packet of \<^verbatim>\<open>packet.go\<close> that is all a language model gets to see,
  its text as JSON, the decision whether to ask, the request and the cache of \<^verbatim>\<open>narrative.go\<close>. SHA-256,
  the HTTP exchange and the JSON of the reply are arguments.
\<close>

section \<open>The packet\<close>

record packet_finding =
  pf_id :: string
  pf_title :: string
  pf_confidence :: float64
  pf_evidence :: "string list"

record packet_kb =
  pk_title :: string
  pk_summary :: string
  pk_causes :: "string list"
  pk_tests :: "string list"
  pk_parts :: "string list"

record packet =
  p_code :: string
  p_vehicle :: string
  p_findings :: "packet_finding list"
  p_kb :: "packet_kb option"
  p_co :: "(string \<times> float64) list"
  p_history :: "string list"
  p_ask :: string

record build_input =
  bi_code :: string
  bi_findings :: "finding list"
  bi_article :: "knowledge_article option"
  bi_vehicle :: "vehicle_enrichment option"
  bi_co :: "co_occur_row list"
  bi_history :: "history_hit list"

definition clip_sentence :: "string \<Rightarrow> nat \<Rightarrow> string" where
  "clip_sentence s0 n =
     (let s = join '' '' (str_fields s0)
      in if length s \<le> n then s
         else let cut = last_index (take n s) ''. ''
              in if cut > int (n div 2) then take (nat (cut + 1)) s
                 else take (n - 1) s @ ellipsis)"

definition round2 :: "float64 \<Rightarrow> float64" where
  "round2 v = f64_div (f64_of_int (f64_to_int (f64_add (f64_mul v 100) (1 / 2)))) 100"

text \<open>\<^verbatim>\<open>Format("2006-01-02")\<close> in UTC: the civil date of a number of milliseconds since 1970.\<close>

definition civil_date :: "nat \<Rightarrow> nat \<times> nat \<times> nat" where
  "civil_date day =
     (let z = day + 719468;
          doe = z mod 146097;
          yoe = (doe - doe div 1460 + doe div 36524 - doe div 146096) div 365;
          doy = doe - (365 * yoe + yoe div 4 - yoe div 100);
          mp = (5 * doy + 2) div 153;
          d = doy - (153 * mp + 2) div 5 + 1;
          m = (if mp < 10 then mp + 3 else mp - 9)
      in (yoe + z div 146097 * 400 + (if m \<le> 2 then 1 else 0), m, d))"

definition date_text :: "timestamp \<Rightarrow> string" where
  "date_text t =
     (let (y, m, d) = civil_date (ticks t div 86400000)
      in pad_zeros 4 (show_nat y) @ ''-'' @ pad_zeros 2 (show_nat m) @ ''-'' @ pad_zeros 2 (show_nat d))"

definition vehicle_text :: "vehicle_enrichment \<Rightarrow> string" where
  "vehicle_text v =
     join '' '' ((if ve_make v \<noteq> [] then [ve_make v] else []) @ (if ve_model v \<noteq> [] then [ve_model v] else [])
       @ (if ve_year v > 0 then [show_int (ve_year v)] else []))"

definition packet_ask :: string where
  "packet_ask = ''Write a short bay triage (5'' @ [CHR 0xE2, CHR 0x80, CHR 0x93]
     @ ''8 sentences) for a technician. Use only CONTEXT. Cite finding ids. Do not invent DTCs, parts, or measurements.''"

definition pack_finding :: "finding \<Rightarrow> packet_finding" where
  "pack_finding f = \<lparr>pf_id = f_id f, pf_title = f_title f, pf_confidence = f_confidence f, pf_evidence = take 2 (f_evidence f)\<rparr>"

definition pack_article :: "knowledge_article \<Rightarrow> packet_kb" where
  "pack_article a = \<lparr>pk_title = ka_title a, pk_summary = clip_sentence (ka_summary a) 280,
     pk_causes = take 3 (ka_causes a), pk_tests = take 3 (ka_tests a), pk_parts = take 3 (ka_parts a)\<rparr>"

fun pack_co :: "(string \<times> float64) list \<Rightarrow> co_occur_row list \<Rightarrow> (string \<times> float64) list" where
  "pack_co out [] = out"
| "pack_co out (c # cs) =
     (if cr_rate c < 1 / 4 then pack_co out cs
      else let out' = out @ [(cr_code c, round2 (cr_rate c))]
           in if length out' \<ge> 2 then out' else pack_co out' cs)"

definition build_packet :: "build_input \<Rightarrow> packet" where
  "build_packet inp =
     \<lparr>p_code = to_upper (trim_space (bi_code inp)),
      p_vehicle = (case bi_vehicle inp of Some v \<Rightarrow> vehicle_text v | None \<Rightarrow> []),
      p_findings = map pack_finding (take 3 (bi_findings inp)),
      p_kb = map_option pack_article (bi_article inp),
      p_co = pack_co [] (bi_co inp),
      p_history = map (\<lambda>h. date_text (hh_started h) @ '' '' @ hh_status h) (take 2 (bi_history inp)),
      p_ask = packet_ask\<rparr>"

definition worth_narrating :: "packet \<Rightarrow> bool \<Rightarrow> bool \<times> string" where
  "worth_narrating p force =
     (if force then (True, ''forced'')
      else if p_findings p = [] \<and> p_kb p = None then (False, ''no_findings_or_kb'')
      else if length (p_findings p) = 1 \<and> pf_confidence (p_findings p ! 0) \<ge> 85 \<and> p_kb p \<noteq> None
      then (False, ''structured_sufficient'')
      else if p_findings p = [] \<and> p_kb p \<noteq> None then (False, ''kb_only'')
      else (True, ''ok''))"

section \<open>The text of a packet\<close>

text \<open>The tags of the structs: the names of the fields, and which are left out when empty.\<close>

definition strings_json :: "string list \<Rightarrow> json" where
  "strings_json xs = JArr (map JStr xs)"

definition unless_empty :: "string \<Rightarrow> ('a list \<Rightarrow> json) \<Rightarrow> 'a list \<Rightarrow> (string \<times> json) list" where
  "unless_empty k f xs = (if xs = [] then [] else [(k, f xs)])"

definition finding_json :: "packet_finding \<Rightarrow> json" where
  "finding_json f = JObj ([(''id'', JStr (pf_id f)), (''title'', JStr (pf_title f)), (''confidence'', JNum (pf_confidence f))]
     @ unless_empty ''evidence'' strings_json (pf_evidence f))"

definition kb_json :: "packet_kb \<Rightarrow> json" where
  "kb_json k = JObj ([(''title'', JStr (pk_title k)), (''summary'', JStr (pk_summary k))]
     @ unless_empty ''causes'' strings_json (pk_causes k) @ unless_empty ''tests'' strings_json (pk_tests k)
     @ unless_empty ''parts'' strings_json (pk_parts k))"

definition co_json :: "string \<times> float64 \<Rightarrow> json" where
  "co_json c = JObj [(''code'', JStr (fst c)), (''rate'', JNum (snd c))]"

definition packet_json :: "packet \<Rightarrow> json" where
  "packet_json p = JObj ([(''code'', JStr (p_code p))]
     @ unless_empty ''vehicle'' JStr (p_vehicle p)
     @ unless_empty ''findings'' (\<lambda>fs. JArr (map finding_json fs)) (p_findings p)
     @ (case p_kb p of None \<Rightarrow> [] | Some k \<Rightarrow> [(''kb'', kb_json k)])
     @ unless_empty ''co_occur'' (\<lambda>cs. JArr (map co_json cs)) (p_co p)
     @ unless_empty ''history'' strings_json (p_history p)
     @ [(''ask'', JStr (p_ask p))])"

definition hex_text :: "string \<Rightarrow> string" where
  "hex_text bs = concat (map (\<lambda>c. [hex_low (code_of c div 16), hex_low (code_of c mod 16)]) bs)"

text \<open>\<^verbatim>\<open>Fingerprint\<close>, over \<^verbatim>\<open>sha256.Sum256\<close>.\<close>

definition fingerprint :: "(string \<Rightarrow> string) \<Rightarrow> packet \<Rightarrow> string" where
  "fingerprint sha p = hex_text (take 16 (sha (encode (packet_json p))))"

definition system_prompt :: string where
  "system_prompt = join [CHR 0x0A]
     [''You are MechMind, a technician triage assistant.'',
      ''Use ONLY the JSON CONTEXT the user provides.'',
      ''If CONTEXT is insufficient, say so briefly.'',
      ''Cite finding ids in parentheses when you rely on them.'',
      ''Never invent DTCs, sensor values, or parts not present in CONTEXT.'',
      ''Keep the answer concise for a busy bay.'']"

definition user_prompt :: "packet \<Rightarrow> string" where
  "user_prompt p = ''CONTEXT:'' @ [CHR 0x0A] @ encode (packet_json p)"

section \<open>The narrator\<close>

record cache_entry =
  ce_text :: string
  ce_model :: string
  ce_created :: nat

record 'w narrator =
  n_enabled :: bool
  n_key :: string
  n_model :: string
  n_base :: string
  n_ttl :: nat
  n_cache :: "(string \<times> cache_entry) list"
  n_world :: 'w

record narrative_result =
  nr_text :: string
  nr_model :: string
  nr_cached :: bool
  nr_skipped :: bool
  nr_reason :: string
  nr_fp :: string
  nr_packet :: packet

definition new_narrator :: "bool \<Rightarrow> string \<Rightarrow> string \<Rightarrow> string \<Rightarrow> 'w \<Rightarrow> 'w narrator" where
  "new_narrator enabled api_key base_url model w =
     \<lparr>n_enabled = (enabled \<and> api_key \<noteq> []), n_key = api_key,
      n_model = (if model = [] then ''gpt-4o-mini'' else model),
      n_base = trim_right_char (CHR ''/'') (if base_url = [] then ''https://api.openai.com/v1'' else base_url),
      n_ttl = 24 * 60 * 60 * 1000, n_cache = [], n_world = w\<rparr>"

text \<open>
  The services the narrator calls: SHA-256, the clock, the making of a request (an address that does not parse is refused), its round trip,
  and the contents of the reply's choices.
\<close>

record llm_request =
  lq_url :: string
  lq_bearer :: string
  lq_body :: string

record 'w llm =
  l_sha :: "string \<Rightarrow> string"
  l_now :: "'w \<Rightarrow> nat"
  l_new_request :: "string \<Rightarrow> gerr option"
  l_do :: "llm_request \<Rightarrow> 'w \<Rightarrow> (gerr + int \<times> string) \<times> 'w"
  l_choices :: "string \<Rightarrow> gerr + string list"

definition complete_reply :: "'w llm \<Rightarrow> gerr + int \<times> string \<Rightarrow> gerr + string" where
  "complete_reply L r =
     (case r of
        Inl e \<Rightarrow> Inl e
      | Inr (status, whole) \<Rightarrow>
          let body = take (2 ^ 20) whole in
          if status \<ge> 300 then Inl (Msg (''http '' @ show_int status @ '': '' @ take 200 body))
          else case l_choices L body of
                 Inl e \<Rightarrow> Inl e
               | Inr cs \<Rightarrow>
                   if cs = [] \<or> trim_space (hd cs) = [] then Inl (Msg ''empty llm response'')
                   else Inr (trim_space (hd cs)))"

text \<open>The body is a Go map, which \<^verbatim>\<open>Marshal\<close> writes in the order of its keys.\<close>

definition message_json :: "string \<Rightarrow> string \<Rightarrow> json" where
  "message_json role content = JObj [(''content'', JStr content), (''role'', JStr role)]"

definition completion_body :: "string \<Rightarrow> packet \<Rightarrow> json" where
  "completion_body model p =
     JObj [(''max_tokens'', JNum 400),
       (''messages'', JArr [message_json ''system'' system_prompt, message_json ''user'' (user_prompt p)]),
       (''model'', JStr model), (''temperature'', JNum (rnd64 (1 / 5)))]"

definition completion_request :: "'w narrator \<Rightarrow> packet \<Rightarrow> llm_request" where
  "completion_request n p = \<lparr>lq_url = n_base n @ ''/chat/completions'', lq_bearer = ''Bearer '' @ n_key n,
     lq_body = encode (completion_body (n_model n) p)\<rparr>"

definition complete :: "'w llm \<Rightarrow> packet \<Rightarrow> ('w narrator, gerr + string) state" where
  "complete L p = do {
     rq \<leftarrow> reads (\<lambda>n. completion_request n p);
     case l_new_request L (lq_url rq) of
       Some e \<Rightarrow> ret (Inl e)
     | None \<Rightarrow> do {
         r \<leftarrow> reads (\<lambda>n. l_do L rq (n_world n));
         modify (\<lambda>n. n\<lparr>n_world := snd r\<rparr>);
         ret (complete_reply L (fst r))
       }
   }"

definition skip_result :: "string \<Rightarrow> packet \<Rightarrow> string \<Rightarrow> narrative_result" where
  "skip_result fp p reason =
     \<lparr>nr_text = [], nr_model = [], nr_cached = False, nr_skipped = True, nr_reason = reason, nr_fp = fp, nr_packet = p\<rparr>"

definition text_result :: "string \<Rightarrow> packet \<Rightarrow> bool \<Rightarrow> string \<Rightarrow> string \<Rightarrow> narrative_result" where
  "text_result fp p cached text model =
     \<lparr>nr_text = text, nr_model = model, nr_cached = cached, nr_skipped = False, nr_reason = [], nr_fp = fp, nr_packet = p\<rparr>"

definition ask_model :: "'w llm \<Rightarrow> string \<Rightarrow> packet \<Rightarrow> ('w narrator, narrative_result) state" where
  "ask_model L fp p = do {
     r \<leftarrow> complete L p;
     case r of
       Inl e \<Rightarrow> ret (skip_result fp p (''llm_error: '' @ err_text e))
     | Inr text \<Rightarrow> do {
         model \<leftarrow> reads n_model;
         modify (\<lambda>n. n\<lparr>n_cache := AList.update fp
           \<lparr>ce_text = text, ce_model = model, ce_created = l_now L (n_world n)\<rparr> (n_cache n)\<rparr>);
         ret (text_result fp p False text model)
       }
   }"

definition narrate :: "'w llm \<Rightarrow> packet \<Rightarrow> bool \<Rightarrow> ('w narrator, narrative_result) state" where
  "narrate L p force =
     (let fp = fingerprint (l_sha L) p;
          (ok, reason) = worth_narrating p force
      in if \<not> ok then ret (skip_result fp p reason)
         else do {
           enabled \<leftarrow> reads n_enabled;
           if \<not> enabled then ret (skip_result fp p ''llm_disabled'')
           else do {
             hit \<leftarrow> reads (\<lambda>n. map_of (n_cache n) fp);
             fresh \<leftarrow> reads (\<lambda>n. case hit of Some e \<Rightarrow> l_now L (n_world n) < ce_created e + n_ttl n | None \<Rightarrow> False);
             case hit of
               Some e \<Rightarrow>
                 if fresh then ret (text_result fp p True (ce_text e) (ce_model e))
                 else do {
                   modify (\<lambda>n. n\<lparr>n_cache := AList.delete fp (n_cache n)\<rparr>);
                   ask_model L fp p
                 }
             | None \<Rightarrow> ask_model L fp p
           }
         })"

section \<open>Lemmas\<close>

lemma last_index_le: "last_index s t \<le> int (length s)"
proof (cases "filter (\<lambda>i. prefix t (drop i s)) [0..<Suc (length s)] = []")
  case False
  then have "last (filter (\<lambda>i. prefix t (drop i s)) [0..<Suc (length s)]) \<in> set [0..<Suc (length s)]"
    by (metis (lifting) filter_is_subset last_in_set subsetD)
  with False show ?thesis
    unfolding last_index_def Let_def by (simp only: if_False) auto
qed (simp add: last_index_def)

lemma length_ellipsis [simp]: "length ellipsis = 3"
  by (simp add: ellipsis_def)

lemma last_index_period: "last_index (take n s) ''. '' + 1 \<le> int n + 1"
  using last_index_le [of "take n s" "''. ''"] by simp

lemma clip_sentence_cases:
  obtains k where "k \<le> n + 1" "clip_sentence s n = take k (join '' '' (str_fields s))"
  | "n < length (join '' '' (str_fields s))" "clip_sentence s n = take (n - 1) (join '' '' (str_fields s)) @ ellipsis"
proof -
  let ?j = "join '' '' (str_fields s)"
  let ?cut = "last_index (take n ?j) ''. ''"
  consider "length ?j \<le> n" | "n < length ?j" "?cut > int (n div 2)" | "n < length ?j" "\<not> ?cut > int (n div 2)"
    by linarith
  then show ?thesis
  proof cases
    case 1
    then show ?thesis using that(1) [of n] by (simp add: clip_sentence_def Let_def)
  next
    case 2
    then have "clip_sentence s n = take (nat (?cut + 1)) ?j" by (simp add: clip_sentence_def Let_def)
    moreover have "nat (?cut + 1) \<le> n + 1" using last_index_period [of n ?j] by linarith
    ultimately show ?thesis using that(1) by blast
  next
    case 3
    then show ?thesis using that(2) by (simp add: clip_sentence_def Let_def)
  qed
qed

lemma length_clip_sentence: "0 < n \<Longrightarrow> length (clip_sentence s n) \<le> n + 2"
  by (cases rule: clip_sentence_cases [of n s]) auto

lemma length_pack_co: "length out \<le> 1 \<Longrightarrow> length (pack_co out cs) \<le> 2"
  by (induction out cs rule: pack_co.induct) (auto simp: Let_def le_Suc_eq)

lemma pack_co_from:
  "(c, r) \<in> set (pack_co out cs) \<Longrightarrow> (c, r) \<in> set out
     \<or> (\<exists>x \<in> set cs. \<not> cr_rate x < 1 / 4 \<and> c = cr_code x \<and> r = round2 (cr_rate x))"
  by (induction out cs rule: pack_co.induct) (auto simp: Let_def split: if_splits)

definition packet_lean :: "packet \<Rightarrow> bool" where
  "packet_lean p \<longleftrightarrow>
     length (p_findings p) \<le> 3 \<and> list_all (\<lambda>f. length (pf_evidence f) \<le> 2) (p_findings p)
   \<and> length (p_co p) \<le> 2 \<and> length (p_history p) \<le> 2
   \<and> (case p_kb p of None \<Rightarrow> True | Some k \<Rightarrow>
        length (pk_causes k) \<le> 3 \<and> length (pk_tests k) \<le> 3 \<and> length (pk_parts k) \<le> 3 \<and> length (pk_summary k) \<le> 282)"

text \<open>The text of a packet determines the packet, when it is well-formed and its numbers are in range.\<close>

definition packet_ok :: "packet \<Rightarrow> bool" where
  "packet_ok p \<longleftrightarrow> json_ok (packet_json p)"

definition value_of :: "string \<Rightarrow> json \<Rightarrow> json option" where
  "value_of k j = (case j of JObj fs \<Rightarrow> map_of fs k | _ \<Rightarrow> None)"

definition text_at :: "string \<Rightarrow> json \<Rightarrow> string" where
  "text_at k j = (case value_of k j of Some (JStr s) \<Rightarrow> s | _ \<Rightarrow> [])"

definition number_at :: "string \<Rightarrow> json \<Rightarrow> float64" where
  "number_at k j = (case value_of k j of Some (JNum x) \<Rightarrow> x | _ \<Rightarrow> 0)"

definition items_at :: "string \<Rightarrow> json \<Rightarrow> json list" where
  "items_at k j = (case value_of k j of Some (JArr js) \<Rightarrow> js | _ \<Rightarrow> [])"

definition text_in :: "json \<Rightarrow> string" where
  "text_in j = (case j of JStr s \<Rightarrow> s | _ \<Rightarrow> [])"

lemmas at_defs = value_of_def text_at_def number_at_def items_at_def text_in_def unless_empty_def strings_json_def comp_def

definition finding_of :: "json \<Rightarrow> packet_finding" where
  "finding_of j = \<lparr>pf_id = text_at ''id'' j, pf_title = text_at ''title'' j, pf_confidence = number_at ''confidence'' j,
     pf_evidence = map text_in (items_at ''evidence'' j)\<rparr>"

definition kb_of :: "json \<Rightarrow> packet_kb" where
  "kb_of j = \<lparr>pk_title = text_at ''title'' j, pk_summary = text_at ''summary'' j, pk_causes = map text_in (items_at ''causes'' j),
     pk_tests = map text_in (items_at ''tests'' j), pk_parts = map text_in (items_at ''parts'' j)\<rparr>"

definition packet_of :: "json \<Rightarrow> packet" where
  "packet_of j = \<lparr>p_code = text_at ''code'' j, p_vehicle = text_at ''vehicle'' j, p_findings = map finding_of (items_at ''findings'' j),
     p_kb = map_option kb_of (value_of ''kb'' j), p_co = map (\<lambda>c. (text_at ''code'' c, number_at ''rate'' c)) (items_at ''co_occur'' j),
     p_history = map text_in (items_at ''history'' j), p_ask = text_at ''ask'' j\<rparr>"

lemma finding_of_json: "finding_of (finding_json f) = f"
  by (cases f) (simp add: finding_of_def finding_json_def at_defs)

lemma kb_of_json: "kb_of (kb_json k) = k"
  by (cases k) (simp add: kb_of_def kb_json_def at_defs)

lemma packet_of_json: "packet_of (packet_json p) = p"
  by (cases p)
    (simp add: packet_of_def packet_json_def co_json_def at_defs finding_of_json kb_of_json split: option.split)

lemma packet_text_inj: "packet_ok p \<Longrightarrow> packet_ok q \<Longrightarrow> encode (packet_json p) = encode (packet_json q) \<Longrightarrow> p = q"
  by (metis encode_inj packet_of_json packet_ok_def)

lemma hex_text_inj: "hex_text a = hex_text b \<Longrightarrow> a = b"
proof (induction a arbitrary: b)
  case Nil
  then show ?case by (cases b) (simp_all add: hex_text_def)
next
  case (Cons c a)
  then obtain d b' where b: "b = d # b'" by (cases b) (simp_all add: hex_text_def)
  have same: "hex_low (code_of c div 16) = hex_low (code_of d div 16)" "hex_low (code_of c mod 16) = hex_low (code_of d mod 16)"
    and rest: "hex_text a = hex_text b'"
    using Cons.prems by (simp_all add: b hex_text_def)
  have "code_of c div 16 = code_of d div 16" "code_of c mod 16 = code_of d mod 16"
    using arg_cong [OF same(1), of hex_val] arg_cong [OF same(2), of hex_val] code_of_less [of c] code_of_less [of d]
    by (simp_all add: hex_val_low div_less_iff_less_mult)
  then have "code_of c = code_of d" by (metis div_mult_mod_eq)
  with Cons.IH [OF rest] b show ?case by (simp add: code_of_eq_iff)
qed

text \<open>A set of packets on which the hash does not collide; only the first 16 bytes count.\<close>

definition hash_apart :: "(string \<Rightarrow> string) \<Rightarrow> (packet \<Rightarrow> bool) \<Rightarrow> bool" where
  "hash_apart sha P \<longleftrightarrow> (\<forall>p q. P p \<and> P q
     \<and> take 16 (sha (encode (packet_json p))) = take 16 (sha (encode (packet_json q)))
     \<longrightarrow> encode (packet_json p) = encode (packet_json q))"

lemma fingerprint_inj:
  assumes "hash_apart sha P" and "P p" and "P q" and "packet_ok p" and "packet_ok q" and "fingerprint sha p = fingerprint sha q"
  shows "p = q"
  using assms hex_text_inj packet_text_inj unfolding fingerprint_def hash_apart_def by blast

text \<open>Which entries the cache may hold: texts that the model gave for a packet of \<open>P\<close> with that fingerprint.\<close>

definition model_text :: "'w llm \<Rightarrow> packet \<Rightarrow> string \<Rightarrow> bool" where
  "model_text L p answer \<longleftrightarrow> (\<exists>(n :: 'w narrator) w. complete_reply L (fst (l_do L (completion_request n p) w)) = Inr answer)"

definition entries_ok :: "'w llm \<Rightarrow> (packet \<Rightarrow> bool) \<Rightarrow> (string \<times> cache_entry) list \<Rightarrow> bool" where
  "entries_ok L P c \<longleftrightarrow> (\<forall>fp e. map_of c fp = Some e \<longrightarrow> (\<exists>p. P p \<and> fingerprint (l_sha L) p = fp \<and> model_text L p (ce_text e)))"

abbreviation cache_ok :: "'w llm \<Rightarrow> (packet \<Rightarrow> bool) \<Rightarrow> 'w narrator \<Rightarrow> bool" where
  "cache_ok L P n \<equiv> entries_ok L P (n_cache n)"

lemma entries_ok_update:
  "entries_ok L P c \<Longrightarrow> P p \<Longrightarrow> model_text L p (ce_text e) \<Longrightarrow> entries_ok L P (AList.update (fingerprint (l_sha L) p) e c)"
  by (auto simp: entries_ok_def update_conv')

lemma entries_ok_delete: "entries_ok L P c \<Longrightarrow> entries_ok L P (AList.delete fp c)"
  by (simp add: entries_ok_def delete_conv')

text \<open>A text for a packet of that fingerprint.\<close>

definition text_for :: "'w llm \<Rightarrow> (packet \<Rightarrow> bool) \<Rightarrow> string \<Rightarrow> string \<Rightarrow> bool" where
  "text_for L P fp answer \<longleftrightarrow> (\<exists>q. P q \<and> fingerprint (l_sha L) q = fp \<and> model_text L q answer)"

lemma entries_okD: "entries_ok L P c \<Longrightarrow> map_of c fp = Some e \<Longrightarrow> text_for L P fp (ce_text e)"
  by (simp add: entries_ok_def text_for_def)

lemma model_textI:
  fixes L :: "'w llm" and n :: "'w narrator"
  shows "complete_reply L (fst (l_do L (completion_request n p) w)) = Inr answer \<Longrightarrow> model_text L p answer"
  by (auto simp: model_text_def)

lemma run_ask_model:
  assumes "run_state (ask_model L fp p) n = (r, n')" and "\<not> nr_skipped r"
  shows "\<exists>answer w. r = text_result fp p False answer (n_model n) \<and> n' = n\<lparr>n_world := w, n_cache := AList.update fp
     \<lparr>ce_text = answer, ce_model = n_model n, ce_created = l_now L w\<rparr> (n_cache n)\<rparr>"
  using assms by (auto simp: ask_model_def complete_def skip_result_def split: prod.splits option.splits sum.splits)

lemma spec_complete: "spec (cache_ok L P) (complete L p) (\<lambda>r n. cache_ok L P n \<and> (\<forall>answer. r = Inr answer \<longrightarrow> model_text L p answer))"
  by (auto simp: spec_def complete_def intro: model_textI split: option.split)

lemma spec_ask_model:
  assumes "P p"
  shows "spec (cache_ok L P) (ask_model L (fingerprint (l_sha L) p) p)
     (\<lambda>r n. cache_ok L P n \<and> (\<not> nr_skipped r \<longrightarrow> text_for L P (fingerprint (l_sha L) p) (nr_text r)))"
  unfolding ask_model_def
  by (rule spec_bind [OF spec_complete])
    (use assms in \<open>auto simp: spec_def skip_result_def text_result_def text_for_def intro!: entries_ok_update split: sum.split\<close>)

lemma spec_narrate:
  assumes "P p"
  shows "spec (cache_ok L P) (narrate L p force)
     (\<lambda>r n. cache_ok L P n \<and> (\<not> nr_skipped r \<longrightarrow> text_for L P (fingerprint (l_sha L) p) (nr_text r)))"
proof (rule specI)
  fix s r t
  assume ok: "cache_ok L P s" and run: "run_state (narrate L p force) s = (r, t)"
  let ?fp = "fingerprint (l_sha L) p"
  have asked: "cache_ok L P t \<and> (\<not> nr_skipped r \<longrightarrow> text_for L P ?fp (nr_text r))"
    if "run_state (ask_model L ?fp p) s' = (r, t)" "cache_ok L P s'" for s'
    using specD [OF spec_ask_model [where P = P, OF assms] that(2,1)] .
  show "cache_ok L P t \<and> (\<not> nr_skipped r \<longrightarrow> text_for L P ?fp (nr_text r))"
    using run ok asked [of s] asked [of "s\<lparr>n_cache := AList.delete ?fp (n_cache s)\<rparr>"] entries_ok_delete [OF ok, of ?fp]
    by (auto simp: narrate_def Let_def skip_result_def text_result_def dest: entries_okD
        split: prod.splits if_splits option.splits)
qed

lemma text_for_own:
  assumes "hash_apart (l_sha L) P" and "\<And>q. P q \<Longrightarrow> packet_ok q" and "P p" and "text_for L P (fingerprint (l_sha L) p) answer"
  shows "model_text L p answer"
  using assms fingerprint_inj by (metis text_for_def)

lemma complete_reply_not_Nil: "complete_reply L r = Inr answer \<Longrightarrow> answer \<noteq> []"
  by (cases r) (auto simp: complete_reply_def Let_def split: sum.splits if_splits)

lemma str_fields_word: "s \<noteq> [] \<Longrightarrow> \<forall>c \<in> set s. \<not> is_space c \<Longrightarrow> str_fields s = [s]"
proof -
  assume s: "s \<noteq> []" "\<forall>c \<in> set s. \<not> is_space c"
  then have w: "dropWhile is_space s = s" "takeWhile (\<lambda>c. \<not> is_space c) s = s" "dropWhile (\<lambda>c. \<not> is_space c) s = []"
    by (auto simp: dropWhile_eq_self_iff)
  then show ?thesis
    unfolding str_fields.simps [of s] Let_def w using s(1) by (simp add: str_fields.simps [of "[]"])
qed

lemma last_index_absent: "CHR ''.'' \<notin> set s \<Longrightarrow> last_index s ''. '' = - 1"
proof -
  assume "CHR ''.'' \<notin> set s"
  then have "\<not> prefix ''. '' (drop i s)" for i
    by (metis in_set_dropD list.set_intros(1) set_mono_prefix subsetD)
  then show ?thesis by (simp add: last_index_def)
qed

text \<open>A model for concrete examples: it always gives the same answer, and the world counts the requests.\<close>

definition fixed_llm :: "string \<Rightarrow> nat llm" where
  "fixed_llm answer = \<lparr>l_sha = id, l_now = (\<lambda>w. w), l_new_request = (\<lambda>_. None), l_do = (\<lambda>_ w. (Inr (200, answer), Suc w)),
     l_choices = (\<lambda>body. Inr [body])\<rparr>"

definition bare_packet :: packet where
  "bare_packet = \<lparr>p_code = ''P0171'', p_vehicle = [], p_findings = [], p_kb = None, p_co = [], p_history = [], p_ask = []\<rparr>"

section \<open>Properties\<close>

text \<open>
  The packet is lean whatever it is built from: at most three findings, the best ranked ones in
  their order, with at most two lines of evidence each, two co-occurring codes, two visits, three causes, tests and
  parts; and it makes nothing up: every code and rate in it is one of the input, at a rate of at least a quarter.
\<close>
theorem build_packet_lean:
  "packet_lean (build_packet inp)
   \<and> map pf_id (p_findings (build_packet inp)) = take 3 (map f_id (bi_findings inp))
   \<and> list_all (\<lambda>(c, r). \<exists>x \<in> set (bi_co inp).
        1 / 4 \<le> cr_rate x \<and> c = cr_code x \<and> r = round2 (cr_rate x)) (p_co (build_packet inp))"
proof -
  have "length (clip_sentence s 280) \<le> 282" for s
    using length_clip_sentence [of 280 s] by simp
  then have "packet_lean (build_packet inp)"
    using length_pack_co [of "[]" "bi_co inp"]
    by (auto simp: packet_lean_def build_packet_def pack_finding_def pack_article_def list_all_iff split: option.split)
  moreover have "map pf_id (p_findings (build_packet inp)) = take 3 (map f_id (bi_findings inp))"
    by (simp add: build_packet_def pack_finding_def take_map)
  moreover have "\<forall>(c, r) \<in> set (p_co (build_packet inp)). \<exists>x \<in> set (bi_co inp).
        1 / 4 \<le> cr_rate x \<and> c = cr_code x \<and> r = round2 (cr_rate x)"
    by (auto simp: build_packet_def not_less dest!: pack_co_from)
  ultimately show ?thesis unfolding list_all_iff by blast
qed

text \<open>
  \<open>clip_sentence\<close> does not keep its limit: it cuts one byte for an ellipsis that is three
  bytes long, so a summary of 281 bytes without a full stop becomes one of 282, longer than
  the limit of 280 and longer than the text it shortens.
\<close>
theorem clip_sentence_overruns:
  "length (clip_sentence (replicate 281 (CHR ''x'')) 280) = 282"
proof -
  let ?x = "CHR ''x''"
  have "str_fields (replicate 281 ?x) = [replicate 281 ?x]"
    by (rule str_fields_word) (simp_all add: is_space_def)
  moreover have "last_index (replicate 280 ?x) ''. '' = - 1"
    by (rule last_index_absent) simp
  ultimately show ?thesis
    by (simp add: clip_sentence_def Let_def)
qed

text \<open>
  Nor does \<open>clip_sentence\<close> keep its text well-formed: the cut counts bytes, and a summary of 141 two-byte letters is cut
  in the middle of one. The language model is then sent a replacement character.
\<close>
theorem clip_sentence_cuts_rune:
  "let s = concat (replicate 141 [CHR 0xC3, CHR 0xA9]) in utf8_ok s \<and> \<not> utf8_ok (clip_sentence s 280)"
proof -
  let ?s = "concat (replicate 141 [CHR 0xC3, CHR 0xA9])"
  have "str_fields ?s = [?s]"
    by (rule str_fields_word) (auto simp: is_space_def)
  moreover have "last_index (take 280 ?s) ''. '' = - 1"
    by (rule last_index_absent) (auto dest: in_set_takeD)
  ultimately have "clip_sentence ?s 280 = take 279 ?s @ ellipsis"
    by (simp add: clip_sentence_def length_concat sum_list_replicate Let_def)
  moreover have "utf8_ok ?s" "\<not> utf8_ok (take 279 ?s @ ellipsis)" by code_simp+
  ultimately show ?thesis by simp
qed

text \<open>
  On MechMind's own findings the answer \<^verbatim>\<open>structured_sufficient\<close> of \<open>worth_narrating\<close> cannot occur:
  it asks for a confidence of 85, and no rule gives more than 80. A packet built from an analysis is narrated
  exactly when the caller forces it or when it has a finding.
\<close>
theorem worth_narrating_analysis:
  "fst (worth_narrating (build_packet (inp\<lparr>bi_findings := analyze scan_f di\<rparr>)) force)
     = (force \<or> 0 < length (analyze scan_f di))
   \<and> snd (worth_narrating (build_packet (inp\<lparr>bi_findings := analyze scan_f di\<rparr>)) force) \<noteq> ''structured_sufficient''"
proof -
  obtain ids where "rules_ok ids 8 (all_rules scan_f di)"
    using all_rules_ok by blast
  then have conf: "f_confidence f \<le> 80" if "f \<in> set (analyze scan_f di)" for f
    using that by (auto simp: analyze_def rules_ok_def finding_ok_def)
  let ?p = "build_packet (inp\<lparr>bi_findings := analyze scan_f di\<rparr>)"
  have pf: "p_findings ?p = map pack_finding (take 3 (analyze scan_f di))"
    by (simp add: build_packet_def)
  have "\<forall>g \<in> set (p_findings ?p). pf_confidence g < 85"
    unfolding pf using conf by (fastforce simp: pack_finding_def dest: in_set_takeD)
  then have low: "\<not> 85 \<le> pf_confidence (p_findings ?p ! 0)" if "length (p_findings ?p) = 1"
    using that nth_mem [of 0 "p_findings ?p"] by fastforce
  have none: "(p_findings (build_packet (inp\<lparr>bi_findings := analyze scan_f di\<rparr>)) = []) = (analyze scan_f di = [])"
    by (simp add: build_packet_def)
  show ?thesis
    using low none by (auto simp: worth_narrating_def)
qed

text \<open>
  Asking again is free: when a packet got a text, asking for it once more before the cache entry is
  too old returns the same text of the same model from the cache, and changes nothing, in particular
  not the outside world.
\<close>
theorem narrate_cached:
  assumes "run_state (narrate L p force) n = (r, n')" and "\<not> nr_skipped r" and "0 < n_ttl n"
  shows "run_state (narrate L p force) n' = (r\<lparr>nr_cached := True\<rparr>, n')"
proof -
  let ?fp = "fingerprint (l_sha L) p"
  have asked: ?thesis if "fst (worth_narrating p force)" "n_enabled n" "run_state (ask_model L ?fp p) m = (r, n')"
    "n_enabled m" "n_ttl m = n_ttl n" for m
    using that run_ask_model [OF that(3) assms(2)] assms(3)
    by (auto simp: narrate_def text_result_def update_conv' Let_def split: prod.splits)
  show ?thesis
    using assms asked [of n] asked [of "n\<lparr>n_cache := AList.delete ?fp (n_cache n)\<rparr>"]
    by (auto simp: narrate_def skip_result_def text_result_def Let_def split: prod.splits if_splits option.splits)
qed

theorem narrate_cached_witness:
  "run_state (narrate (fixed_llm ''Check the intake.'') bare_packet True)
      (snd (run_state (narrate (fixed_llm ''Check the intake.'') bare_packet True) (new_narrator True ''key'' [] [] 0)))
    = ((fst (run_state (narrate (fixed_llm ''Check the intake.'') bare_packet True) (new_narrator True ''key'' [] [] 0)))
        \<lparr>nr_cached := True\<rparr>,
       snd (run_state (narrate (fixed_llm ''Check the intake.'') bare_packet True) (new_narrator True ''key'' [] [] 0)))"
proof -
  let ?run = "run_state (narrate (fixed_llm ''Check the intake.'') bare_packet True) (new_narrator True ''key'' [] [] 0)"
  have "\<not> nr_skipped (fst ?run)"
    by (simp add: narrate_def worth_narrating_def ask_model_def complete_def complete_reply_def fixed_llm_def
        bare_packet_def new_narrator_def text_result_def Let_def trim_space_def trim_left_def is_space_def)
  then show ?thesis
    by (intro narrate_cached [OF prod.collapse [symmetric]]) (simp_all add: new_narrator_def)
qed

text \<open>
  C30. A narrative is the model's own for this packet: starting from an empty cache or any cache filled by packets of \<open>P\<close>, what the
  narrator returns as text, cached or not, is what the language model answered to a request with this very packet, and
  never an empty text; a packet that is not worth it, or a disabled narrator, touches neither the cache nor the network. The packets of \<open>P\<close> are well-formed text with
  numbers in range, and the hash does not collide on them: then the JSON that the fingerprint is taken of tells them apart.
\<close>
theorem narrate_sound:
  assumes "cache_ok L P n" and "run_state (narrate L p force) n = (r, n')" and "P p"
    and "\<And>q. P q \<Longrightarrow> packet_ok q" and "hash_apart (l_sha L) P"
  shows "cache_ok L P n' \<and> (\<not> nr_skipped r \<longrightarrow> model_text L p (nr_text r) \<and> nr_text r \<noteq> [])
    \<and> (\<not> fst (worth_narrating p force) \<or> \<not> n_enabled n \<longrightarrow> n' = n \<and> nr_skipped r)"
proof -
  have "answer \<noteq> []" if "model_text L p answer" for answer
    using that complete_reply_not_Nil by (auto simp: model_text_def)
  moreover have "\<not> fst (worth_narrating p force) \<or> \<not> n_enabled n \<longrightarrow> n' = n \<and> nr_skipped r"
    using assms(2) by (auto simp: narrate_def Let_def skip_result_def split: prod.splits if_splits)
  ultimately show ?thesis
    using specD [OF spec_narrate [where P = P, OF assms(3)] assms(1,2)] text_for_own [OF assms(5,4,3)] by blast
qed

lemma bare_packet_ok: "packet_ok bare_packet"
  by (simp add: packet_ok_def packet_json_def bare_packet_def unless_empty_def utf8_ascii code_of_def)

theorem narrate_sound_witness:
  "model_text (fixed_llm ''ok'') bare_packet (nr_text (fst (run_state (narrate (fixed_llm ''ok'') bare_packet True)
     (new_narrator True ''key'' [] [] 0))))"
proof -
  let ?run = "run_state (narrate (fixed_llm ''ok'') bare_packet True) (new_narrator True ''key'' [] [] 0)"
  let ?P = "\<lambda>p. p = bare_packet"
  have "cache_ok (fixed_llm ''ok'') ?P (new_narrator True ''key'' [] [] 0)"
    by (simp add: new_narrator_def entries_ok_def)
  moreover have "hash_apart (l_sha (fixed_llm ''ok'')) ?P"
    by (simp add: hash_apart_def)
  moreover have "\<not> nr_skipped (fst ?run)"
    by (simp add: narrate_def worth_narrating_def ask_model_def complete_def complete_reply_def fixed_llm_def completion_request_def
        bare_packet_def new_narrator_def text_result_def Let_def trim_space_def trim_left_def is_space_def)
  ultimately show ?thesis
    using narrate_sound [of "fixed_llm ''ok''" ?P _ bare_packet True, OF _ prod.collapse [symmetric]] bare_packet_ok by blast
qed

end
