(* ===== verification/Jobs.thy ===== *)
theory Jobs
  imports Scans
begin

text \<open>
  The queue of \<^verbatim>\<open>internal/store/enrichment.go\<close> and its upserts. A claim is a transaction of two
  statements: the first picks the due job and locks its row (\<^verbatim>\<open>FOR UPDATE SKIP LOCKED\<close>), the second marks
  it as running. The second half of the theory runs any number of workers over the queue, with their
  statements interleaved, and is parametric in what a worker does between claim and answer.
\<close>

section \<open>The queue\<close>

definition job_kinds :: "string list" where
  "job_kinds = [''vin_decode'', ''recalls_mmy'', ''seed_catalog'']"

definition new_job :: "uuid \<Rightarrow> string \<Rightarrow> any_map \<Rightarrow> timestamp \<Rightarrow> timestamp \<Rightarrow> job_row" where
  "new_job i kind payload now run_after =
     \<lparr>j_id = i, j_kind = kind, j_payload = payload, j_status = ''pending'', j_attempts = 0, j_error = None,
      j_created = now, j_run_after = run_after\<rparr>"

definition enqueue_job :: "string \<Rightarrow> any_map \<Rightarrow> timestamp \<Rightarrow> uuid store_op" where
  "enqueue_job kind payload run_after = do {
     i \<leftarrow> fresh_id;
     now \<leftarrow> reads clock;
     if kind \<notin> set job_kinds then ret (Inl (CheckViolation ''enrichment_jobs_kind_check''))
     else do {
       modify (\<lambda>d. d\<lparr>jobs := jobs d @ [new_job i kind payload now run_after]\<rparr>);
       ret (Inr i)
     }
   }"

definition has_recent_job :: "string \<Rightarrow> nat \<Rightarrow> bool store_op" where
  "has_recent_job kind dur = do {
     d \<leftarrow> reads (\<lambda>d. d);
     ret (Inr (list_ex (\<lambda>j. j_kind j = kind \<and> int (ticks (j_created j)) > int (ticks (clock d)) - int dur
       \<and> j_status j \<in> {''pending'', ''running'', ''done''}) (jobs d)))
   }"

definition due :: "timestamp \<Rightarrow> job_row \<Rightarrow> bool" where
  "due now j \<longleftrightarrow> j_status j = ''pending'' \<and> j_run_after j \<le> now"

text \<open>The pick: the first due job in the order of \<^verbatim>\<open>run_after\<close> whose row nobody has locked.\<close>

definition claim_pick :: "uuid set \<Rightarrow> db \<Rightarrow> job_row option" where
  "claim_pick locked d =
     (case sort_key j_run_after (filter (\<lambda>j. due (clock d) j \<and> j_id j \<notin> locked) (jobs d)) of
        [] \<Rightarrow> None | j # _ \<Rightarrow> Some j)"

definition upd_job :: "uuid \<Rightarrow> (job_row \<Rightarrow> job_row) \<Rightarrow> db \<Rightarrow> db" where
  "upd_job i f d = d\<lparr>jobs := map (\<lambda>j. if j_id j = i then f j else j) (jobs d)\<rparr>"

definition claim_mark :: "uuid \<Rightarrow> db \<Rightarrow> db" where
  "claim_mark i = upd_job i (\<lambda>j. j\<lparr>j_status := ''running'', j_attempts := j_attempts j + 1\<rparr>)"

definition claim_job :: "job_row option store_op" where
  "claim_job = do {
     j \<leftarrow> reads (claim_pick {});
     case j of
       None \<Rightarrow> ret (Inr None)
     | Some x \<Rightarrow> do {
         modify (claim_mark (j_id x));
         ret (Inr (Some x))
       }
   }"

definition complete_db :: "uuid \<Rightarrow> db \<Rightarrow> db" where
  "complete_db i = upd_job i (\<lambda>j. j\<lparr>j_status := ''done'', j_error := None\<rparr>)"

definition complete_job :: "uuid \<Rightarrow> unit store_op" where
  "complete_job i = do { modify (complete_db i); ret (Inr ()) }"

definition truncate_err :: "string \<Rightarrow> string" where
  "truncate_err s = (if length s > 500 then take 500 s else s)"

definition fail_db :: "uuid \<Rightarrow> string \<Rightarrow> timestamp \<Rightarrow> db \<Rightarrow> db" where
  "fail_db i msg retry_at = upd_job i (\<lambda>j. j\<lparr>j_status := (if j_attempts j \<ge> 5 then ''failed'' else ''pending''),
     j_error := Some (truncate_err msg), j_run_after := retry_at\<rparr>)"

definition fail_job :: "uuid \<Rightarrow> string \<Rightarrow> timestamp \<Rightarrow> unit store_op" where
  "fail_job i msg retry_at = do { modify (fail_db i msg retry_at); ret (Inr ()) }"

section \<open>Upserts\<close>

definition coalesce :: "'a \<Rightarrow> 'a \<Rightarrow> 'a option \<Rightarrow> 'a option" where
  "coalesce zero new old = (if new = zero then old else Some new)"

definition upsert_vehicle_identity :: "uuid \<Rightarrow> string \<Rightarrow> string \<Rightarrow> int \<Rightarrow> string \<Rightarrow> unit store_op" where
  "upsert_vehicle_identity vid mk mdl year engine = do {
     modify (\<lambda>d. d\<lparr>vehicles := map (\<lambda>v. if v_id v = vid
       then v\<lparr>v_make := coalesce [] mk (v_make v), v_model := coalesce [] mdl (v_model v),
              v_year := coalesce 0 year (v_year v), v_engine := coalesce [] engine (v_engine v)\<rparr>
       else v) (vehicles d)\<rparr>);
     ret (Inr ())
   }"

definition upsert_vehicle_enrichment :: "vehicle_enrichment \<Rightarrow> unit store_op" where
  "upsert_vehicle_enrichment e0 = do {
     d \<leftarrow> reads (\<lambda>d. d);
     let e = e0\<lparr>ve_source := (if ve_source e0 = [] then ''nhtsa_vpic'' else ve_source e0), ve_at := clock d\<rparr>
     in if ve_vehicle e \<notin> set (map v_id (vehicles d))
        then ret (Inl (CheckViolation ''vehicle_enrichment_vehicle_id_fkey''))
        else do {
          modify (\<lambda>d. d\<lparr>enrichments :=
            (if ve_vehicle e \<in> set (map ve_vehicle (enrichments d))
             then map (\<lambda>x. if ve_vehicle x = ve_vehicle e then e else x) (enrichments d)
             else enrichments d @ [e])\<rparr>);
          ret (Inr ())
        }
   }"

definition recall_key :: "recall_row \<Rightarrow> string \<times> string \<times> int \<times> string" where
  "recall_key r = (rc_make r, rc_model r, rc_year r, rc_campaign r)"

definition refresh_recall :: "recall_row \<Rightarrow> recall_row \<Rightarrow> recall_row" where
  "refresh_recall r x = x\<lparr>rc_component := rc_component r, rc_summary := rc_summary r, rc_consequence := rc_consequence r,
     rc_remedy := rc_remedy r, rc_date := rc_date r\<rparr>"

definition upsert_recall_catalog :: "recall_row \<Rightarrow> unit store_op" where
  "upsert_recall_catalog r0 = (let r = r0\<lparr>rc_source := (if rc_source r0 = [] then ''nhtsa'' else rc_source r0)\<rparr> in do {
     modify (\<lambda>d. d\<lparr>recall_cat :=
       (if recall_key r \<in> set (map recall_key (recall_cat d))
        then map (\<lambda>x. if recall_key x = recall_key r then refresh_recall r x else x) (recall_cat d)
        else recall_cat d @ [r])\<rparr>);
     ret (Inr ())
   })"

text \<open>Insert the rows whose campaign the vehicle does not have yet; a repeated campaign conflicts with the first one.\<close>

fun attach_rows :: "uuid \<Rightarrow> recall_row list \<Rightarrow> (uuid \<times> recall_row) list \<Rightarrow> (uuid \<times> recall_row) list" where
  "attach_rows vid [] acc = acc"
| "attach_rows vid (r # rs) acc =
     attach_rows vid rs
       (if (vid, rc_campaign r) \<in> set (map (\<lambda>(v, x). (v, rc_campaign x)) acc) then acc else acc @ [(vid, r)])"

definition mmy_recalls :: "db \<Rightarrow> string \<Rightarrow> string \<Rightarrow> int \<Rightarrow> recall_row list" where
  "mmy_recalls d mk mdl year =
     filter (\<lambda>r. to_lower (rc_make r) = to_lower mk \<and> to_lower (rc_model r) = to_lower mdl \<and> rc_year r = year) (recall_cat d)"

definition attach_recalls :: "uuid \<Rightarrow> string \<Rightarrow> string \<Rightarrow> int \<Rightarrow> nat store_op" where
  "attach_recalls vid mk mdl year = do {
     d \<leftarrow> reads (\<lambda>d. d);
     let rows = attach_rows vid (mmy_recalls d mk mdl year) (veh_recalls d);
         n = length rows - length (veh_recalls d)
     in if n > 0 \<and> vid \<notin> set (map v_id (vehicles d))
        then ret (Inl (CheckViolation ''vehicle_recalls_vehicle_id_fkey''))
        else do {
          modify (\<lambda>d. d\<lparr>veh_recalls := rows\<rparr>);
          ret (Inr n)
        }
   }"

text \<open>The rows of \<^verbatim>\<open>market_models\<close> joined with their makes, which the table holds in the order of the query.\<close>

definition list_market_models :: "market_model list store_op" where
  "list_market_models = do { ms \<leftarrow> reads market; ret (Inr ms) }"

definition enrichment_stats :: "(string \<times> nat) list store_op" where
  "enrichment_stats = do {
     d \<leftarrow> reads (\<lambda>d. d);
     let by_status = map (\<lambda>st. (st, length (filter (\<lambda>j. j_status j = st) (jobs d)))) (remdups (map j_status (jobs d)))
     in ret (Inr (AList.update ''vehicles_enriched'' (length (enrichments d))
               (AList.update ''recall_catalog'' (length (recall_cat d)) by_status)))
   }"

section \<open>The invariant of the queue\<close>

definition job_ok :: "job_row \<Rightarrow> bool" where
  "job_ok j \<longleftrightarrow> j_kind j \<in> set job_kinds \<and> j_attempts j \<le> 5
     \<and> (j_status j = ''pending'' \<and> j_attempts j < 5
      \<or> j_status j \<in> {''running'', ''done''} \<and> 0 < j_attempts j
      \<or> j_status j = ''failed'' \<and> j_attempts j = 5)"

definition jobs_ok :: "db \<Rightarrow> bool" where
  "jobs_ok d \<longleftrightarrow> distinct (map j_id (jobs d)) \<and> list_all (\<lambda>j. j_id j < next_id d) (jobs d) \<and> list_all job_ok (jobs d)"

lemma map_j_id_upd [simp]: "(\<And>j. j_id (f j) = j_id j) \<Longrightarrow> map j_id (jobs (upd_job i f d)) = map j_id (jobs d)"
  by (simp add: upd_job_def)

lemma set_upd_job: "set (jobs (upd_job i f d)) = (\<lambda>j. if j_id j = i then f j else j) ` set (jobs d)"
  by (simp add: upd_job_def)

lemma jobs_ok_upd:
  assumes "jobs_ok d" and "\<And>j. j_id (f j) = j_id j"
    and "\<And>j. j \<in> set (jobs d) \<Longrightarrow> j_id j = i \<Longrightarrow> job_ok j \<Longrightarrow> job_ok (f j)"
  shows "jobs_ok (upd_job i f d)"
proof -
  have "next_id (upd_job i f d) = next_id d" by (simp add: upd_job_def)
  moreover have "distinct (map j_id (jobs (upd_job i f d)))"
    using assms(1,2) by (simp add: jobs_ok_def)
  ultimately show ?thesis
    using assms unfolding jobs_ok_def list_all_iff set_upd_job by auto
qed

lemma upd_job_fields [simp]: "next_id (upd_job i f d) = next_id d" "clock (upd_job i f d) = clock d"
  by (simp_all add: upd_job_def)

lemma answer_clock: "clock (complete_db i d) = clock d" "clock (fail_db i msg t d) = clock d" "clock (claim_mark i d) = clock d"
  by (simp_all add: complete_db_def fail_db_def claim_mark_def upd_job_def)

lemma claim_pick_Some:
  assumes "claim_pick locked d = Some j"
  shows "j \<in> set (jobs d) \<and> due (clock d) j \<and> j_id j \<notin> locked
    \<and> (\<forall>k \<in> set (jobs d). due (clock d) k \<and> j_id k \<notin> locked \<longrightarrow> j_run_after j \<le> j_run_after k)"
proof -
  let ?P = "\<lambda>k. due (clock d) k \<and> j_id k \<notin> locked"
  obtain rest where rest: "sort_key j_run_after (filter ?P (jobs d)) = j # rest"
    using assms by (auto simp: claim_pick_def split: list.splits)
  have "set (j # rest) = set (filter ?P (jobs d))"
    unfolding rest [symmetric] by simp
  moreover have "\<forall>k \<in> set (j # rest). j_run_after j \<le> j_run_after k"
    using sorted_sort_key [of j_run_after "filter ?P (jobs d)"] unfolding rest by auto
  ultimately show ?thesis by (auto simp: set_eq_iff)
qed

lemma claim_pick_None: "claim_pick locked d = None \<longleftrightarrow> (\<forall>k \<in> set (jobs d). due (clock d) k \<longrightarrow> j_id k \<in> locked)"
proof -
  have "claim_pick locked d = None \<longleftrightarrow> sort_key j_run_after (filter (\<lambda>j. due (clock d) j \<and> j_id j \<notin> locked) (jobs d)) = []"
    by (auto simp: claim_pick_def split: list.splits)
  also have "\<dots> \<longleftrightarrow> set (sort_key j_run_after (filter (\<lambda>j. due (clock d) j \<and> j_id j \<notin> locked) (jobs d))) = {}"
    by (simp only: set_empty)
  finally show ?thesis by auto
qed

lemma run_claim_job:
  "run_state claim_job d = (Inr (claim_pick {} d), case claim_pick {} d of Some j \<Rightarrow> claim_mark (j_id j) d | None \<Rightarrow> d)"
  by (simp add: claim_job_def split: option.split)

lemma jobs_ok_mark:
  assumes "jobs_ok d" and "j \<in> set (jobs d)" and "j_status j = ''pending''"
  shows "jobs_ok (claim_mark (j_id j) d)"
  unfolding claim_mark_def
proof (rule jobs_ok_upd [OF assms(1)])
  fix k assume k: "k \<in> set (jobs d)" "j_id k = j_id j" "job_ok k"
  then have "k = j" using assms(1,2) by (auto simp: jobs_ok_def inj_on_def distinct_map)
  with assms(3) k(3) show "job_ok (k\<lparr>j_status := ''running'', j_attempts := j_attempts k + 1\<rparr>)"
    by (auto simp: job_ok_def)
qed simp

lemma jobs_ok_complete:
  assumes "jobs_ok d" and "\<And>j. j \<in> set (jobs d) \<Longrightarrow> j_id j = i \<Longrightarrow> 0 < j_attempts j"
  shows "jobs_ok (complete_db i d)"
  unfolding complete_db_def
  by (rule jobs_ok_upd [OF assms(1)]) (use assms(2) in \<open>auto simp: job_ok_def\<close>)

lemma jobs_ok_fail: "jobs_ok d \<Longrightarrow> jobs_ok (fail_db i msg retry_at d)"
  unfolding fail_db_def by (rule jobs_ok_upd) (auto simp: job_ok_def)

section \<open>Workers\<close>

text \<open>
  A worker has nothing, holds the lock of a row it is about to mark, or works on a job. What happens
  besides the queue, a handler that enqueues, the work of a job itself or the passing of time, may only add fresh pending jobs.
\<close>

datatype wstate = Idle | Picked uuid | Working uuid

record sys =
  sys_db :: db
  workers :: "nat \<Rightarrow> wstate"

definition locked :: "sys \<Rightarrow> uuid set" where
  "locked s = {i. \<exists>w. workers s w = Picked i}"

definition fresh_job :: "db \<Rightarrow> db \<Rightarrow> job_row \<Rightarrow> bool" where
  "fresh_job d d' j \<longleftrightarrow> j_kind j \<in> set job_kinds \<and> j_status j = ''pending'' \<and> j_attempts j = 0
     \<and> next_id d \<le> j_id j \<and> j_id j < next_id d'"

definition rely :: "db \<Rightarrow> db \<Rightarrow> bool" where
  "rely d d' \<longleftrightarrow> next_id d \<le> next_id d' \<and> clock d \<le> clock d'
     \<and> (\<exists>new. jobs d' = jobs d @ new \<and> distinct (map j_id new) \<and> list_all (fresh_job d d') new)"

datatype event = EvPick nat uuid | EvMark nat uuid | EvDone nat uuid | EvFail nat uuid | EvCrash nat | EvOther

inductive step :: "sys \<Rightarrow> event \<Rightarrow> sys \<Rightarrow> bool" where
  pick: "workers s w = Idle \<Longrightarrow> claim_pick (locked s) (sys_db s) = Some j
    \<Longrightarrow> step s (EvPick w (j_id j)) (s\<lparr>workers := (workers s)(w := Picked (j_id j))\<rparr>)"
| mark: "workers s w = Picked i
    \<Longrightarrow> step s (EvMark w i) (s\<lparr>sys_db := claim_mark i (sys_db s), workers := (workers s)(w := Working i)\<rparr>)"
| finish: "workers s w = Working i
    \<Longrightarrow> step s (EvDone w i) (s\<lparr>sys_db := complete_db i (sys_db s), workers := (workers s)(w := Idle)\<rparr>)"
| failed: "workers s w = Working i
    \<Longrightarrow> step s (EvFail w i) (s\<lparr>sys_db := fail_db i msg retry_at (sys_db s), workers := (workers s)(w := Idle)\<rparr>)"
| crash: "step s (EvCrash w) (s\<lparr>workers := (workers s)(w := Idle)\<rparr>)"
| other: "rely (sys_db s) d' \<Longrightarrow> step s EvOther (s\<lparr>sys_db := d'\<rparr>)"

inductive_cases step_cases [elim]: "step s e t"

inductive runs :: "sys \<Rightarrow> event list \<Rightarrow> sys \<Rightarrow> bool" where
  start: "runs s [] s"
| more: "runs s es t \<Longrightarrow> step t e u \<Longrightarrow> runs s (es @ [e]) u"

definition job_of :: "db \<Rightarrow> uuid \<Rightarrow> job_row option" where
  "job_of d i = find (\<lambda>j. j_id j = i) (jobs d)"

definition sys_ok :: "sys \<Rightarrow> bool" where
  "sys_ok s \<longleftrightarrow> jobs_ok (sys_db s)
     \<and> (\<forall>w i. workers s w = Picked i \<longrightarrow> (\<exists>j \<in> set (jobs (sys_db s)). j_id j = i \<and> j_status j = ''pending''))
     \<and> (\<forall>w i. workers s w = Working i \<longrightarrow> (\<exists>j \<in> set (jobs (sys_db s)). j_id j = i \<and> j_status j = ''running''))
     \<and> (\<forall>w w' i. workers s w \<in> {Picked i, Working i} \<and> workers s w' \<in> {Picked i, Working i} \<longrightarrow> w = w')"

lemma same_job: "jobs_ok d \<Longrightarrow> j \<in> set (jobs d) \<Longrightarrow> k \<in> set (jobs d) \<Longrightarrow> j_id j = j_id k \<Longrightarrow> j = k"
  by (auto simp: jobs_ok_def inj_on_def distinct_map)

lemma jobs_ok_rely: "jobs_ok d \<Longrightarrow> rely d d' \<Longrightarrow> jobs_ok d'"
  unfolding jobs_ok_def rely_def
  by (fastforce simp: list_all_iff fresh_job_def job_ok_def)

text \<open>\<open>has_job d i st\<close>: there is a job with this id and status.\<close>

definition has_job :: "db \<Rightarrow> uuid \<Rightarrow> string \<Rightarrow> bool" where
  "has_job d i st \<longleftrightarrow> (\<exists>j \<in> set (jobs d). j_id j = i \<and> j_status j = st)"

lemma has_job_other: "has_job d k st \<Longrightarrow> k \<noteq> i \<Longrightarrow> has_job (upd_job i f d) k st"
  by (force simp: has_job_def set_upd_job)

lemma has_job_mark:
  assumes "has_job d i st"
  shows "has_job (claim_mark i d) i ''running''"
proof -
  obtain j where j: "j \<in> set (jobs d)" "j_id j = i"
    using assms by (auto simp: has_job_def)
  have "j\<lparr>j_status := ''running'', j_attempts := j_attempts j + 1\<rparr> \<in> set (jobs (claim_mark i d))"
    unfolding claim_mark_def set_upd_job by (rule image_eqI [OF _ j(1)]) (simp add: j(2))
  with j(2) show ?thesis unfolding has_job_def by (intro bexI) auto
qed

lemma has_job_rely: "has_job d i st \<Longrightarrow> rely d d' \<Longrightarrow> has_job d' i st"
  by (auto simp: has_job_def rely_def)

lemma has_job_unique: "jobs_ok d \<Longrightarrow> has_job d i st \<Longrightarrow> has_job d i st' \<Longrightarrow> st = st'"
  unfolding has_job_def by (metis same_job)

lemma sys_ok_alt: "sys_ok s \<longleftrightarrow> jobs_ok (sys_db s)
    \<and> (\<forall>w i. workers s w = Picked i \<longrightarrow> has_job (sys_db s) i ''pending'')
    \<and> (\<forall>w i. workers s w = Working i \<longrightarrow> has_job (sys_db s) i ''running'')
    \<and> (\<forall>w w' i. workers s w \<in> {Picked i, Working i} \<and> workers s w' \<in> {Picked i, Working i} \<longrightarrow> w = w')"
  by (simp add: sys_ok_def has_job_def)

lemma sys_ok_pick:
  assumes "sys_ok s" and "workers s w = Idle" and "claim_pick (locked s) (sys_db s) = Some j"
  shows "sys_ok (s\<lparr>workers := (workers s)(w := Picked (j_id j))\<rparr>)"
proof -
  note j = claim_pick_Some [OF assms(3)]
  then have pend: "has_job (sys_db s) (j_id j) ''pending''"
    by (auto simp: has_job_def due_def)
  have "workers s v \<noteq> Picked (j_id j)" for v
    using j by (auto simp: locked_def)
  moreover have "workers s v \<noteq> Working (j_id j)" for v
    using assms(1) has_job_unique [of "sys_db s" "j_id j" "''running''" "''pending''"] pend
    by (auto simp: sys_ok_alt)
  ultimately show ?thesis
    using assms(1) pend by (auto simp: sys_ok_alt)
qed

lemma sys_ok_upd:
  assumes "sys_ok s" and "workers s w \<in> {Picked i, Working i}" and "jobs_ok (upd_job i f (sys_db s))"
    and "x = Idle \<or> x = Working i \<and> has_job (upd_job i f (sys_db s)) i ''running''"
  shows "sys_ok (s\<lparr>sys_db := upd_job i f (sys_db s), workers := (workers s)(w := x)\<rparr>)"
proof -
  have "v = w" if "workers s v \<in> {Picked i, Working i}" for v
    using assms(1,2) that unfolding sys_ok_alt by blast
  then have other: "k \<noteq> i" if "workers s v = Picked k \<or> workers s v = Working k" "v \<noteq> w" for v k
    using that by auto
  have uniq: "v = v'" if "workers s v \<in> {Picked k, Working k}" "workers s v' \<in> {Picked k, Working k}" for v v' k
    using assms(1) that unfolding sys_ok_alt by blast
  let ?d = "upd_job i f (sys_db s)" and ?ws = "(workers s)(w := x)"
  have pend: "\<forall>v k. ?ws v = Picked k \<longrightarrow> has_job ?d k ''pending''"
  proof (intro allI impI)
    fix v k assume v: "?ws v = Picked k"
    then have "v \<noteq> w" and "workers s v = Picked k" using assms(4) by (auto split: if_splits)
    then show "has_job ?d k ''pending''"
      using assms(1) other [of v k] unfolding sys_ok_alt by (blast intro: has_job_other)
  qed
  have work: "\<forall>v k. ?ws v = Working k \<longrightarrow> has_job ?d k ''running''"
  proof (intro allI impI)
    fix v k assume v: "?ws v = Working k"
    show "has_job ?d k ''running''"
    proof (cases "v = w")
      case True
      with v assms(4) show ?thesis by auto
    next
      case False
      with v have "workers s v = Working k" by simp
      with False show ?thesis
        using assms(1) other [of v k] unfolding sys_ok_alt by (blast intro: has_job_other)
    qed
  qed
  have one: "\<forall>v v' k. ?ws v \<in> {Picked k, Working k} \<and> ?ws v' \<in> {Picked k, Working k} \<longrightarrow> v = v'"
  proof (intro allI impI)
    fix v v' k assume v: "?ws v \<in> {Picked k, Working k} \<and> ?ws v' \<in> {Picked k, Working k}"
    show "v = v'"
    proof (cases "v = w \<or> v' = w")
      case True
      then have "k = i" using v assms(4) by auto
      with True v other show ?thesis by (metis fun_upd_apply insert_iff singletonD)
    next
      case False
      with v uniq [of v k v'] show ?thesis by simp
    qed
  qed
  have db: "sys_db (s\<lparr>sys_db := ?d, workers := ?ws\<rparr>) = ?d" "workers (s\<lparr>sys_db := ?d, workers := ?ws\<rparr>) = ?ws"
    by simp_all
  show ?thesis
    unfolding sys_ok_alt db using assms(3) pend work one by blast
qed

lemma sys_ok_step: "step s e t \<Longrightarrow> sys_ok s \<Longrightarrow> sys_ok t"
proof (induction rule: step.induct)
  case (pick s w j)
  then show ?case by (intro sys_ok_pick)
next
  case (mark s w i)
  then obtain j where "j \<in> set (jobs (sys_db s))" "j_id j = i" "j_status j = ''pending''"
    by (auto simp: sys_ok_def)
  then have "jobs_ok (claim_mark i (sys_db s))" "has_job (claim_mark i (sys_db s)) i ''running''"
    using jobs_ok_mark [of "sys_db s" j] mark.prems has_job_mark [of "sys_db s" i]
    by (auto simp: sys_ok_def has_job_def)
  then show ?case
    using mark.prems mark.hyps unfolding claim_mark_def by (intro sys_ok_upd [where i = i]) simp_all
next
  case (finish s w i)
  then obtain j where j: "j \<in> set (jobs (sys_db s))" "j_id j = i" "j_status j = ''running''" and ok: "jobs_ok (sys_db s)"
    unfolding sys_ok_def by blast
  then have "0 < j_attempts j" by (auto simp: jobs_ok_def list_all_iff job_ok_def)
  then have "jobs_ok (complete_db i (sys_db s))"
    using j same_job [OF ok j(1)] by (intro jobs_ok_complete [OF ok]) metis
  then show ?case
    using finish.prems finish.hyps unfolding complete_db_def by (intro sys_ok_upd [where i = i]) simp_all
next
  case (failed s w i msg retry_at)
  then have "jobs_ok (fail_db i msg retry_at (sys_db s))"
    by (simp add: jobs_ok_fail sys_ok_def)
  then show ?case
    using failed.prems failed.hyps unfolding fail_db_def by (intro sys_ok_upd [where i = i]) simp_all
next
  case (crash s w)
  then show ?case by (auto simp: sys_ok_alt)
next
  case (other s d')
  then show ?case
    using jobs_ok_rely [OF _ other(1)] has_job_rely [OF _ other(1)] by (auto simp: sys_ok_alt)
qed

lemma sys_ok_runs: "runs s es t \<Longrightarrow> sys_ok s \<Longrightarrow> sys_ok t"
  by (induction rule: runs.induct) (auto intro: sys_ok_step)

section \<open>Claims and failures of a job\<close>

definition marks :: "uuid \<Rightarrow> event list \<Rightarrow> nat" where
  "marks i es = length (filter (\<lambda>e. case e of EvMark _ k \<Rightarrow> k = i | _ \<Rightarrow> False) es)"

definition fails :: "uuid \<Rightarrow> event list \<Rightarrow> nat" where
  "fails i es = length (filter (\<lambda>e. case e of EvFail _ k \<Rightarrow> k = i | _ \<Rightarrow> False) es)"

lemma marks_snoc [simp]: "marks i (es @ [e]) = (marks i es + (case e of EvMark _ k \<Rightarrow> if k = i then 1 else 0 | _ \<Rightarrow> 0))"
  by (simp add: marks_def split: event.split)

lemma fails_snoc [simp]: "fails i (es @ [e]) = (fails i es + (case e of EvFail _ k \<Rightarrow> if k = i then 1 else 0 | _ \<Rightarrow> 0))"
  by (simp add: fails_def split: event.split)

definition accounted :: "event list \<Rightarrow> db \<Rightarrow> bool" where
  "accounted es d \<longleftrightarrow>
     (\<forall>i. marks i es \<le> Suc (fails i es))
   \<and> (\<forall>j \<in> set (jobs d). marks (j_id j) es \<le> j_attempts j \<and> (j_status j = ''pending'' \<longrightarrow> marks (j_id j) es \<le> fails (j_id j) es))
   \<and> (\<forall>i. 0 < marks i es \<longrightarrow> i \<in> set (map j_id (jobs d)))"

lemma accounted_start: "accounted [] d"
  by (simp add: accounted_def marks_def)

lemma accounted_upd:
  assumes acc: "accounted es d" and f: "\<And>j. j_id (f j) = j_id j"
    and rest: "\<And>k. k \<noteq> i \<Longrightarrow> marks k es' = marks k es \<and> fails k es' = fails k es"
    and le: "marks i es' \<le> Suc (fails i es')"
    and job: "\<And>j. j \<in> set (jobs d) \<Longrightarrow> j_id j = i \<Longrightarrow>
      marks i es' \<le> j_attempts (f j) \<and> (j_status (f j) = ''pending'' \<longrightarrow> marks i es' \<le> fails i es')"
    and pos: "0 < marks i es' \<Longrightarrow> i \<in> set (map j_id (jobs d))"
  shows "accounted es' (upd_job i f d)"
  unfolding accounted_def
proof (intro conjI allI ballI)
  show "marks k es' \<le> Suc (fails k es')" for k
    using acc rest [of k] le by (cases "k = i") (simp_all add: accounted_def)
  show "0 < marks k es' \<longrightarrow> k \<in> set (map j_id (jobs (upd_job i f d)))" for k
    using acc rest [of k] pos map_j_id_upd [of f i d, OF f] by (cases "k = i") (simp_all add: accounted_def)
next
  fix x assume "x \<in> set (jobs (upd_job i f d))"
  then obtain j where j: "j \<in> set (jobs d)" "x = (if j_id j = i then f j else j)"
    unfolding set_upd_job by blast
  have "marks (j_id x) es' \<le> j_attempts x \<and> (j_status x = ''pending'' \<longrightarrow> marks (j_id x) es' \<le> fails (j_id x) es')"
    using acc rest [of "j_id j"] job [of j] j f by (cases "j_id j = i") (simp_all add: accounted_def)
  then show "marks (j_id x) es' \<le> j_attempts x" "j_status x = ''pending'' \<longrightarrow> marks (j_id x) es' \<le> fails (j_id x) es'"
    by simp_all
qed

lemma accountedD:
  assumes "accounted es d"
  shows "marks i es \<le> Suc (fails i es)" "j \<in> set (jobs d) \<Longrightarrow> marks (j_id j) es \<le> j_attempts j"
    "j \<in> set (jobs d) \<Longrightarrow> j_status j = ''pending'' \<Longrightarrow> marks (j_id j) es \<le> fails (j_id j) es"
    "0 < marks i es \<Longrightarrow> i \<in> set (map j_id (jobs d))"
  using assms unfolding accounted_def by (blast | simp)+

lemma accounted_step:
  assumes "step s e t" and "sys_ok s" and "accounted es (sys_db s)"
  shows "accounted (es @ [e]) (sys_db t)"
  using assms
proof (induction rule: step.induct)
  case (mark s w i)
  then obtain j where j: "j \<in> set (jobs (sys_db s))" "j_id j = i" "j_status j = ''pending''"
    unfolding sys_ok_def by blast
  then have le: "marks i es \<le> fails i es"
    using accountedD(3) [OF mark.prems(2) j(1,3)] by simp
  have "i \<in> set (map j_id (jobs (sys_db s)))" using j by force
  with le have "accounted (es @ [EvMark w i]) (claim_mark i (sys_db s))"
    unfolding claim_mark_def
    by (intro accounted_upd [OF mark.prems(2)]) (auto dest: accountedD(2) [OF mark.prems(2)])
  then show ?case by simp
next
  case (finish s w i)
  have "accounted (es @ [EvDone w i]) (complete_db i (sys_db s))"
    unfolding complete_db_def
    by (intro accounted_upd [OF finish.prems(2)])
      (use accountedD(1,4) [OF finish.prems(2)] in \<open>auto dest: accountedD(2) [OF finish.prems(2)]\<close>)
  then show ?case by simp
next
  case (failed s w i msg retry_at)
  have "accounted (es @ [EvFail w i]) (fail_db i msg retry_at (sys_db s))"
    unfolding fail_db_def
    by (intro accounted_upd [OF failed.prems(2)])
      (use accountedD(1,4) [OF failed.prems(2)] in \<open>auto dest: accountedD(2) [OF failed.prems(2)] intro: le_SucI\<close>)
  then show ?case by simp
next
  case (other s d')
  then obtain new where new: "jobs d' = jobs (sys_db s) @ new" "list_all (fresh_job (sys_db s) d') new"
    by (auto simp: rely_def)
  have "marks (j_id j) es = 0" if "j \<in> set new" for j
  proof (rule ccontr)
    assume "marks (j_id j) es \<noteq> 0"
    then have "j_id j \<in> set (map j_id (jobs (sys_db s)))"
      using other.prems(2) unfolding accounted_def by (meson neq0_conv)
    moreover have "jobs_ok (sys_db s)" using other.prems(1) by (simp add: sys_ok_def)
    ultimately have "j_id j < next_id (sys_db s)" by (auto simp: jobs_ok_def list_all_iff)
    with new(2) that show False
      by (auto simp: list_all_iff fresh_job_def)
  qed
  with other.prems(2) new(1) show ?case
    unfolding accounted_def by auto
qed (simp_all add: accounted_def)

lemma accounted_runs: "runs s es t \<Longrightarrow> sys_ok s \<Longrightarrow> accounted es (sys_db t)"
  by (induction rule: runs.induct) (auto intro: accounted_start accounted_step sys_ok_runs)

lemma orphan_step:
  assumes "step s e t" and "sys_ok s" and "has_job (sys_db s) i ''running''" and "\<forall>w. workers s w \<notin> {Picked i, Working i}"
  shows "has_job (sys_db t) i ''running'' \<and> (\<forall>w. workers t w \<notin> {Picked i, Working i}) \<and> marks i [e] = 0"
  using assms
proof (induction rule: step.induct)
  case (pick s w j)
  then have "has_job (sys_db s) (j_id j) ''pending''"
    using claim_pick_Some [OF pick.hyps(2)] by (auto simp: has_job_def due_def)
  then have "j_id j \<noteq> i"
    using has_job_unique [of "sys_db s" i "''running''" "''pending''"] pick.prems by (auto simp: sys_ok_def)
  with pick show ?case by (auto simp: marks_def)
next
  case (other s d')
  then show ?case by (auto simp: marks_def intro: has_job_rely)
qed (auto simp: marks_def claim_mark_def complete_db_def fail_db_def intro!: has_job_other)

lemma orphan_runs:
  assumes "runs s es t" and "sys_ok s" and "has_job (sys_db s) i ''running''" and "\<forall>w. workers s w \<notin> {Picked i, Working i}"
  shows "has_job (sys_db t) i ''running'' \<and> (\<forall>w. workers t w \<notin> {Picked i, Working i}) \<and> marks i es = 0"
  using assms
proof (induction rule: runs.induct)
  case (more s es t e u)
  have ok: "sys_ok t" using sys_ok_runs [OF more.hyps(1) more.prems(1)] .
  have IH: "has_job (sys_db t) i ''running''" "\<forall>w. workers t w \<notin> {Picked i, Working i}" "marks i es = 0"
    using more.IH [OF more.prems] by auto
  from orphan_step [OF more.hyps(2) ok IH(1,2)] IH(3) show ?case
    by (auto simp: marks_def)
qed (simp add: marks_def)

section \<open>Properties\<close>

definition idle_sys :: "db \<Rightarrow> sys" where
  "idle_sys d = \<lparr>sys_db = d, workers = (\<lambda>_. Idle)\<rparr>"

lemma sys_ok_idle: "jobs_ok d \<Longrightarrow> sys_ok (idle_sys d)"
  by (simp add: sys_ok_def idle_sys_def)

definition one_job :: db where
  "one_job = (initial_db [] [] (Tick 7))\<lparr>jobs := [new_job 0 ''seed_catalog'' [] (Tick 0) (Tick 3)], next_id := 1\<rparr>"

lemma one_job_ok: "jobs_ok one_job"
  by (simp add: one_job_def jobs_ok_def job_ok_def new_job_def job_kinds_def)

lemma one_job_pick: "claim_pick {} one_job = Some (new_job 0 ''seed_catalog'' [] (Tick 0) (Tick 3))"
  by (simp add: claim_pick_def one_job_def due_def new_job_def initial_db_def less_eq_timestamp_def)

definition claimed_sys :: sys where
  "claimed_sys = \<lparr>sys_db = claim_mark 0 one_job, workers = (\<lambda>_. Idle)(3 := Working 0)\<rparr>"

lemma runs_claimed: "runs (idle_sys one_job) [EvPick 3 0, EvMark 3 0] claimed_sys"
proof -
  let ?s = "(idle_sys one_job)\<lparr>workers := (workers (idle_sys one_job))(3 := Picked 0)\<rparr>"
  have "step (idle_sys one_job) (EvPick 3 0) ?s"
    using step.pick [of "idle_sys one_job" 3 "new_job 0 ''seed_catalog'' [] (Tick 0) (Tick 3)"] one_job_pick
    by (simp add: idle_sys_def locked_def new_job_def)
  moreover have "step ?s (EvMark 3 0) claimed_sys"
    using step.mark [of ?s 3 0] by (simp add: claimed_sys_def idle_sys_def)
  ultimately show ?thesis
    using runs.more [OF runs.more [OF runs.start]] by fastforce
qed

text \<open>
  C11. The queue is safe for any number of workers, however their statements interleave and whenever one
  of them dies: no two workers ever work on the same job, a job that is worked on is marked as running, and every row
  stays well-formed, with at most five attempts, fewer than five while it is pending, and exactly five when it has
  failed for good.
\<close>
theorem queue_safe:
  assumes "jobs_ok d" and "runs (idle_sys d) es t"
  shows "jobs_ok (sys_db t)
    \<and> (\<forall>w w' i. workers t w = Working i \<and> workers t w' = Working i \<longrightarrow> w = w')
    \<and> (\<forall>w i. workers t w = Working i \<longrightarrow> has_job (sys_db t) i ''running'')"
  using sys_ok_runs [OF assms(2) sys_ok_idle [OF assms(1)]] unfolding sys_ok_alt by blast

theorem queue_safe_witness:
  "jobs_ok (sys_db claimed_sys) \<and> has_job (sys_db claimed_sys) 0 ''running''"
proof -
  have "workers claimed_sys 3 = Working 0" by (simp add: claimed_sys_def)
  then show ?thesis
    using queue_safe [OF one_job_ok runs_claimed] by blast
qed

text \<open>
  C12. A job is tried again only after a failure of it has been recorded, and five times at most: in every run of
  the workers the claims of a job are at most one more than its failures, and never more than five.
\<close>
theorem retries_bounded:
  assumes "jobs_ok d" and "runs (idle_sys d) es t"
  shows "marks i es \<le> 5 \<and> marks i es \<le> Suc (fails i es)"
proof -
  have ok: "sys_ok t" using sys_ok_runs [OF assms(2) sys_ok_idle [OF assms(1)]] .
  have acc: "accounted es (sys_db t)" using accounted_runs [OF assms(2) sys_ok_idle [OF assms(1)]] .
  have "marks i es \<le> 5"
  proof (cases "marks i es = 0")
    case False
    then obtain j where j: "j \<in> set (jobs (sys_db t))" "j_id j = i"
      using accountedD(4) [OF acc, of i] by auto
    then have "job_ok j" using ok by (auto simp: sys_ok_def jobs_ok_def list_all_iff)
    then show ?thesis using accountedD(2) [OF acc j(1)] j(2) by (simp add: job_ok_def)
  qed simp
  then show ?thesis using accountedD(1) [OF acc] by simp
qed

theorem retries_bounded_witness:
  "marks 0 [EvPick 3 0, EvMark 3 0] = 1 \<and> marks 0 [EvPick 3 0, EvMark 3 0] \<le> 5"
  using retries_bounded [OF one_job_ok runs_claimed, of 0] by (simp add: marks_def)

text \<open>
  C36. A claim takes the due job that has waited longest. It returns nothing exactly when no job is due, and then changes nothing;
  otherwise the job is a due one with the least \<^verbatim>\<open>run_after\<close>, and it is marked as running with one more attempt, so that
  no later claim can take it.
\<close>
theorem claim_in_order:
  "case run_state claim_job d of
     (Inr None, d') \<Rightarrow> d' = d \<and> filter (due (clock d)) (jobs d) = []
   | (Inr (Some j), d') \<Rightarrow> j \<in> set (filter (due (clock d)) (jobs d))
       \<and> list_all (\<lambda>k. j_run_after j \<le> j_run_after k) (filter (due (clock d)) (jobs d))
       \<and> jobs d' = map (\<lambda>k. if j_id k = j_id j then k\<lparr>j_status := ''running'', j_attempts := j_attempts k + 1\<rparr> else k) (jobs d)
       \<and> list_all (\<lambda>k. \<not> (j_id k = j_id j \<and> due (clock d') k)) (jobs d')
   | (Inl e, d') \<Rightarrow> False"
proof (cases "claim_pick {} d")
  case None
  then have "filter (due (clock d)) (jobs d) = []"
    using claim_pick_None [of "{}" d] by (auto simp: filter_empty_conv)
  with None show ?thesis by (simp add: run_claim_job)
next
  case (Some j)
  from claim_pick_Some [OF Some] have "j \<in> set (filter (due (clock d)) (jobs d))"
    "list_all (\<lambda>k. j_run_after j \<le> j_run_after k) (filter (due (clock d)) (jobs d))"
    by (auto simp: list_all_iff)
  moreover have "list_all (\<lambda>k. \<not> (j_id k = j_id j \<and> due (clock (claim_mark (j_id j) d)) k)) (jobs (claim_mark (j_id j) d))"
    unfolding claim_mark_def list_all_iff set_upd_job by (auto simp: due_def)
  ultimately show ?thesis
    using Some by (simp add: run_claim_job) (simp add: claim_mark_def upd_job_def)
qed

text \<open>
  C37. Nothing recovers the job of a worker that dies. Once a job is marked as running and no worker has it, it stays so in
  every run: no worker claims it again, whatever else happens and however much time passes.
\<close>
theorem orphan_never_recovered:
  assumes "jobs_ok d" and "runs (idle_sys d) es t" and "has_job (sys_db t) i ''running''"
    and "\<forall>w. workers t w \<noteq> Working i" and "runs t fs u"
  shows "has_job (sys_db u) i ''running'' \<and> marks i fs = 0"
proof -
  have ok: "sys_ok t" using sys_ok_runs [OF assms(2) sys_ok_idle [OF assms(1)]] .
  have "workers t w \<noteq> Picked i" for w
    using ok has_job_unique [of "sys_db t" i "''running''" "''pending''"] assms(3) by (auto simp: sys_ok_alt)
  with assms(4) have "\<forall>w. workers t w \<notin> {Picked i, Working i}" by simp
  from orphan_runs [OF assms(5) ok assms(3) this] show ?thesis by simp
qed

theorem orphan_never_recovered_witness:
  "has_job ((claim_mark 0 one_job)\<lparr>clock := Tick 1000000000\<rparr>) 0 ''running''"
proof -
  let ?t = "claimed_sys\<lparr>workers := (workers claimed_sys)(3 := Idle)\<rparr>"
  let ?u = "?t\<lparr>sys_db := (claim_mark 0 one_job)\<lparr>clock := Tick 1000000000\<rparr>\<rparr>"
  have t: "runs (idle_sys one_job) ([EvPick 3 0, EvMark 3 0] @ [EvCrash 3]) ?t"
    by (rule runs.more [OF runs_claimed step.crash])
  have "rely (sys_db ?t) ((claim_mark 0 one_job)\<lparr>clock := Tick 1000000000\<rparr>)"
    by (simp add: rely_def claimed_sys_def claim_mark_def upd_job_def one_job_def initial_db_def less_eq_timestamp_def)
  then have u: "runs ?t ([] @ [EvOther]) ?u"
    by (intro runs.more [OF runs.start] step.other)
  have "has_job (sys_db ?t) 0 ''running''" "\<forall>w. workers ?t w \<noteq> Working 0"
    by (simp_all add: claimed_sys_def has_job_def claim_mark_def upd_job_def one_job_def new_job_def)
  from orphan_never_recovered [OF one_job_ok t this u] show ?thesis by simp
qed

end
