(* ===== verification/Nhtsa.thy ===== *)
theory Nhtsa
  imports GoStrings ObdTypes
begin

text \<open>
  The client of \<^verbatim>\<open>internal/enrichment/nhtsa.go\<close>: what is kept of a decoded VIN and of a recall. The HTTP
  exchange and the JSON decoder are fields of \<open>nhtsa\<close>: an answer is a status with the first 2 MiB of
  the body, or an error; each decoder stands for \<^verbatim>\<open>json.Unmarshal\<close> into one of the three struct types
  of the file and yields the list of result objects.
\<close>

record lean_vin =
  lv_make :: string
  lv_model :: string
  lv_year :: int
  lv_body :: string
  lv_fuel :: string
  lv_disp :: string
  lv_cyl :: string
  lv_drive :: string
  lv_note :: string
  lv_code :: string
  lv_text :: string

record lean_recall =
  lr_campaign :: string
  lr_component :: string
  lr_summary :: string
  lr_consequence :: string
  lr_remedy :: string
  lr_date :: string

record 'w nhtsa =
  h_do :: "string \<Rightarrow> 'w \<Rightarrow> (gerr + nat \<times> string) \<times> 'w"
  js_vpic :: "string \<Rightarrow> gerr + any_map list"
  js_lower :: "string \<Rightarrow> gerr + any_map list"
  js_upper :: "string \<Rightarrow> gerr + any_map list"
  path_escape :: "string \<Rightarrow> string"
  query_escape :: "string \<Rightarrow> string"
  fmt_v :: "gval \<Rightarrow> string"
  vpic_base :: string
  nhtsa_base :: string

definition default_vpic_base :: string where
  "default_vpic_base = ''https://vpic.nhtsa.dot.gov/api''"

definition default_nhtsa_base :: string where
  "default_nhtsa_base = ''https://api.nhtsa.gov''"

section \<open>Values\<close>

text \<open>\<^verbatim>\<open>int(t)\<close> of a \<^verbatim>\<open>float64\<close> in the range of \<^verbatim>\<open>int\<close>.\<close>

definition str_val :: "(gval \<Rightarrow> string) \<Rightarrow> gval option \<Rightarrow> string" where
  "str_val fmt v =
     (case v of
        None \<Rightarrow> []
      | Some VNil \<Rightarrow> []
      | Some (VStr t) \<Rightarrow> trim_space t
      | Some (VFloat64 t) \<Rightarrow>
          if t = f64_of_int (f64_to_int t) then show_int (f64_to_int t) else trim_space (fmt (VFloat64 t))
      | Some x \<Rightarrow> trim_space (fmt x))"

text \<open>Arithmetic on \<^verbatim>\<open>int\<close> wraps at 64 bits.\<close>

definition wrap64 :: "int \<Rightarrow> int" where
  "wrap64 x = (x + 2 ^ 63) mod 2 ^ 64 - 2 ^ 63"

fun atoi_loop :: "int \<Rightarrow> string \<Rightarrow> int" where
  "atoi_loop n [] = n"
| "atoi_loop n (c # s) = (if is_digit c then atoi_loop (wrap64 (n * 10 + int (digit_val c))) s else n)"

definition atoi :: "string \<Rightarrow> int" where
  "atoi s = atoi_loop 0 s"

fun first_str :: "(gval \<Rightarrow> string) \<Rightarrow> any_map \<Rightarrow> string list \<Rightarrow> string" where
  "first_str fmt m [] = []"
| "first_str fmt m (k # ks) = (let v = str_val fmt (map_of m k) in if v \<noteq> [] then v else first_str fmt m ks)"

definition truncate :: "string \<Rightarrow> nat \<Rightarrow> string" where
  "truncate s0 n =
     (let s = join '' '' (str_fields s0)
      in if length s \<le> n then s else take (n - 1) s @ ellipsis)"

definition middle_dot :: string where
  "middle_dot = [CHR 0x20, CHR 0xC2, CHR 0xB7, CHR 0x20]"

definition trim_join :: "string list \<Rightarrow> string" where
  "trim_join parts = join middle_dot (filter (\<lambda>p. p \<noteq> []) (map trim_space parts))"

section \<open>Requests\<close>

text \<open>The body, when one was read, and the error.\<close>

definition get_bytes :: "'w nhtsa \<Rightarrow> string \<Rightarrow> 'w \<Rightarrow> (string option \<times> gerr option) \<times> 'w" where
  "get_bytes N u w =
     (case h_do N u w of
        (Inl e, w') \<Rightarrow> ((None, Some e), w')
      | (Inr (status, b), w') \<Rightarrow>
          if status \<ge> 300
          then ((Some b, Some (Msg (''http '' @ show_nat status @ '': '' @ truncate b 200))), w')
          else ((Some b, None), w'))"

definition get_json :: "'w nhtsa \<Rightarrow> string \<Rightarrow> 'w \<Rightarrow> (gerr + any_map list) \<times> 'w" where
  "get_json N u w =
     (case get_bytes N u w of
        ((_, Some e), w') \<Rightarrow> (Inl e, w')
      | ((Some b, None), w') \<Rightarrow> (js_vpic N b, w')
      | ((None, None), w') \<Rightarrow> (js_vpic N [], w'))"

definition lean_of :: "(gval \<Rightarrow> string) \<Rightarrow> any_map \<Rightarrow> lean_vin" where
  "lean_of fmt r =
     (let s = (\<lambda>k. str_val fmt (map_of r k))
      in \<lparr>lv_make = s ''Make'', lv_model = s ''Model'', lv_year = atoi (s ''ModelYear''), lv_body = s ''BodyClass'',
          lv_fuel = s ''FuelTypePrimary'', lv_disp = s ''DisplacementL'', lv_cyl = s ''EngineCylinders'', lv_drive = s ''DriveType'',
          lv_note = trim_join [s ''EngineConfiguration'', s ''EngineModel'', s ''ValveTrainDesign''],
          lv_code = s ''ErrorCode'', lv_text = s ''ErrorText''\<rparr>)"

definition decode_vin :: "'w nhtsa \<Rightarrow> string \<Rightarrow> 'w \<Rightarrow> (gerr + lean_vin) \<times> 'w" where
  "decode_vin N vin0 w =
     (let vin = to_upper (trim_space vin0);
          u = trim_right_char (CHR ''/'') (vpic_base N) @ ''/vehicles/DecodeVinValues/'' @ path_escape N vin @ ''?format=json''
      in case get_json N u w of
           (Inl e, w') \<Rightarrow> (Inl e, w')
         | (Inr [], w') \<Rightarrow> (Inl (Msg ''vpic returned no results''), w')
         | (Inr (r # _), w') \<Rightarrow> (Inr (lean_of (fmt_v N) r), w'))"

text \<open>A result without a campaign number is dropped.\<close>

definition lean_recall_of :: "(gval \<Rightarrow> string) \<Rightarrow> any_map \<Rightarrow> lean_recall option" where
  "lean_recall_of fmt r =
     (let camp = first_str fmt r [''NHTSACampaignNumber'', ''nhtsaCampaignNumber'', ''CampaignNumber'']
      in if camp = [] then None
         else Some \<lparr>lr_campaign = camp,
           lr_component = truncate (first_str fmt r [''Component'', ''component'']) 120,
           lr_summary = truncate (first_str fmt r [''Summary'', ''summary'']) 280,
           lr_consequence = truncate (first_str fmt r [''Conequence'', ''Consequence'', ''consequence'']) 200,
           lr_remedy = truncate (first_str fmt r [''Remedy'', ''remedy'']) 200,
           lr_date = first_str fmt r [''ReportReceivedDate'', ''reportReceivedDate'']\<rparr>)"

text \<open>\<^verbatim>\<open>url.Values.Encode\<close> sorts by key: make, model, modelYear.\<close>

definition recalls_url :: "'w nhtsa \<Rightarrow> string \<Rightarrow> string \<Rightarrow> int \<Rightarrow> string" where
  "recalls_url N mk mdl year =
     trim_right_char (CHR ''/'') (nhtsa_base N) @ ''/recalls/recallsByVehicle?make='' @ query_escape N mk
     @ ''&model='' @ query_escape N mdl @ ''&modelYear='' @ query_escape N (show_int year)"

text \<open>NHTSA answers 400 when there are no recalls: that is an empty list and not an error.\<close>

definition no_recalls :: "string \<Rightarrow> bool" where
  "no_recalls b \<longleftrightarrow> contains b ([CHR 0x22] @ ''Count'' @ [CHR 0x22] @ '':0'') \<or> contains b ([CHR 0x22] @ ''results'' @ [CHR 0x22] @ '':[]'')"

definition recalls_by_mmy :: "'w nhtsa \<Rightarrow> string \<Rightarrow> string \<Rightarrow> int \<Rightarrow> 'w \<Rightarrow> (gerr + lean_recall list) \<times> 'w" where
  "recalls_by_mmy N mk mdl year w =
     (case get_bytes N (recalls_url N mk mdl year) w of
        ((Some b, Some e), w') \<Rightarrow> if no_recalls b then (Inr [], w') else (Inl e, w')
      | ((None, Some e), w') \<Rightarrow> (Inl e, w')
      | ((body, None), w') \<Rightarrow>
          (case js_lower N (case body of Some b \<Rightarrow> b | None \<Rightarrow> []) of
             Inl e \<Rightarrow> (Inl e, w')
           | Inr rs \<Rightarrow>
               let results = (if rs = [] then (case js_upper N (case body of Some b \<Rightarrow> b | None \<Rightarrow> []) of Inr xs \<Rightarrow> xs | Inl _ \<Rightarrow> [])
                              else rs)
               in (Inr (List.map_filter (lean_recall_of (fmt_v N)) results), w')))"

section \<open>Lemmas\<close>

lemma length_truncate: "0 < n \<Longrightarrow> length (truncate s n) \<le> n + 2"
  by (auto simp: truncate_def Let_def ellipsis_def)

lemma wrap64_small: "- (2 ^ 63) \<le> x \<Longrightarrow> x < 2 ^ 63 \<Longrightarrow> wrap64 x = x"
  unfolding wrap64_def by (subst mod_pos_pos_trivial) simp_all

lemma wrap64_range: "- (2 ^ 63) \<le> wrap64 x \<and> wrap64 x < 2 ^ 63"
proof -
  have "0 \<le> (x + 2 ^ 63) mod 2 ^ 64" "(x + 2 ^ 63) mod 2 ^ 64 < (2 :: int) ^ 64" by simp_all
  moreover have "(2 :: int) ^ 64 = 2 ^ 63 + 2 ^ 63" by simp
  ultimately show ?thesis unfolding wrap64_def by linarith
qed

lemma lean_recall_bounds:
  assumes "lean_recall_of fmt r = Some x"
  shows "lr_campaign x \<noteq> [] \<and> length (lr_component x) \<le> 122 \<and> length (lr_summary x) \<le> 282
    \<and> length (lr_consequence x) \<le> 202 \<and> length (lr_remedy x) \<le> 202"
proof -
  have "length (truncate s 120) \<le> 122" "length (truncate s 280) \<le> 282" "length (truncate s 200) \<le> 202" for s
    using length_truncate [of 120 s] length_truncate [of 280 s] length_truncate [of 200 s] by simp_all
  with assms show ?thesis by (auto simp: lean_recall_of_def Let_def simp del: first_str.simps split: if_splits)
qed

lemma foldl_digits_ge: "n \<le> foldl (\<lambda>n c. 10 * n + digit_val c) n s" for n :: nat
proof (induction s arbitrary: n)
  case (Cons c s)
  have "n \<le> 10 * n + digit_val c" by simp
  also have "\<dots> \<le> foldl (\<lambda>n c. 10 * n + digit_val c) (10 * n + digit_val c) s" by (rule Cons)
  finally show ?case by simp
qed simp

lemma atoi_loop_digits:
  assumes "list_all is_digit s" and "foldl (\<lambda>n c. 10 * n + digit_val c) n s < 2 ^ 63"
  shows "atoi_loop (int n) s = int (foldl (\<lambda>n c. 10 * n + digit_val c) n s)"
  using assms
proof (induction s arbitrary: n)
  case (Cons c s)
  have "10 * n + digit_val c < 2 ^ 63"
    using foldl_digits_ge [of "10 * n + digit_val c" s] Cons.prems(2) by simp
  then have "wrap64 (int n * 10 + int (digit_val c)) = int (10 * n + digit_val c)"
    by (subst wrap64_small) (simp_all add: algebra_simps)
  with Cons.prems Cons.IH [of "10 * n + digit_val c"] show ?case by (simp del: of_nat_add of_nat_mult)
qed simp

lemma atoi_show_nat: "n < 2 ^ 63 \<Longrightarrow> atoi (show_nat n) = int n"
  using atoi_loop_digits [of "show_nat n" 0] show_nat_digits [of n] read_show_nat [of n]
  by (simp add: atoi_def read_nat_def)

lemma list_all_map_filter: "(\<And>x y. f x = Some y \<Longrightarrow> P y) \<Longrightarrow> list_all P (List.map_filter f xs)"
  by (induction xs) (auto simp: List.map_filter_simps split: option.split)

text \<open>
  Whatever NHTSA sends, a recall that is kept has a campaign number, and its texts are at most two bytes over the limits
  of 120, 280 and 200 bytes (the ellipsis has three bytes and replaces one); and the year that is read from decimal digits is that number as long as it
  fits an \<^verbatim>\<open>int\<close>.
\<close>
theorem recalls_lean:
  "(case fst (recalls_by_mmy N mk mdl year w) of
     Inl e \<Rightarrow> True
   | Inr rs \<Rightarrow> list_all (\<lambda>x. lr_campaign x \<noteq> [] \<and> length (lr_component x) \<le> 122 \<and> length (lr_summary x) \<le> 282
       \<and> length (lr_consequence x) \<le> 202 \<and> length (lr_remedy x) \<le> 202) rs)
   \<and> atoi (show_nat (n mod 2 ^ 63)) = int (n mod 2 ^ 63)"
proof -
  have "list_all (\<lambda>x. lr_campaign x \<noteq> [] \<and> length (lr_component x) \<le> 122 \<and> length (lr_summary x) \<le> 282
       \<and> length (lr_consequence x) \<le> 202 \<and> length (lr_remedy x) \<le> 202) (List.map_filter (lean_recall_of fmt) rs)" for fmt rs
    by (rule list_all_map_filter) (rule lean_recall_bounds)
  moreover have "atoi (show_nat (n mod 2 ^ 63)) = int (n mod 2 ^ 63)"
    by (rule atoi_show_nat) simp
  ultimately show ?thesis
    by (auto simp: recalls_by_mmy_def Let_def split: prod.split sum.split option.split)
qed

end
