(* ===== verification/Enrichment.thy ===== *)
theory Enrichment
  imports Jobs Nhtsa Market
begin

text \<open>
  The worker of \<^verbatim>\<open>internal/enrichment/worker.go\<close>: what it does for each kind of job, and the tick that claims up to
  five jobs in a row. The worker runs on the database, the network and a log. Parsing and printing of a UUID and
  the pause between requests are parameters.
\<close>

record 'w worker_env =
  we_client :: "'w nhtsa"
  we_parse :: "string \<Rightarrow> gerr + uuid"
  we_show :: "uuid \<Rightarrow> string"
  we_pause :: "'w \<Rightarrow> gerr option \<times> 'w"

record 'w wk =
  wk_db :: db
  wk_net :: 'w
  wk_log :: "string list"

definition store_text :: "store_error \<Rightarrow> string" where
  "store_text e =
     (case e of
        ErrNotFound \<Rightarrow> ''not found''
      | ErrEmailTaken \<Rightarrow> ''email already registered''
      | ErrInvalidCreds \<Rightarrow> ''invalid email or password''
      | ErrInactive \<Rightarrow> ''account is inactive''
      | ErrRegisterClosed \<Rightarrow> ''self-registration is disabled''
      | ErrBadInvite \<Rightarrow> ''invalid invite code''
      | StoreMsg m \<Rightarrow> m
      | CheckViolation c \<Rightarrow> c
      | UniqueViolation c \<Rightarrow> c)"

text \<open>A store operation and a network operation of the worker.\<close>

definition on_db :: "'a store_op \<Rightarrow> ('w wk, gerr + 'a) state" where
  "on_db m = State (\<lambda>s. case run_state m (wk_db s) of
     (Inl e, d) \<Rightarrow> (Inl (Msg (store_text e)), s\<lparr>wk_db := d\<rparr>)
   | (Inr x, d) \<Rightarrow> (Inr x, s\<lparr>wk_db := d\<rparr>))"

definition on_net :: "('w \<Rightarrow> 'a \<times> 'w) \<Rightarrow> ('w wk, 'a) state" where
  "on_net f = State (\<lambda>s. case f (wk_net s) of (x, w) \<Rightarrow> (x, s\<lparr>wk_net := w\<rparr>))"

definition log_line :: "string \<Rightarrow> ('w wk, unit) state" where
  "log_line msg = modify (\<lambda>s. s\<lparr>wk_log := wk_log s @ [msg]\<rparr>)"

text \<open>A field of a job's payload: absent and null give the zero value, another type is an error.\<close>

definition json_string :: "any_map \<Rightarrow> string \<Rightarrow> gerr + string" where
  "json_string m k =
     (case map_of m k of
        None \<Rightarrow> Inr [] | Some VNil \<Rightarrow> Inr [] | Some (VStr s) \<Rightarrow> Inr s
      | Some _ \<Rightarrow> Inl (Msg (''json: cannot unmarshal into field '' @ k)))"

definition json_int :: "any_map \<Rightarrow> string \<Rightarrow> gerr + int" where
  "json_int m k =
     (case map_of m k of
        None \<Rightarrow> Inr 0 | Some VNil \<Rightarrow> Inr 0 | Some (VInt i) \<Rightarrow> Inr i
      | Some _ \<Rightarrow> Inl (Msg (''json: cannot unmarshal into field '' @ k)))"

section \<open>VIN decoding\<close>

definition engine_text :: "lean_vin \<Rightarrow> string" where
  "engine_text l =
     (let a = lv_disp l;
          b = (if lv_cyl l \<noteq> [] then (if a \<noteq> [] then a @ ''L '' else a) @ lv_cyl l @ ''cyl'' else a)
      in if lv_note l \<noteq> [] then (if b \<noteq> [] then b @ middle_dot else b) @ lv_note l else b)"

definition enrichment_of :: "uuid \<Rightarrow> lean_vin \<Rightarrow> vehicle_enrichment" where
  "enrichment_of vid l =
     \<lparr>ve_vehicle = vid, ve_make = lv_make l, ve_model = lv_model l, ve_year = lv_year l, ve_body = lv_body l,
      ve_fuel = lv_fuel l, ve_disp = lv_disp l, ve_cyl = lv_cyl l, ve_drive = lv_drive l, ve_engine = lv_note l,
      ve_in_scope = in_market_scope (lv_make l) (lv_year l), ve_source = ''nhtsa_vpic'', ve_at = Tick 0\<rparr>"

definition recalls_payload :: "string \<Rightarrow> lean_vin \<Rightarrow> any_map" where
  "recalls_payload vehicle_id l =
     [(''vehicle_id'', VStr vehicle_id), (''make'', VStr (lv_make l)), (''model'', VStr (lv_model l)), (''year'', VInt (lv_year l))]"

definition store_decoded :: "string \<Rightarrow> string \<Rightarrow> uuid \<Rightarrow> lean_vin \<Rightarrow> ('w wk, gerr option) state" where
  "store_decoded vehicle_id vin vid l = do {
     _ \<leftarrow> on_db (upsert_vehicle_identity vid (lv_make l) (lv_model l) (lv_year l) (engine_text l));
     r \<leftarrow> on_db (upsert_vehicle_enrichment (enrichment_of vid l));
     case r of
       Inl e \<Rightarrow> ret (Some e)
     | Inr _ \<Rightarrow>
         if \<not> in_market_scope (lv_make l) (lv_year l) then do {
           log_line (''vin '' @ vin @ '' decoded '' @ lv_make l @ '' '' @ lv_model l @ '' '' @ show_int (lv_year l)
             @ '' '' @ em_dash @ '' outside NG 2010+ top-5 scope; skipping recalls'');
           ret None
         }
         else do {
           n \<leftarrow> on_db (attach_recalls vid (lv_make l) (lv_model l) (lv_year l));
           case n of
             Inl e \<Rightarrow> ret (Some e)
           | Inr k \<Rightarrow>
               if k = 0 then do {
                 now \<leftarrow> reads (\<lambda>s. clock (wk_db s));
                 _ \<leftarrow> on_db (enqueue_job ''recalls_mmy'' (recalls_payload vehicle_id l) now);
                 ret None
               }
               else ret None
         }
   }"

definition vin_decode :: "'w worker_env \<Rightarrow> any_map \<Rightarrow> ('w wk, gerr option) state" where
  "vin_decode E payload =
     (case (json_string payload ''vehicle_id'', json_string payload ''vin'') of
        (Inl e, _) \<Rightarrow> ret (Some e)
      | (_, Inl e) \<Rightarrow> ret (Some e)
      | (Inr vehicle_id, Inr vin) \<Rightarrow>
          (case we_parse E vehicle_id of
             Inl e \<Rightarrow> ret (Some e)
           | Inr vid \<Rightarrow> do {
               r \<leftarrow> on_net (decode_vin (we_client E) vin);
               case r of Inl e \<Rightarrow> ret (Some e) | Inr l \<Rightarrow> store_decoded vehicle_id vin vid l
             }))"

section \<open>Recalls\<close>

definition catalog_row :: "string \<Rightarrow> string \<Rightarrow> int \<Rightarrow> lean_recall \<Rightarrow> recall_row" where
  "catalog_row mk mdl year r =
     \<lparr>rc_make = mk, rc_model = mdl, rc_year = year, rc_campaign = lr_campaign r, rc_component = lr_component r,
      rc_summary = lr_summary r, rc_consequence = lr_consequence r, rc_remedy = lr_remedy r, rc_date = lr_date r,
      rc_source = ''nhtsa''\<rparr>"

fun store_recalls :: "string \<Rightarrow> string \<Rightarrow> int \<Rightarrow> lean_recall list \<Rightarrow> ('w wk, gerr option) state" where
  "store_recalls mk mdl year [] = ret None"
| "store_recalls mk mdl year (r # rs) = do {
     q \<leftarrow> on_db (upsert_recall_catalog (catalog_row mk mdl year r));
     case q of Inl e \<Rightarrow> ret (Some e) | Inr _ \<Rightarrow> store_recalls mk mdl year rs
   }"

definition attach_to :: "'w worker_env \<Rightarrow> string \<Rightarrow> string \<Rightarrow> string \<Rightarrow> int \<Rightarrow> ('w wk, unit) state" where
  "attach_to E vehicle_id mk mdl year =
     (if vehicle_id = [] then ret ()
      else case we_parse E vehicle_id of
             Inl _ \<Rightarrow> ret ()
           | Inr vid \<Rightarrow> do { _ \<leftarrow> on_db (attach_recalls vid mk mdl year); ret () })"

definition recalls_for :: "'w worker_env \<Rightarrow> string \<Rightarrow> string \<Rightarrow> string \<Rightarrow> int \<Rightarrow> ('w wk, gerr option) state" where
  "recalls_for E vehicle_id mk mdl year =
     (if \<not> in_market_scope mk year then ret None
      else do {
        r \<leftarrow> on_net (recalls_by_mmy (we_client E) mk mdl year);
        case r of
          Inl e \<Rightarrow> ret (Some e)
        | Inr rs \<Rightarrow> do {
            q \<leftarrow> store_recalls mk mdl year rs;
            case q of
              Some e \<Rightarrow> ret (Some e)
            | None \<Rightarrow> do {
                attach_to E vehicle_id mk mdl year;
                on_net (we_pause E)
              }
          }
      })"

definition recalls_mmy :: "'w worker_env \<Rightarrow> any_map \<Rightarrow> ('w wk, gerr option) state" where
  "recalls_mmy E payload =
     (case (json_string payload ''vehicle_id'', json_string payload ''make'', json_string payload ''model'', json_int payload ''year'') of
        (Inr vehicle_id, Inr mk, Inr mdl, Inr year) \<Rightarrow> recalls_for E vehicle_id mk mdl year
      | (Inl e, _, _, _) \<Rightarrow> ret (Some e)
      | (_, Inl e, _, _) \<Rightarrow> ret (Some e)
      | (_, _, Inl e, _) \<Rightarrow> ret (Some e)
      | (_, _, _, Inl e) \<Rightarrow> ret (Some e))"

section \<open>The seed of the catalog\<close>

function years_from :: "int \<Rightarrow> int list" where
  "years_from y = (if y > MaxSeedYear then [] else y # years_from (y + SeedYearStep))"
  by auto
termination by (relation "measure (\<lambda>y. nat (MaxSeedYear + 1 - y))") (auto simp: market_consts)

declare years_from.simps [simp del]

definition seed_payload :: "market_model \<Rightarrow> int \<Rightarrow> any_map" where
  "seed_payload m y = [(''make'', VStr (mm_nhtsa m)), (''model'', VStr (mm_nhtsa_model m)), (''year'', VInt y)]"

fun seed_loop :: "nat \<Rightarrow> (market_model \<times> int) list \<Rightarrow> ('w wk, gerr + nat) state" where
  "seed_loop n [] = ret (Inr n)"
| "seed_loop n ((m, y) # r) = do {
     now \<leftarrow> reads (\<lambda>s. clock (wk_db s));
     q \<leftarrow> on_db (enqueue_job ''recalls_mmy'' (seed_payload m y) (Tick (ticks now + n * 500)));
     case q of Inl e \<Rightarrow> ret (Inl e) | Inr _ \<Rightarrow> seed_loop (n + 1) r
   }"

definition seed_catalog :: "('w wk, gerr option) state" where
  "seed_catalog = do {
     ms \<leftarrow> on_db list_market_models;
     case ms of
       Inl e \<Rightarrow> ret (Some e)
     | Inr models \<Rightarrow> do {
         r \<leftarrow> seed_loop 0 (concat (map (\<lambda>m. map (\<lambda>y. (m, y)) (years_from MinModelYear)) models));
         case r of
           Inl e \<Rightarrow> ret (Some e)
         | Inr n \<Rightarrow> do {
             log_line (''seed_catalog enqueued '' @ show_nat n @ '' recall jobs for NG top makes (2010+''
               @ show_int SeedYearStep @ '' step)'');
             ret None
           }
       }
   }"

section \<open>The worker\<close>

definition process :: "'w worker_env \<Rightarrow> job_row \<Rightarrow> ('w wk, gerr option) state" where
  "process E j =
     (if j_kind j = ''vin_decode'' then vin_decode E (j_payload j)
      else if j_kind j = ''recalls_mmy'' then recalls_mmy E (j_payload j)
      else if j_kind j = ''seed_catalog'' then seed_catalog
      else ret None)"

fun tick_loop :: "'w worker_env \<Rightarrow> nat \<Rightarrow> ('w wk, unit) state" where
  "tick_loop E 0 = ret ()"
| "tick_loop E (Suc n) = do {
     r \<leftarrow> on_db claim_job;
     case r of
       Inl _ \<Rightarrow> ret ()
     | Inr None \<Rightarrow> ret ()
     | Inr (Some j) \<Rightarrow> do {
         e \<leftarrow> process E j;
         case e of
           Some x \<Rightarrow> do {
             log_line (''enrichment job '' @ we_show E (j_id j) @ '' failed: '' @ err_text x);
             now \<leftarrow> reads (\<lambda>s. clock (wk_db s));
             _ \<leftarrow> on_db (fail_job (j_id j) (err_text x) (Tick (ticks now + 120000)));
             tick_loop E n
           }
         | None \<Rightarrow> do {
             _ \<leftarrow> on_db (complete_job (j_id j));
             tick_loop E n
           }
       }
   }"

definition tick :: "'w worker_env \<Rightarrow> ('w wk, unit) state" where
  "tick E = do {
     enabled \<leftarrow> on_db (setting ''enrichment_enabled'');
     if enabled = Inr ''false'' then ret () else tick_loop E 5
   }"

definition enqueue_seed :: "unit store_op" where
  "enqueue_seed = do {
     r \<leftarrow> has_recent_job ''seed_catalog'' (24 * 60 * 60 * 1000);
     case r of
       Inl e \<Rightarrow> ret (Inl e)
     | Inr True \<Rightarrow> ret (Inr ())
     | Inr False \<Rightarrow> do {
         now \<leftarrow> reads clock;
         q \<leftarrow> enqueue_job ''seed_catalog'' [(''region'', VStr RegionCode)] now;
         ret (map_sum id (\<lambda>_. ()) q)
       }
   }"

definition enqueue_vin_decode :: "(uuid \<Rightarrow> string) \<Rightarrow> uuid \<Rightarrow> string \<Rightarrow> unit store_op" where
  "enqueue_vin_decode show_id vid vin = do {
     now \<leftarrow> reads clock;
     q \<leftarrow> enqueue_job ''vin_decode'' [(''vehicle_id'', VStr (show_id vid)), (''vin'', VStr vin)] now;
     ret (map_sum id (\<lambda>_. ()) q)
   }"

section \<open>What the work of a job does to the queue\<close>

lemma rely_refl: "rely d d"
  unfolding rely_def by (intro conjI exI [of _ "[]"]) simp_all

lemma fresh_job_mono: "fresh_job d d' j \<Longrightarrow> next_id d0 \<le> next_id d \<Longrightarrow> next_id d' \<le> next_id d1 \<Longrightarrow> fresh_job d0 d1 j"
  by (auto simp: fresh_job_def)

lemma rely_trans:
  assumes "rely a b" and "rely b c"
  shows "rely a c"
proof -
  obtain x where x: "jobs b = jobs a @ x" "distinct (map j_id x)" "list_all (fresh_job a b) x"
    and ab: "next_id a \<le> next_id b" "clock a \<le> clock b"
    using assms(1) by (auto simp: rely_def)
  obtain y where y: "jobs c = jobs b @ y" "distinct (map j_id y)" "list_all (fresh_job b c) y"
    and bc: "next_id b \<le> next_id c" "clock b \<le> clock c"
    using assms(2) by (auto simp: rely_def)
  have "list_all (fresh_job a c) (x @ y)"
    using x(3) y(3) ab(1) bc(1) by (auto simp: list_all_iff intro: fresh_job_mono)
  moreover have "distinct (map j_id (x @ y))"
    using x(2,3) y(2,3) by (fastforce simp: list_all_iff fresh_job_def)
  ultimately show ?thesis
    using x(1) y(1) ab bc unfolding rely_def by (intro conjI exI [of _ "x @ y"]) auto
qed

lemma rely_same: "jobs d' = jobs d \<Longrightarrow> next_id d' = next_id d \<Longrightarrow> clock d' = clock d \<Longrightarrow> rely d d'"
  unfolding rely_def by (intro conjI exI [of _ "[]"]) simp_all

text \<open>\<open>works\<close>: an action that keeps to the rely of the queue, as an invariant in the calculus of actions.\<close>

abbreviation works :: "('w wk, 'a) state \<Rightarrow> bool" where
  "works m \<equiv> (\<forall>d. keeps (\<lambda>s. rely d (wk_db s)) m)"

definition db_relies :: "'a store_op \<Rightarrow> bool" where
  "db_relies m \<longleftrightarrow> (\<forall>d. rely d (snd (run_state m d)))"

lemma keeps_on_db:
  assumes "db_relies m"
  shows "keeps (\<lambda>s. rely d (wk_db s)) (on_db m)"
proof (rule keepsI, rule specI)
  fix s x t assume "rely d (wk_db s)" and "run_state (on_db m) s = (x, t)"
  moreover have "rely (wk_db s) (snd (run_state m (wk_db s)))"
    using assms by (simp add: db_relies_def)
  ultimately show "rely d (wk_db t)"
    by (auto simp: on_db_def intro: rely_trans split: prod.splits sum.splits)
qed

lemma keeps_on_net: "keeps (\<lambda>s. rely d (wk_db s)) (on_net f)"
  by (rule keepsI, rule specI) (auto simp: on_net_def split: prod.splits)

lemma keeps_log: "keeps (\<lambda>s. rely d (wk_db s)) (log_line msg)"
  unfolding log_line_def by (rule keeps_modify) simp

lemmas works_basic = keeps_bind keeps_ret keeps_reads keeps_if keeps_case_option keeps_case_sum keeps_case_prod keeps_let
  keeps_on_net keeps_log keeps_on_db

lemma db_relies_upserts:
  "db_relies (upsert_vehicle_identity vid mk mdl year engine)" "db_relies (upsert_vehicle_enrichment e)"
  "db_relies (upsert_recall_catalog r)" "db_relies (attach_recalls vid mk mdl year)" "db_relies list_market_models"
  by (auto simp: db_relies_def upsert_vehicle_identity_def upsert_vehicle_enrichment_def upsert_recall_catalog_def
      attach_recalls_def list_market_models_def Let_def intro: rely_same)

lemma db_relies_enqueue: "db_relies (enqueue_job kind payload run_after)"
  unfolding db_relies_def
proof
  fix d :: db
  let ?j = "new_job (next_id d) kind payload (clock d) run_after"
  have "rely d (d\<lparr>next_id := Suc (next_id d), jobs := jobs d @ [?j]\<rparr>)" if "kind \<in> set job_kinds"
    unfolding rely_def using that
    by (intro conjI exI [of _ "[?j]"]) (simp_all add: fresh_job_def new_job_def)
  moreover have "rely d (d\<lparr>next_id := Suc (next_id d)\<rparr>)"
    unfolding rely_def by (intro conjI exI [of _ "[]"]) simp_all
  ultimately show "rely d (snd (run_state (enqueue_job kind payload run_after) d))"
    by (simp add: enqueue_job_def fresh_id_def)
qed

lemma works_store_recalls: "works (store_recalls mk mdl year rs)"
  by (induction rs) (auto intro!: works_basic db_relies_upserts)

lemma works_seed_loop: "works (seed_loop n ps)"
proof (induction ps arbitrary: n)
  case (Cons p ps)
  then show ?case
    by (cases p) (auto intro!: works_basic db_relies_enqueue)
qed (auto intro: keeps_ret)

lemma works_process: "works (process E j)"
  unfolding process_def seed_catalog_def vin_decode_def store_decoded_def recalls_mmy_def recalls_for_def attach_to_def
  by (auto intro!: works_basic db_relies_upserts db_relies_enqueue works_store_recalls [THEN spec] works_seed_loop [THEN spec])

section \<open>The worker and the queue\<close>

lemma runs_one: "step s e t \<Longrightarrow> runs s [e] t"
  using runs.more [OF runs.start, of s e t] by simp

lemma runs_trans: "runs t fs u \<Longrightarrow> runs s es t \<Longrightarrow> runs s (es @ fs) u"
proof (induction rule: runs.induct)
  case (more t fs u e v)
  then show ?case using runs.more [of s "es @ fs" u e v] by simp
qed simp

lemma run_on_db_claim:
  "run_state (on_db claim_job) s = (Inr (claim_pick {} (wk_db s)),
     s\<lparr>wk_db := (case claim_pick {} (wk_db s) of Some j \<Rightarrow> claim_mark (j_id j) (wk_db s) | None \<Rightarrow> wk_db s)\<rparr>)"
  by (simp add: on_db_def run_claim_job)

text \<open>A claim, the work and the answer of one worker are steps of the queue system.\<close>

lemma claim_steps:
  assumes "workers s w = Idle" and "locked s = {}" and "claim_pick {} (sys_db s) = Some j"
  shows "\<exists>es. runs s es (s\<lparr>sys_db := claim_mark (j_id j) (sys_db s), workers := (workers s)(w := Working (j_id j))\<rparr>)"
proof -
  let ?s1 = "s\<lparr>workers := (workers s)(w := Picked (j_id j))\<rparr>"
  have "step s (EvPick w (j_id j)) ?s1"
    using assms by (intro step.pick) simp_all
  moreover have "step ?s1 (EvMark w (j_id j)) (s\<lparr>sys_db := claim_mark (j_id j) (sys_db s), workers := (workers s)(w := Working (j_id j))\<rparr>)"
    using step.mark [of ?s1 w "j_id j"] by simp
  ultimately show ?thesis
    using runs_trans [OF runs_one runs_one] by blast
qed

text \<open>One round of a worker: the claim, the work, and the answer that ends it.\<close>

lemma round_refines:
  assumes "workers s w = Idle" and "locked s = {}" and "claim_pick {} (sys_db s) = Some j"
    and "rely (claim_mark (j_id j) (sys_db s)) d" and "d' = complete_db (j_id j) d \<or> d' = fail_db (j_id j) msg retry_at d"
  shows "\<exists>es. runs s es (s\<lparr>sys_db := d'\<rparr>)"
proof -
  let ?s1 = "s\<lparr>sys_db := claim_mark (j_id j) (sys_db s), workers := (workers s)(w := Working (j_id j))\<rparr>"
  let ?s2 = "?s1\<lparr>sys_db := d\<rparr>"
  obtain es where es: "runs s es ?s1" using claim_steps [OF assms(1-3)] by blast
  have other: "step ?s1 EvOther ?s2" using step.other [of ?s1 d] assms(4) by simp
  have w: "workers ?s2 w = Working (j_id j)" by simp
  have "\<exists>e. step ?s2 e (s\<lparr>sys_db := d'\<rparr>)"
    using assms(1,5) step.finish [OF w] step.failed [OF w, of msg retry_at] by (auto simp: fun_upd_idem)
  then show ?thesis
    using runs_trans [OF runs_one runs_trans [OF runs_one [OF other] es]] by blast
qed

lemma process_relies: "run_state (process E j) k = (e, k') \<Longrightarrow> rely (wk_db k) (wk_db k')"
  using keepsD [OF works_process [THEN spec], of "wk_db k" k E j] by (simp add: rely_refl)

lemma tick_loop_refines:
  assumes "workers s w = Idle" and "locked s = {}" and "sys_db s = wk_db k"
  shows "\<exists>es. runs s es (s\<lparr>sys_db := wk_db (snd (run_state (tick_loop E n) k))\<rparr>)"
  using assms
proof (induction n arbitrary: s k)
  case 0
  then have "s\<lparr>sys_db := wk_db (snd (run_state (tick_loop E 0) k))\<rparr> = s" by simp
  then show ?case using runs.start [of s] by metis
next
  case (Suc n)
  show ?case
  proof (cases "claim_pick {} (wk_db k)")
    case None
    then have "run_state (tick_loop E (Suc n)) k = ((), k)"
      by (simp add: run_on_db_claim)
    then have "s\<lparr>sys_db := wk_db (snd (run_state (tick_loop E (Suc n)) k))\<rparr> = s" using Suc.prems(3) by simp
    then show ?thesis using runs.start [of s] by metis
  next
    case (Some j)
    let ?k1 = "k\<lparr>wk_db := claim_mark (j_id j) (wk_db k)\<rparr>"
    obtain e k2 where p: "run_state (process E j) ?k1 = (e, k2)" by fastforce
    let ?retry = "Tick (ticks (clock (wk_db k2)) + 120000)"
    obtain k3 where k3: "run_state (tick_loop E (Suc n)) k = run_state (tick_loop E n) k3"
      and ans: "wk_db k3 = complete_db (j_id j) (wk_db k2) \<or> wk_db k3 = fail_db (j_id j) (err_text (the e)) ?retry (wk_db k2)"
    proof (cases e)
      case None
      show thesis
        by (rule that [of "k2\<lparr>wk_db := complete_db (j_id j) (wk_db k2)\<rparr>"])
          (use Some p None in \<open>simp_all add: run_on_db_claim, simp_all add: on_db_def complete_job_def\<close>)
    next
      case (Some x)
      show thesis
        by (rule that [of "k2\<lparr>wk_log := wk_log k2 @ [''enrichment job '' @ we_show E (j_id j) @ '' failed: '' @ err_text x],
             wk_db := fail_db (j_id j) (err_text x) ?retry (wk_db k2)\<rparr>"])
          (use \<open>claim_pick {} (wk_db k) = Some j\<close> p Some in
            \<open>simp_all add: run_on_db_claim, simp_all add: on_db_def fail_job_def log_line_def\<close>)
    qed
    obtain es where es: "runs s es (s\<lparr>sys_db := wk_db k3\<rparr>)"
      using round_refines [OF Suc.prems(1,2) _ _ ans] Some process_relies [OF p] Suc.prems(3) by auto
    obtain fs where "runs (s\<lparr>sys_db := wk_db k3\<rparr>) fs (s\<lparr>sys_db := wk_db (snd (run_state (tick_loop E n) k3))\<rparr>)"
      using Suc.IH [of "s\<lparr>sys_db := wk_db k3\<rparr>" k3] Suc.prems(1,2) by (auto simp: locked_def)
    from runs_trans [OF this es] show ?thesis unfolding k3 by blast
  qed
qed

section \<open>What is stored\<close>

definition enriched_ok :: "db \<Rightarrow> bool" where
  "enriched_ok d \<longleftrightarrow> list_all (\<lambda>r. in_market_scope (rc_make r) (rc_year r)) (recall_cat d)
     \<and> distinct (map recall_key (recall_cat d))
     \<and> distinct (map (\<lambda>(v, r). (v, rc_campaign r)) (veh_recalls d))
     \<and> distinct (map ve_vehicle (enrichments d))
     \<and> list_all (\<lambda>e. ve_in_scope e = in_market_scope (ve_make e) (ve_year e)) (enrichments d)"

lemma enriched_ok_same:
  "enriched_ok d \<Longrightarrow> recall_cat d' = recall_cat d \<Longrightarrow> veh_recalls d' = veh_recalls d \<Longrightarrow> enrichments d' = enrichments d
   \<Longrightarrow> enriched_ok d'"
  by (simp add: enriched_ok_def)

lemma attach_rows_distinct:
  "distinct (map (\<lambda>(v, r). (v, rc_campaign r)) acc) \<Longrightarrow>
   distinct (map (\<lambda>(v, r). (v, rc_campaign r)) (attach_rows vid rs acc))"
  by (induction vid rs acc rule: attach_rows.induct) auto

lemma attach_rows_keeps: "set acc \<subseteq> set (attach_rows vid rs acc)"
  by (induction vid rs acc rule: attach_rows.induct) (auto split: if_splits)

lemma attach_rows_has:
  "r \<in> set rs \<Longrightarrow> (vid, rc_campaign r) \<in> (\<lambda>(v, x). (v, rc_campaign x)) ` set (attach_rows vid rs acc)"
proof (induction vid rs acc rule: attach_rows.induct)
  case (2 vid q rs acc)
  let ?acc = "if (vid, rc_campaign q) \<in> set (map (\<lambda>(v, x). (v, rc_campaign x)) acc) then acc else acc @ [(vid, q)]"
  have "(vid, rc_campaign q) \<in> (\<lambda>(v, x). (v, rc_campaign x)) ` set ?acc" by auto
  then have "(vid, rc_campaign q) \<in> (\<lambda>(v, x). (v, rc_campaign x)) ` set (attach_rows vid rs ?acc)"
    using attach_rows_keeps [of ?acc vid rs] by (rule image_mono [THEN subsetD, rotated])
  with 2 show ?case by (cases "r = q") (simp_all del: if_split)
qed simp

lemma attach_rows_absent:
  "(\<lambda>r. (vid, rc_campaign r)) ` set rs \<subseteq> set (map (\<lambda>(v, r). (v, rc_campaign r)) acc) \<Longrightarrow> attach_rows vid rs acc = acc"
  by (induction vid rs acc rule: attach_rows.induct) auto

lemma attach_rows_again: "attach_rows vid rs (attach_rows vid rs acc) = attach_rows vid rs acc"
  by (rule attach_rows_absent) (use attach_rows_has [of _ rs vid acc] in auto)

definition db_keeps :: "(db \<Rightarrow> bool) \<Rightarrow> 'a store_op \<Rightarrow> bool" where
  "db_keeps P m \<longleftrightarrow> (\<forall>d. P d \<longrightarrow> P (snd (run_state m d)))"

lemma keeps_on_db_inv:
  assumes "db_keeps P m"
  shows "keeps (\<lambda>s. P (wk_db s)) (on_db m)"
proof (rule keepsI, rule specI)
  fix s x t assume "P (wk_db s)" and "run_state (on_db m) s = (x, t)"
  moreover have "P (wk_db s) \<Longrightarrow> P (snd (run_state m (wk_db s)))"
    using assms by (simp add: db_keeps_def)
  ultimately show "P (wk_db t)"
    by (auto simp: on_db_def split: prod.splits sum.splits)
qed

lemma keeps_on_net_inv: "keeps (\<lambda>s. P (wk_db s)) (on_net f)"
  by (rule keepsI, rule specI) (auto simp: on_net_def split: prod.splits)

lemma keeps_log_inv: "keeps (\<lambda>s. P (wk_db s)) (log_line msg)"
  unfolding log_line_def by (rule keeps_modify) simp

lemma upsert_recall_ok:
  assumes "in_market_scope (rc_make r) (rc_year r)"
  shows "db_keeps enriched_ok (upsert_recall_catalog r)"
proof -
  have keys: "map recall_key (map (\<lambda>x. if recall_key x = k then refresh_recall y x else x) xs) = map recall_key xs" for k y xs
    by (simp add: refresh_recall_def recall_key_def)
  have scope: "list_all (\<lambda>r. in_market_scope (rc_make r) (rc_year r)) (map (\<lambda>x. if recall_key x = k then refresh_recall y x else x) xs)"
    if "list_all (\<lambda>r. in_market_scope (rc_make r) (rc_year r)) xs" for k y xs
    using that
    by (auto simp: list_all_iff refresh_recall_def)
  have "enriched_ok (d\<lparr>recall_cat := if recall_key y \<in> set (map recall_key (recall_cat d))
        then map (\<lambda>x. if recall_key x = recall_key y then refresh_recall y x else x) (recall_cat d) else recall_cat d @ [y]\<rparr>)"
    if "enriched_ok d" "in_market_scope (rc_make y) (rc_year y)" for d :: db and y
    using that by (cases "recall_key y \<in> set (map recall_key (recall_cat d))")
      (simp_all add: enriched_ok_def keys scope del: map_map list.map_comp)
  then show ?thesis
    using assms by (simp add: db_keeps_def upsert_recall_catalog_def Let_def)
qed

lemma upsert_enrichment_ok:
  assumes "ve_in_scope e = in_market_scope (ve_make e) (ve_year e)"
  shows "db_keeps enriched_ok (upsert_vehicle_enrichment e)"
proof -
  have keys: "map ve_vehicle (map (\<lambda>x. if ve_vehicle x = k then y else x) es) = map ve_vehicle es" if "ve_vehicle y = k" for k y es
    using that by auto
  have scope: "list_all Q (map (\<lambda>x. if ve_vehicle x = k then y else x) es)" if "list_all Q es" "Q y" for Q k y es
    using that by (auto simp: list_all_iff)
  have "enriched_ok (d\<lparr>enrichments := if ve_vehicle y \<in> set (map ve_vehicle (enrichments d))
        then map (\<lambda>x. if ve_vehicle x = ve_vehicle y then y else x) (enrichments d) else enrichments d @ [y]\<rparr>)"
    if "enriched_ok d" "ve_in_scope y = in_market_scope (ve_make y) (ve_year y)" for d :: db and y
    using that by (cases "ve_vehicle y \<in> set (map ve_vehicle (enrichments d))")
      (simp_all add: enriched_ok_def keys scope del: map_map list.map_comp)
  from this [of _ "e\<lparr>ve_source := s, ve_at := t\<rparr>" for s t] show ?thesis
    using assms by (simp add: db_keeps_def upsert_vehicle_enrichment_def Let_def)
qed

lemma attach_ok: "db_keeps enriched_ok (attach_recalls vid mk mdl year)"
  unfolding db_keeps_def
  by (auto simp: attach_recalls_def Let_def enriched_ok_def intro: attach_rows_distinct)

lemma queue_ok:
  "db_keeps enriched_ok (enqueue_job kind payload run_after)" "db_keeps enriched_ok claim_job"
  "db_keeps enriched_ok (complete_job i)" "db_keeps enriched_ok (fail_job i msg retry_at)"
  "db_keeps enriched_ok (upsert_vehicle_identity vid mk mdl year engine)" "db_keeps enriched_ok list_market_models"
  "db_keeps enriched_ok (setting key)"
  unfolding db_keeps_def
  by (auto simp: enqueue_job_def fresh_id_def run_claim_job claim_mark_def complete_job_def complete_db_def fail_job_def
      fail_db_def upd_job_def upsert_vehicle_identity_def list_market_models_def run_setting enriched_ok_def
      split: option.split)

lemmas enriched_basic = keeps_bind keeps_ret keeps_reads keeps_if keeps_case_option keeps_case_sum keeps_case_prod keeps_let
  keeps_on_net_inv keeps_log_inv keeps_on_db_inv queue_ok attach_ok

lemma store_recalls_ok:
  "in_market_scope mk year \<Longrightarrow> keeps (\<lambda>s. enriched_ok (wk_db s)) (store_recalls mk mdl year rs)"
  by (induction rs) (auto intro!: enriched_basic upsert_recall_ok simp: catalog_row_def)

lemma seed_loop_ok: "keeps (\<lambda>s. enriched_ok (wk_db s)) (seed_loop n ps)"
  by (induction n ps rule: seed_loop.induct) (auto intro!: enriched_basic)

lemma recalls_for_ok: "keeps (\<lambda>s. enriched_ok (wk_db s)) (recalls_for E vehicle_id mk mdl year)"
proof (cases "in_market_scope mk year")
  case True
  then show ?thesis
    unfolding recalls_for_def attach_to_def by (auto intro!: enriched_basic store_recalls_ok)
qed (simp add: recalls_for_def keeps_ret)

lemma process_ok: "keeps (\<lambda>s. enriched_ok (wk_db s)) (process E j)"
  unfolding process_def seed_catalog_def vin_decode_def store_decoded_def recalls_mmy_def
  by (auto intro!: enriched_basic upsert_enrichment_ok recalls_for_ok seed_loop_ok simp: enrichment_of_def)

lemma tick_loop_ok: "keeps (\<lambda>s. enriched_ok (wk_db s)) (tick_loop E n)"
  by (induction n) (auto intro!: enriched_basic process_ok)

section \<open>Properties\<close>

lemma run_seed_loop:
  "next_id (wk_db s) = i + n \<Longrightarrow> run_state (seed_loop n ps) s =
     (Inr (n + length ps), s\<lparr>wk_db := (wk_db s)\<lparr>next_id := i + n + length ps,
        jobs := jobs (wk_db s) @ map (\<lambda>(k, m, y). new_job (i + k) ''recalls_mmy'' (seed_payload m y) (clock (wk_db s))
          (Tick (ticks (clock (wk_db s)) + k * 500))) (enumerate n ps)\<rparr>\<rparr>)"
proof (induction ps arbitrary: n s)
  case (Cons p r)
  obtain m y where p: "p = (m, y)" by (cases p)
  let ?s = "s\<lparr>wk_db := (wk_db s)\<lparr>next_id := Suc (i + n), jobs := jobs (wk_db s) @
     [new_job (i + n) ''recalls_mmy'' (seed_payload m y) (clock (wk_db s)) (Tick (ticks (clock (wk_db s)) + n * 500))]\<rparr>\<rparr>"
  have "run_state (seed_loop n (p # r)) s = run_state (seed_loop (n + 1) r) ?s"
    using Cons.prems by (simp add: p on_db_def enqueue_job_def fresh_id_def job_kinds_def)
  with Cons.IH [of ?s "n + 1"] show ?case by (simp add: p)
qed simp

lemma seed_years: "years_from MinModelYear = [2010, 2012, 2014, 2016, 2018, 2020, 2022, 2024]"
  by (simp add: years_from.simps market_consts)

lemma run_on_db_reads: "run_state (on_db (do { x \<leftarrow> reads f; ret (Inr x) })) s = (Inr (f (wk_db s)), s)"
  by (simp add: on_db_def)

text \<open>
  Seeding the catalog always succeeds and enqueues one recall job for every model of the market and every second
  model year from 2010 to 2024, in the order of the models, half a second apart, and touches nothing else of the database.
\<close>
theorem seed_catalog_exact:
  "fst (run_state seed_catalog s) = None
   \<and> (let ps = concat (map (\<lambda>m. map (\<lambda>y. (m, y)) [2010, 2012, 2014, 2016, 2018, 2020, 2022, 2024]) (market (wk_db s)))
      in wk_db (snd (run_state seed_catalog s)) = (wk_db s)\<lparr>next_id := next_id (wk_db s) + length ps,
           jobs := jobs (wk_db s) @ map (\<lambda>(k, m, y). new_job (next_id (wk_db s) + k) ''recalls_mmy'' (seed_payload m y)
             (clock (wk_db s)) (Tick (ticks (clock (wk_db s)) + k * 500))) (enumerate 0 ps)\<rparr>)"
  using run_seed_loop [of s "next_id (wk_db s)" 0
      "concat (map (\<lambda>m. map (\<lambda>y. (m, y)) [2010, 2012, 2014, 2016, 2018, 2020, 2022, 2024]) (market (wk_db s)))"]
  by (simp add: seed_catalog_def list_market_models_def run_on_db_reads seed_years log_line_def Let_def)

lemma run_on_db_setting: "run_state (on_db (setting key)) k = (fst (run_state (on_db (setting key)) k), k)"
  by (simp add: on_db_def setting_def split: option.split)

text \<open>
  C20. The worker is a client of the queue and nothing more: whatever the network answers and whatever a job
  does, a tick of one worker, beside any number of others that work, is a run of the queue system. What
  is proved of that system, exclusive work, bounded retries and well-formed rows, holds of the worker.
\<close>
theorem worker_refines_queue:
  assumes "workers s w = Idle" and "locked s = {}" and "sys_db s = wk_db k"
  shows "\<exists>es. runs s es (s\<lparr>sys_db := wk_db (snd (run_state (tick E) k))\<rparr>)"
proof -
  obtain x where x: "run_state (on_db (setting ''enrichment_enabled'')) k = (x, k)"
    using run_on_db_setting by blast
  show ?thesis
  proof (cases "x = Inr ''false''")
    case True
    with x assms(3) have "s\<lparr>sys_db := wk_db (snd (run_state (tick E) k))\<rparr> = s" by (simp add: tick_def)
    then show ?thesis using runs.start [of s] by metis
  next
    case False
    with x tick_loop_refines [OF assms, of E 5] show ?thesis by (simp add: tick_def)
  qed
qed

definition no_net :: "unit worker_env" where
  "no_net = \<lparr>we_client = \<lparr>h_do = (\<lambda>_ w. (Inl (Msg ''no route to host''), w)), js_vpic = (\<lambda>_. Inr []), js_lower = (\<lambda>_. Inr []),
       js_upper = (\<lambda>_. Inr []), path_escape = (\<lambda>x. x), query_escape = (\<lambda>x. x), fmt_v = (\<lambda>_. []), vpic_base = [], nhtsa_base = []\<rparr>,
     we_parse = parse_us, we_show = show_nat, we_pause = (\<lambda>w. (None, w))\<rparr>"

theorem worker_refines_queue_witness:
  "\<exists>es. runs (idle_sys one_job) es ((idle_sys one_job)\<lparr>sys_db :=
     wk_db (snd (run_state (tick no_net) \<lparr>wk_db = one_job, wk_net = (), wk_log = []\<rparr>))\<rparr>)"
  by (rule worker_refines_queue [of _ 0]) (simp_all add: idle_sys_def locked_def)

text \<open>
  C21. What the worker stores is consistent: the recall catalog holds only campaigns of vehicles in the market scope and each of them
  once, no campaign is attached twice to a vehicle, a vehicle has at most one decoded identity, and its scope flag is the scope of
  the make and year stored with it. A tick keeps all of this, whatever the network answers.
\<close>
theorem enrichment_consistent:
  assumes "enriched_ok (wk_db k)"
  shows "enriched_ok (wk_db (snd (run_state (tick E) k)))"
proof (rule keepsD [of "\<lambda>s. enriched_ok (wk_db s)"])
  show "keeps (\<lambda>s. enriched_ok (wk_db s)) (tick E)"
    unfolding tick_def by (auto intro!: enriched_basic tick_loop_ok)
qed (rule assms)

theorem enrichment_consistent_witness:
  "enriched_ok (wk_db (snd (run_state (tick no_net) \<lparr>wk_db = one_job, wk_net = (), wk_log = []\<rparr>)))"
  by (rule enrichment_consistent) (simp add: enriched_ok_def one_job_def initial_db_def)

lemma attach_rows_length: "length acc \<le> length (attach_rows vid rs acc)"
proof (induction vid rs acc rule: attach_rows.induct)
  case (2 vid r rs acc)
  then show ?case
    by (cases "(vid, rc_campaign r) \<in> set (map (\<lambda>(v, x). (v, rc_campaign x)) acc)") simp_all
qed simp

lemma run_store_decoded:
  assumes "in_market_scope (lv_make l) (lv_year l)" and "vid \<in> set (map v_id (vehicles (wk_db s)))"
    and "d = wk_db s" and "rows = attach_rows vid (mmy_recalls d (lv_make l) (lv_model l) (lv_year l)) (veh_recalls d)"
  shows "\<exists>d'. run_state (store_decoded vehicle_id vin vid l) s = (None, s\<lparr>wk_db := d'\<rparr>)
    \<and> veh_recalls d' = rows \<and> recall_cat d' = recall_cat d \<and> map v_id (vehicles d') = map v_id (vehicles d)
    \<and> jobs d' = jobs d @ (if length rows = length (veh_recalls d)
         then [new_job (next_id d) ''recalls_mmy'' (recalls_payload vehicle_id l) (clock d) (clock d)] else [])"
proof -
  let ?u = "upsert_vehicle_identity vid (lv_make l) (lv_model l) (lv_year l) (engine_text l)"
  obtain d1 where d1: "run_state ?u d = (Inr (), d1)" "map v_id (vehicles d1) = map v_id (vehicles d)"
    "veh_recalls d1 = veh_recalls d" "recall_cat d1 = recall_cat d" "jobs d1 = jobs d" "next_id d1 = next_id d" "clock d1 = clock d"
    by (simp add: upsert_vehicle_identity_def comp_def if_distrib cong: if_cong)
  have vid1: "vid \<in> v_id ` set (vehicles d1)"
    using d1(2) assms(2,3) by (metis set_map)
  have "\<exists>d2. run_state (upsert_vehicle_enrichment (enrichment_of vid l)) d1 = (Inr (), d2) \<and> vehicles d2 = vehicles d1
    \<and> veh_recalls d2 = veh_recalls d1 \<and> recall_cat d2 = recall_cat d1 \<and> jobs d2 = jobs d1 \<and> next_id d2 = next_id d1
    \<and> clock d2 = clock d1"
    using vid1 by (simp add: upsert_vehicle_enrichment_def Let_def enrichment_of_def)
  then obtain d2 where d2: "run_state (upsert_vehicle_enrichment (enrichment_of vid l)) d1 = (Inr (), d2)" "vehicles d2 = vehicles d1"
    "veh_recalls d2 = veh_recalls d" "recall_cat d2 = recall_cat d" "jobs d2 = jobs d" "next_id d2 = next_id d" "clock d2 = clock d"
    using d1(3-7) by auto
  have rows: "attach_rows vid (mmy_recalls d2 (lv_make l) (lv_model l) (lv_year l)) (veh_recalls d2) = rows"
    using d2 assms(4) by (simp add: mmy_recalls_def)
  have vid: "vid \<in> v_id ` set (vehicles d2)"
    using d2(2) d1(2) assms(2,3) by (metis set_map)
  have att: "run_state (attach_recalls vid (lv_make l) (lv_model l) (lv_year l)) d2
      = (Inr (length rows - length (veh_recalls d)), d2\<lparr>veh_recalls := rows\<rparr>)"
    using rows vid d2(3) by (simp add: attach_recalls_def Let_def)
  have len: "length (veh_recalls d) \<le> length rows"
    using assms(4) attach_rows_length by simp
  show ?thesis
    using assms(1,3) d1 d2 att len
    by (auto simp: store_decoded_def on_db_def enqueue_job_def fresh_id_def job_kinds_def)
qed

text \<open>
  Decoding the same vehicle again always asks NHTSA for its recalls again: the number of rows that were attached is 0 also when all
  recalls are attached already, and the worker takes 0 for a catalog that has none, so from the second scan of a vehicle on, every scan of it
  adds another \<^verbatim>\<open>recalls_mmy\<close> job.
\<close>
theorem recalls_asked_again:
  assumes "in_market_scope (lv_make l) (lv_year l)" and "vid \<in> set (map v_id (vehicles (wk_db s)))"
    and "run_state (store_decoded vehicle_id vin vid l) s = (r, s1)"
    and "run_state (store_decoded vehicle_id vin vid l) s1 = (r2, s2)"
  shows "jobs (wk_db s2) = jobs (wk_db s1) @
    [new_job (next_id (wk_db s1)) ''recalls_mmy'' (recalls_payload vehicle_id l) (clock (wk_db s1)) (clock (wk_db s1))]"
proof -
  let ?rows = "attach_rows vid (mmy_recalls (wk_db s) (lv_make l) (lv_model l) (lv_year l)) (veh_recalls (wk_db s))"
  obtain d1 where "run_state (store_decoded vehicle_id vin vid l) s = (None, s\<lparr>wk_db := d1\<rparr>)"
    and d1: "veh_recalls d1 = ?rows" "recall_cat d1 = recall_cat (wk_db s)" "map v_id (vehicles d1) = map v_id (vehicles (wk_db s))"
    using run_store_decoded [OF assms(1,2) refl refl] by blast
  then have s1: "wk_db s1 = d1" using assms(3) by auto
  then have vid: "vid \<in> set (map v_id (vehicles (wk_db s1)))" using d1(3) assms(2) by metis
  have "attach_rows vid (mmy_recalls (wk_db s1) (lv_make l) (lv_model l) (lv_year l)) (veh_recalls (wk_db s1)) = veh_recalls (wk_db s1)"
    using s1 d1(1,2) by (simp add: mmy_recalls_def attach_rows_again)
  with run_store_decoded [OF assms(1) vid refl refl, of vehicle_id vin] assms(4) show ?thesis by auto
qed

definition corolla :: lean_vin where
  "corolla = \<lparr>lv_make = ''TOYOTA'', lv_model = ''Corolla'', lv_year = 2015, lv_body = [], lv_fuel = [], lv_disp = ''1.8'', lv_cyl = ''4'',
     lv_drive = [], lv_note = [], lv_code = ''0'', lv_text = []\<rparr>"

definition corolla_wk :: "unit wk" where
  "corolla_wk = \<lparr>wk_db = shop_db\<lparr>vehicles := [\<lparr>v_id = 0, v_vin = ''V'', v_make = None, v_model = None, v_year = None, v_engine = None\<rparr>]\<rparr>,
     wk_net = (), wk_log = []\<rparr>"

theorem recalls_asked_again_witness:
  "\<exists>s1 s2. run_state (store_decoded [] ''V'' 0 corolla) corolla_wk = (None, s1)
     \<and> run_state (store_decoded [] ''V'' 0 corolla) s1 = (None, s2) \<and> length (jobs (wk_db s2)) = 1 + length (jobs (wk_db s1))"
proof -
  have scope: "in_market_scope (lv_make corolla) (lv_year corolla)" by code_simp
  have vid: "0 \<in> set (map v_id (vehicles (wk_db corolla_wk)))" by (simp add: corolla_wk_def)
  obtain d1 where r1: "run_state (store_decoded [] ''V'' 0 corolla) corolla_wk = (None, corolla_wk\<lparr>wk_db := d1\<rparr>)"
    and v1: "map v_id (vehicles d1) = map v_id (vehicles (wk_db corolla_wk))"
    using run_store_decoded [OF scope vid refl refl] by blast
  have "0 \<in> set (map v_id (vehicles (wk_db (corolla_wk\<lparr>wk_db := d1\<rparr>))))" using v1 vid by simp
  then obtain d2 where r2: "run_state (store_decoded [] ''V'' 0 corolla) (corolla_wk\<lparr>wk_db := d1\<rparr>) = (None, corolla_wk\<lparr>wk_db := d2\<rparr>)"
    using run_store_decoded [OF scope _ refl refl] by fastforce
  from recalls_asked_again [OF scope vid r1 r2] r1 r2 show ?thesis by auto
qed

end
