(* ===== verification/Api.thy ===== *)
theory Api
  imports Enrichment Explain
begin

text \<open>
  The HTTP API of \<^verbatim>\<open>internal/api/server.go\<close>: one action per handler, the two middlewares, and the table of routes. A
  request is its route with the URL parameters and the decoded body (an error where JSON decoding failed); a response is a
  status with the value that is encoded. Texts of UUIDs, the sources of randomness and the services are fields of \<open>api_env\<close>;
  \<open>ae_nil\<close> is the number of the UUID that \<^verbatim>\<open>uuid.Parse\<close> yields beside an error. Routing itself, CORS, logging
  and \<^verbatim>\<open>/healthz\<close> are the router's.
\<close>

record 'w api_env =
  ae_crypto :: crypto
  ae_manager :: manager
  ae_parse :: "string \<Rightarrow> gerr + uuid"
  ae_show :: "uuid \<Rightarrow> string"
  ae_nil :: uuid
  ae_salt :: nat
  ae_jti :: string
  ae_invite :: "uuid \<Rightarrow> string"
  ae_llm :: "'w llm"
  ae_scanf :: "string \<Rightarrow> float64 option"

record 'w server =
  sv_db :: db
  sv_narrator :: "'w narrator option"

record register_request =
  rr_email :: string
  rr_password :: string
  rr_name :: string
  rr_shop :: string
  rr_invite :: string

record scan_request =
  cr_vin :: string
  cr_link :: string
  cr_adapter :: string
  cr_protocol :: string
  cr_notes :: string
  cr_dtcs :: "dtc list"
  cr_obs :: "observations option"

record public_tech =
  pt_id :: uuid
  pt_email :: string
  pt_name :: string
  pt_role :: string
  pt_active :: bool
  pt_org :: "uuid option"

record explain_out =
  eo_exp :: explanation
  eo_findings :: "finding list"
  eo_packet :: packet
  eo_narrative :: "narrative_result option"

datatype route =
    Register "gerr + register_request"
  | Login "gerr + string \<times> string"
  | Me
  | CreateScan "gerr + scan_request"
  | GetScan string
  | ListScans string
  | ExplainCode string string string string
  | ListOrgs
  | CreateOrg "gerr + string"
  | ListAllTechs
  | PatchSetting string "gerr + string"
  | Stats
  | Seed
  | SetActive string "gerr + bool"
  | ListOrgTechs

datatype payload =
    PError string
  | PToken string int public_tech "organization option"
  | PTech public_tech
  | PScan scan_record
  | PScans string "scan_record list"
  | PExplain explain_out
  | POrgs "organization list"
  | POrg organization
  | PTechs "public_tech list"
  | PActive uuid bool
  | PSetting string string
  | PStats "(string \<times> nat) list"
  | PJob uuid

type_synonym 'w handler = "('w server, nat \<times> payload) state"

definition write_err :: "nat \<Rightarrow> string \<Rightarrow> 'w handler" where
  "write_err status msg = ret (status, PError msg)"

definition on_store :: "'a store_op \<Rightarrow> ('w server, store_error + 'a) state" where
  "on_store m = State (\<lambda>s. case run_state m (sv_db s) of (r, d) \<Rightarrow> (r, s\<lparr>sv_db := d\<rparr>))"

definition public_tech_of :: "technician \<Rightarrow> public_tech" where
  "public_tech_of t = \<lparr>pt_id = t_id t, pt_email = t_email t, pt_name = t_name t, pt_role = t_role t, pt_active = t_active t, pt_org = t_org t\<rparr>"

definition issue_for :: "'w api_env \<Rightarrow> technician \<Rightarrow> ('w server, string \<times> int) state" where
  "issue_for A t = do {
     now \<leftarrow> reads (\<lambda>s. ticks (clock (sv_db s)));
     ret (issue (ae_crypto A) (ae_manager A) now (ae_jti A) (ae_show A (t_id t))
       (case t_org t of Some x \<Rightarrow> ae_show A x | None \<Rightarrow> []) (t_email t) (t_role t))
   }"

section \<open>Accounts\<close>

definition register_status :: "store_error \<Rightarrow> nat" where
  "register_status e = (if e = ErrRegisterClosed then 403 else if e = ErrEmailTaken then 409 else 400)"

definition register :: "'w api_env \<Rightarrow> gerr + register_request \<Rightarrow> 'w handler" where
  "register A body =
     (case body of
        Inl e \<Rightarrow> write_err 400 (err_text e)
      | Inr req \<Rightarrow> do {
          r \<leftarrow> on_store (register_technician (ae_crypto A) (ae_invite A) (ae_salt A)
            \<lparr>ri_email = trim_space (to_lower (rr_email req)), ri_password = rr_password req, ri_name = rr_name req,
             ri_shop = rr_shop req, ri_invite = trim_space (rr_invite req)\<rparr>);
          case r of
            Inl e \<Rightarrow> write_err (register_status e) (store_text e)
          | Inr (t, org) \<Rightarrow> do {
              (tok, e) \<leftarrow> issue_for A t;
              ret (201, PToken tok e (public_tech_of t) (Some org))
            }
        })"

definition login :: "'w api_env \<Rightarrow> gerr + string \<times> string \<Rightarrow> 'w handler" where
  "login A body =
     (case body of
        Inl e \<Rightarrow> write_err 400 (err_text e)
      | Inr (email, password) \<Rightarrow> do {
          r \<leftarrow> on_store (authenticate (ae_crypto A) (trim_space (to_lower email)) password);
          case r of
            Inl e \<Rightarrow> write_err 401 (store_text e)
          | Inr t \<Rightarrow> do {
              (tok, e) \<leftarrow> issue_for A t;
              ret (200, PToken tok e (public_tech_of t) None)
            }
        })"

definition parse_or_nil :: "'w api_env \<Rightarrow> string \<Rightarrow> uuid" where
  "parse_or_nil A s = (case ae_parse A s of Inr i \<Rightarrow> i | Inl _ \<Rightarrow> ae_nil A)"

definition me :: "'w api_env \<Rightarrow> claims \<Rightarrow> 'w handler" where
  "me A c = do {
     r \<leftarrow> on_store (get_technician (parse_or_nil A (cl_tech c)));
     case r of
       Inl e \<Rightarrow> write_err 404 (store_text e)
     | Inr t \<Rightarrow> ret (200, PTech (public_tech_of t))
   }"

section \<open>Scans\<close>

definition create_scan_h :: "'w api_env \<Rightarrow> claims \<Rightarrow> gerr + scan_request \<Rightarrow> 'w handler" where
  "create_scan_h A c body =
     (if cl_org c = []
      then write_err 403 ''super admins cannot create scans without an org context; use a shop technician account''
      else case body of
        Inl e \<Rightarrow> write_err 400 (err_text e)
      | Inr req \<Rightarrow> do {
          r \<leftarrow> on_store (create_scan (ae_parse A)
            \<lparr>ci_tech = cl_tech c, ci_org = cl_org c, ci_vin = cr_vin req,
             ci_link = (if cr_link req = [] then LinkUSB else cr_link req), ci_adapter = cr_adapter req,
             ci_protocol = cr_protocol req, ci_notes = cr_notes req, ci_dtcs = cr_dtcs req, ci_obs = cr_obs req\<rparr>);
          case r of
            Inl e \<Rightarrow> write_err 400 (store_text e)
          | Inr rec \<Rightarrow> do {
              _ \<leftarrow> on_store (enqueue_vin_decode (ae_show A) (sc_vehicle rec) (sc_vin rec));
              ret (201, PScan rec)
            }
        })"

definition get_scan_h :: "'w api_env \<Rightarrow> claims \<Rightarrow> string \<Rightarrow> 'w handler" where
  "get_scan_h A c sid =
     (case ae_parse A sid of
        Inl _ \<Rightarrow> write_err 400 ''invalid scan id''
      | Inr i \<Rightarrow> do {
          r \<leftarrow> on_store (get_scan i);
          case r of
            Inl e \<Rightarrow> write_err 404 (store_text e)
          | Inr rec \<Rightarrow>
              if cl_role c \<noteq> RoleSuperAdmin \<and> ae_show A (sc_org rec) \<noteq> cl_org c then write_err 403 ''forbidden''
              else ret (200, PScan rec)
        })"

definition list_scans_h :: "'w api_env \<Rightarrow> claims \<Rightarrow> string \<Rightarrow> 'w handler" where
  "list_scans_h A c vin =
     (let answer = (\<lambda>org. do {
            r \<leftarrow> on_store (list_scans_by_vin vin org 50);
            case r of Inl e \<Rightarrow> write_err 500 (store_text e) | Inr recs \<Rightarrow> ret (200, PScans vin recs)
          })
      in if cl_role c \<noteq> RoleSuperAdmin
         then (case ae_parse A (cl_org c) of Inl _ \<Rightarrow> write_err 403 ''missing org'' | Inr i \<Rightarrow> answer (Some i))
         else answer None)"

definition co_stat :: "co_occur_row \<Rightarrow> co_occur" where
  "co_stat r = \<lparr>co_code = cr_code r, co_with = cr_with r, co_focus = cr_focus r, co_rate = cr_rate r\<rparr>"

definition is_yes :: "string \<Rightarrow> bool" where
  "is_yes q \<longleftrightarrow> q = ''1'' \<or> q = ''true''"

text \<open>The narrator is shared by all requests; without one there is no narrative.\<close>

definition narrate_h :: "'w api_env \<Rightarrow> packet \<Rightarrow> bool \<Rightarrow> ('w server, narrative_result option) state" where
  "narrate_h A p force = State (\<lambda>s. case sv_narrator s of
     None \<Rightarrow> (None, s)
   | Some n \<Rightarrow> (case run_state (narrate (ae_llm A) p force) n of (r, n') \<Rightarrow> (Some r, s\<lparr>sv_narrator := Some n'\<rparr>)))"

definition explain_filter :: "'w api_env \<Rightarrow> claims \<Rightarrow> uuid option" where
  "explain_filter A c = (if cl_role c \<noteq> RoleSuperAdmin \<and> cl_org c \<noteq> [] then Some (parse_or_nil A (cl_org c)) else None)"

definition explain_h :: "'w api_env \<Rightarrow> claims \<Rightarrow> string \<Rightarrow> string \<Rightarrow> string \<Rightarrow> string \<Rightarrow> 'w handler" where
  "explain_h A c code vin narrative force = (let org = explain_filter A c in do {
     r \<leftarrow> on_store (explain_code code vin org);
     case r of
       Inl e \<Rightarrow> write_err 500 (store_text e)
     | Inr ex \<Rightarrow> do {
         latest \<leftarrow> (if vin \<noteq> [] then on_store (latest_dtcs_for_vin vin org) else ret (Inl ErrNotFound));
         let findings = analyze (ae_scanf A) \<lparr>in_focus = code, in_dtcs = (case latest of Inr cs \<Rightarrow> cs | Inl _ \<Rightarrow> []),
               in_obs = ex_obs ex, in_co = map co_stat (ex_co ex)\<rparr>;
             packet = build_packet \<lparr>bi_code = code, bi_findings = findings, bi_article = ex_article ex,
               bi_vehicle = ex_vehicle ex, bi_co = ex_co ex, bi_history = ex_history ex\<rparr>
         in do {
           narr \<leftarrow> (if is_yes narrative then narrate_h A packet (is_yes force) else ret None);
           ret (200, PExplain \<lparr>eo_exp = ex, eo_findings = findings, eo_packet = packet, eo_narrative = narr\<rparr>)
         }
       }
   })"

section \<open>Administration\<close>

definition list_orgs_h :: "'w handler" where
  "list_orgs_h = do {
     r \<leftarrow> on_store list_organizations;
     case r of Inl e \<Rightarrow> write_err 500 (store_text e) | Inr os \<Rightarrow> ret (200, POrgs os)
   }"

definition create_org_h :: "'w api_env \<Rightarrow> gerr + string \<Rightarrow> 'w handler" where
  "create_org_h A body =
     (case body of
        Inl _ \<Rightarrow> write_err 400 ''name is required''
      | Inr name \<Rightarrow>
          if name = [] then write_err 400 ''name is required''
          else do {
            r \<leftarrow> on_store (create_organization (ae_invite A) name);
            case r of Inl e \<Rightarrow> write_err 500 (store_text e) | Inr org \<Rightarrow> ret (201, POrg org)
          })"

definition list_techs_h :: "uuid option \<Rightarrow> 'w handler" where
  "list_techs_h org = do {
     r \<leftarrow> on_store (list_technicians org);
     case r of Inl e \<Rightarrow> write_err 500 (store_text e) | Inr ts \<Rightarrow> ret (200, PTechs (map public_tech_of ts))
   }"

definition list_org_techs_h :: "'w api_env \<Rightarrow> claims \<Rightarrow> 'w handler" where
  "list_org_techs_h A c =
     (case ae_parse A (cl_org c) of Inl _ \<Rightarrow> write_err 400 ''missing org'' | Inr i \<Rightarrow> list_techs_h (Some i))"

definition set_active_h :: "'w api_env \<Rightarrow> claims \<Rightarrow> string \<Rightarrow> gerr + bool \<Rightarrow> 'w handler" where
  "set_active_h A c idtext body =
     (case ae_parse A idtext of
        Inl _ \<Rightarrow> write_err 400 ''invalid id''
      | Inr i \<Rightarrow>
          (case body of
             Inl e \<Rightarrow> write_err 400 (err_text e)
           | Inr act \<Rightarrow>
               let toggle = do {
                     r \<leftarrow> on_store (set_technician_active i act);
                     case r of Inl e \<Rightarrow> write_err 400 (store_text e) | Inr _ \<Rightarrow> ret (200, PActive i act)
                   }
               in if cl_role c = RoleOrgAdmin
                  then do {
                    q \<leftarrow> on_store (get_technician i);
                    case q of
                      Inl e \<Rightarrow> write_err 404 (store_text e)
                    | Inr t \<Rightarrow>
                        (case t_org t of
                           None \<Rightarrow> write_err 403 ''forbidden''
                         | Some x \<Rightarrow> if ae_show A x \<noteq> cl_org c then write_err 403 ''forbidden'' else toggle)
                  }
                  else toggle))"

definition patch_setting_h :: "string \<Rightarrow> gerr + string \<Rightarrow> 'w handler" where
  "patch_setting_h key body =
     (case body of
        Inl e \<Rightarrow> write_err 400 (err_text e)
      | Inr val \<Rightarrow>
          if key \<in> {''allow_self_register'', ''require_invite_code'', ''enrichment_enabled''}
          then if val \<noteq> ''true'' \<and> val \<noteq> ''false'' then write_err 400 ''value must be true or false''
               else do {
                 r \<leftarrow> on_store (set_setting key val);
                 case r of Inl e \<Rightarrow> write_err 500 (store_text e) | Inr _ \<Rightarrow> ret (200, PSetting key val)
               }
          else write_err 400 ''unknown setting'')"

definition stats_h :: "'w handler" where
  "stats_h = do {
     r \<leftarrow> on_store enrichment_stats;
     case r of Inl e \<Rightarrow> write_err 500 (store_text e) | Inr st \<Rightarrow> ret (200, PStats st)
   }"

definition seed_h :: "'w handler" where
  "seed_h = do {
     now \<leftarrow> reads (\<lambda>s. clock (sv_db s));
     r \<leftarrow> on_store (enqueue_job ''seed_catalog'' [(''forced'', VBool True)] now);
     case r of Inl e \<Rightarrow> write_err 500 (store_text e) | Inr i \<Rightarrow> ret (202, PJob i)
   }"

section \<open>Middlewares and routes\<close>

definition require_auth :: "'w api_env \<Rightarrow> string \<Rightarrow> (claims \<Rightarrow> 'w handler) \<Rightarrow> 'w handler" where
  "require_auth A header nxt =
     (if \<not> has_prefix header ''Bearer '' then write_err 401 ''missing bearer token''
      else do {
        now \<leftarrow> reads (\<lambda>s. ticks (clock (sv_db s)));
        case parse_token (ae_crypto A) (ae_manager A) now (trim_prefix header ''Bearer '') of
          Inl _ \<Rightarrow> write_err 401 ''invalid token''
        | Inr c \<Rightarrow> nxt c
      })"

definition require_role :: "string list \<Rightarrow> (claims \<Rightarrow> 'w handler) \<Rightarrow> claims \<Rightarrow> 'w handler" where
  "require_role roles nxt c = (if cl_role c \<notin> set roles then write_err 403 ''forbidden'' else nxt c)"

definition router :: "'w api_env \<Rightarrow> string \<Rightarrow> route \<Rightarrow> 'w handler" where
  "router A header req =
     (case req of
        Register b \<Rightarrow> register A b
      | Login b \<Rightarrow> login A b
      | Me \<Rightarrow> require_auth A header (me A)
      | CreateScan b \<Rightarrow> require_auth A header (\<lambda>c. create_scan_h A c b)
      | GetScan i \<Rightarrow> require_auth A header (\<lambda>c. get_scan_h A c i)
      | ListScans vin \<Rightarrow> require_auth A header (\<lambda>c. list_scans_h A c vin)
      | ExplainCode code vin nar force \<Rightarrow> require_auth A header (\<lambda>c. explain_h A c code vin nar force)
      | ListOrgs \<Rightarrow> require_auth A header (require_role [RoleSuperAdmin] (\<lambda>_. list_orgs_h))
      | CreateOrg b \<Rightarrow> require_auth A header (require_role [RoleSuperAdmin] (\<lambda>_. create_org_h A b))
      | ListAllTechs \<Rightarrow> require_auth A header (require_role [RoleSuperAdmin] (\<lambda>_. list_techs_h None))
      | PatchSetting k b \<Rightarrow> require_auth A header (require_role [RoleSuperAdmin] (\<lambda>_. patch_setting_h k b))
      | Stats \<Rightarrow> require_auth A header (require_role [RoleSuperAdmin] (\<lambda>_. stats_h))
      | Seed \<Rightarrow> require_auth A header (require_role [RoleSuperAdmin] (\<lambda>_. seed_h))
      | SetActive i b \<Rightarrow> require_auth A header (require_role [RoleSuperAdmin, RoleOrgAdmin] (\<lambda>c. set_active_h A c i b))
      | ListOrgTechs \<Rightarrow> require_auth A header (require_role [RoleOrgAdmin] (list_org_techs_h A)))"

section \<open>The invariant of the database\<close>

definition db_ok :: "db \<Rightarrow> bool" where
  "db_ok d \<longleftrightarrow> accounts_ok d \<and> scans_ok d \<and> jobs_ok d \<and> enriched_ok d"

text \<open>What an operation on accounts leaves alone, and what storing a scan leaves alone.\<close>

definition same_enriched :: "db \<Rightarrow> db \<Rightarrow> bool" where
  "same_enriched d d' \<longleftrightarrow> recall_cat d' = recall_cat d \<and> veh_recalls d' = veh_recalls d \<and> enrichments d' = enrichments d"

definition frame_accounts :: "db \<Rightarrow> db \<Rightarrow> bool" where
  "frame_accounts d d' \<longleftrightarrow> same_scans d d' \<and> jobs d' = jobs d \<and> same_enriched d d'"

definition frame_scan :: "db \<Rightarrow> db \<Rightarrow> bool" where
  "frame_scan d d' \<longleftrightarrow> same_accounts d d' \<and> jobs d' = jobs d \<and> same_enriched d d' \<and> settings d' = settings d"

lemmas frame_defs = frame_accounts_def frame_scan_def same_scans_def same_accounts_def same_enriched_def

lemma jobs_ok_frame: "jobs_ok d \<Longrightarrow> jobs d' = jobs d \<Longrightarrow> next_id d \<le> next_id d' \<Longrightarrow> jobs_ok d'"
  by (fastforce simp: jobs_ok_def list_all_iff)

lemma db_ok_accounts: "db_ok d \<Longrightarrow> accounts_ok d' \<Longrightarrow> frame_accounts d d' \<Longrightarrow> db_ok d'"
  unfolding db_ok_def
  by (auto simp: frame_accounts_def same_enriched_def same_scans_def intro: scans_ok_same jobs_ok_frame enriched_ok_same)

lemma db_ok_scan: "db_ok d \<Longrightarrow> scans_ok d' \<Longrightarrow> frame_scan d d' \<Longrightarrow> db_ok d'"
  unfolding db_ok_def
  by (auto simp: frame_scan_def same_enriched_def same_accounts_def intro: accounts_ok_same jobs_ok_frame enriched_ok_same)

lemma keeps_frame_transaction:
  assumes "keeps (R d0) m" and "\<And>d d'. R d0 d \<Longrightarrow> R d0 d' \<Longrightarrow> R d0 (d\<lparr>next_id := next_id d'\<rparr>)"
  shows "keeps (R d0) (transaction m)"
proof (rule keepsI, rule specI)
  fix d x t assume d: "R d0 d" and "run_state (transaction m) d = (x, t)"
  with keepsD [OF assms(1) d] assms(2) [OF d] show "R d0 t"
    by (auto simp: transaction_def split: prod.splits sum.splits)
qed

lemma keeps_frame_fresh: "keeps (frame_accounts d0) fresh_id" "keeps (frame_scan d0) fresh_id"
  by (rule keepsI, rule specI, simp add: frame_defs, linarith?)+

lemma frame_accounts_insert:
  "frame_accounts d0 d \<Longrightarrow> frame_accounts d0 (d\<lparr>techs := techs d @ ts\<rparr>)"
  "frame_accounts d0 d \<Longrightarrow> frame_accounts d0 (d\<lparr>orgs := orgs d @ os\<rparr>)"
  by (simp_all add: frame_defs le_supI1)

lemma keeps_frame_tech: "keeps (frame_accounts d0) (insert_technician org email h name role)"
  unfolding insert_technician_def
  by (auto intro!: keeps_bind keeps_ret keeps_reads keeps_modify keeps_if keeps_let keeps_frame_fresh frame_accounts_insert)

lemma keeps_frame_org: "keeps (frame_accounts d0) (insert_organization x)"
  unfolding insert_organization_def
  by (auto intro!: keeps_bind keeps_ret keeps_reads keeps_modify keeps_if frame_accounts_insert)

lemma keeps_frame_register: "keeps (frame_accounts d0) (register_technician X f salt inp)"
  unfolding register_technician_def setting_def join_or_found_def
  by (auto intro!: keeps_bind keeps_ret keeps_reads keeps_if keeps_let keeps_case_sum keeps_case_prod keeps_frame_transaction
      keeps_frame_fresh keeps_frame_tech keeps_frame_org simp: frame_defs)

lemma keeps_frame_create_org: "keeps (frame_accounts d0) (create_organization f name)"
  unfolding create_organization_def
  by (auto intro!: keeps_bind keeps_ret keeps_let keeps_frame_fresh keeps_frame_org)

lemma keeps_frame_active: "keeps (frame_accounts d0) (set_technician_active i act)"
  unfolding set_technician_active_def
  by (auto intro!: keeps_bind keeps_ret keeps_reads keeps_modify simp: frame_defs comp_def if_distrib cong: if_cong)

lemma keeps_frame_insert_dtcs: "keeps (frame_scan d0) (insert_dtcs sid cs)"
  by (induction cs) (auto intro!: keeps_bind keeps_ret keeps_modify keeps_if simp: frame_defs)

lemma keeps_frame_create_scan: "keeps (frame_scan d0) (create_scan parse_uuid inp)"
  unfolding create_scan_def create_scan_body_def vehicle_for_def insert_session_def
  by (auto intro!: keeps_bind keeps_ret keeps_reads keeps_modify keeps_if keeps_let keeps_case_sum keeps_case_option
      keeps_frame_transaction keeps_frame_fresh keeps_frame_insert_dtcs simp: frame_defs)

lemma db_keeps_accounts:
  assumes "\<And>d r d'. accounts_ok d \<Longrightarrow> run_state m d = (r, d') \<Longrightarrow> accounts_ok d'" and "\<And>d0. keeps (frame_accounts d0) m"
  shows "db_keeps db_ok m"
  unfolding db_keeps_def
proof (intro allI impI)
  fix d assume d: "db_ok d"
  have "frame_accounts d d" by (simp add: frame_defs)
  from keepsD [OF assms(2) this] have "frame_accounts d (snd (run_state m d))" .
  moreover have "accounts_ok (snd (run_state m d))"
    using assms(1) [of d "fst (run_state m d)" "snd (run_state m d)"] d by (simp add: db_ok_def)
  ultimately show "db_ok (snd (run_state m d))" using db_ok_accounts [OF d] by blast
qed

lemma scans_ok_create_scan:
  assumes "scans_ok d" and "run_state (create_scan parse_uuid inp) d = (r, d')"
  shows "scans_ok d'"
proof (cases r)
  case (Inl e)
  then have "d' = d \<or> (\<exists>tech org d1. run_state (create_scan_body tech org inp) d = (Inl e, d1) \<and> d' = d\<lparr>next_id := next_id d1\<rparr>)"
    using assms(2) by (auto simp: create_scan_def transaction_def split: if_splits sum.splits prod.splits)
  then show ?thesis
  proof
    assume "\<exists>tech org d1. run_state (create_scan_body tech org inp) d = (Inl e, d1) \<and> d' = d\<lparr>next_id := next_id d1\<rparr>"
    then obtain tech org d1 where b: "run_state (create_scan_body tech org inp) d = (Inl e, d1)" "d' = d\<lparr>next_id := next_id d1\<rparr>"
      by blast
    have "next_id d \<le> next_id d1" using create_scan_body_run [OF b(1) assms(1)] by simp
    with b(2) show ?thesis using scans_ok_same [OF assms(1), of d'] by (simp add: same_scans_def)
  qed (use assms(1) in simp)
next
  case (Inr rec)
  then obtain tech org where "run_state (create_scan_body tech org inp) d = (Inr rec, d')"
    using assms(2) by (auto simp: create_scan_def transaction_Inr split: if_splits sum.splits)
  from create_scan_body_run [OF this assms(1)] show ?thesis by simp
qed

lemma db_keeps_create_scan: "db_keeps db_ok (create_scan parse_uuid inp)"
  unfolding db_keeps_def
proof (intro allI impI)
  fix d assume d: "db_ok d"
  have "frame_scan d d" by (simp add: frame_defs)
  from keepsD [OF keeps_frame_create_scan this] have "frame_scan d (snd (run_state (create_scan parse_uuid inp) d))" .
  moreover have "scans_ok (snd (run_state (create_scan parse_uuid inp) d))"
    using scans_ok_create_scan [of d parse_uuid inp, OF _ prod.collapse [symmetric]] d by (simp add: db_ok_def)
  ultimately show "db_ok (snd (run_state (create_scan parse_uuid inp) d))" using db_ok_scan [OF d] by blast
qed

lemma db_keeps_rely:
  assumes "db_relies m" and "db_keeps enriched_ok m" and "\<And>d. same_scans d (snd (run_state m d)) \<and> same_accounts d (snd (run_state m d))"
  shows "db_keeps db_ok m"
  using assms unfolding db_keeps_def db_relies_def db_ok_def
  by (metis accounts_ok_same scans_ok_same jobs_ok_rely)

lemma db_keeps_enqueue: "db_keeps db_ok (enqueue_job kind payload run_after)"
  by (rule db_keeps_rely [OF db_relies_enqueue queue_ok(1)])
    (simp add: enqueue_job_def same_scans_def same_accounts_def)

lemma db_keeps_read: "(\<And>d. snd (run_state m d) = d) \<Longrightarrow> db_keeps P m"
  by (simp add: db_keeps_def)

lemma db_keeps_ops:
  "db_keeps db_ok (register_technician X f salt inp)" "db_keeps db_ok (create_organization f name)"
  "db_keeps db_ok (set_technician_active i act)"
  by (blast intro: db_keeps_accounts accounts_ok_register accounts_ok_create_organization accounts_ok_set_active
      keeps_frame_register keeps_frame_create_org keeps_frame_active)+

lemma db_keeps_set_setting: "db_keeps db_ok (set_setting key val)"
proof (rule db_keeps_accounts)
  show "accounts_ok d'" if "accounts_ok d" "run_state (set_setting key val) d = (r, d')" for d r d'
    using that by (auto simp: set_setting_def accounts_ok_def)
  show "keeps (frame_accounts d0) (set_setting key val)" for d0
    unfolding set_setting_def by (auto intro!: keeps_bind keeps_ret keeps_modify simp: frame_defs)
qed

lemma db_keeps_vin_decode: "db_keeps db_ok (enqueue_vin_decode show_id vid vin)"
  using db_keeps_enqueue unfolding db_keeps_def enqueue_vin_decode_def
  by (auto split: prod.split) (metis snd_conv)

lemma db_keeps_reads:
  "db_keeps db_ok (authenticate X email pw)" "db_keeps db_ok (get_technician i)" "db_keeps db_ok (get_scan i)"
  "db_keeps db_ok (list_scans_by_vin vin org n)" "db_keeps db_ok (explain_code code vin org)"
  "db_keeps db_ok (latest_dtcs_for_vin vin org)" "db_keeps db_ok list_organizations" "db_keeps db_ok (list_technicians org)"
  "db_keeps db_ok enrichment_stats"
  by (rule db_keeps_read, simp add: authenticate_state get_technician_def get_scan_def list_scans_by_vin_def explain_code_def
      latest_dtcs_for_vin_def list_organizations_def list_technicians_def enrichment_stats_def Let_def split: prod.split)+

lemma keeps_on_store:
  assumes "db_keeps P m"
  shows "keeps (\<lambda>s. P (sv_db s)) (on_store m)"
proof (rule keepsI, rule specI)
  fix s x t assume "P (sv_db s)" and "run_state (on_store m) s = (x, t)"
  moreover have "P (sv_db s) \<Longrightarrow> P (snd (run_state m (sv_db s)))"
    using assms by (simp add: db_keeps_def)
  ultimately show "P (sv_db t)" by (auto simp: on_store_def split: prod.splits)
qed

lemma keeps_narrate: "keeps (\<lambda>s. P (sv_db s)) (narrate_h A p force)"
  by (rule keepsI, rule specI) (auto simp: narrate_h_def split: option.splits prod.splits)

lemmas server_basic = keeps_bind keeps_ret keeps_reads keeps_if keeps_case_option keeps_case_sum keeps_case_prod keeps_let
  keeps_on_store keeps_narrate db_keeps_ops db_keeps_create_scan db_keeps_set_setting db_keeps_enqueue db_keeps_vin_decode db_keeps_reads

lemma keeps_register: "keeps (\<lambda>s. db_ok (sv_db s)) (register A b)"
  unfolding register_def issue_for_def write_err_def by (auto intro!: server_basic)

lemma keeps_login: "keeps (\<lambda>s. db_ok (sv_db s)) (login A b)"
  unfolding login_def issue_for_def write_err_def by (auto intro!: server_basic)

lemma keeps_me: "keeps (\<lambda>s. db_ok (sv_db s)) (me A c)"
  unfolding me_def write_err_def by (auto intro!: server_basic)

lemma keeps_create_scan_h: "keeps (\<lambda>s. db_ok (sv_db s)) (create_scan_h A c b)"
  unfolding create_scan_h_def write_err_def by (auto intro!: server_basic)

lemma keeps_scan_reads:
  "keeps (\<lambda>s. db_ok (sv_db s)) (get_scan_h A c i)" "keeps (\<lambda>s. db_ok (sv_db s)) (list_scans_h A c vin)"
  unfolding get_scan_h_def list_scans_h_def write_err_def by (auto intro!: server_basic)

lemma keeps_explain_h: "keeps (\<lambda>s. db_ok (sv_db s)) (explain_h A c code vin nar force)"
  unfolding explain_h_def write_err_def by (auto intro!: server_basic)

lemma keeps_admin:
  "keeps (\<lambda>s. db_ok (sv_db s)) list_orgs_h" "keeps (\<lambda>s. db_ok (sv_db s)) (create_org_h A name)"
  "keeps (\<lambda>s. db_ok (sv_db s)) (list_techs_h org)" "keeps (\<lambda>s. db_ok (sv_db s)) (list_org_techs_h A c)"
  "keeps (\<lambda>s. db_ok (sv_db s)) (set_active_h A c idt act)" "keeps (\<lambda>s. db_ok (sv_db s)) (patch_setting_h key val)"
  "keeps (\<lambda>s. db_ok (sv_db s)) stats_h" "keeps (\<lambda>s. db_ok (sv_db s)) seed_h"
  unfolding list_orgs_h_def create_org_h_def list_techs_h_def list_org_techs_h_def set_active_h_def patch_setting_h_def
    stats_h_def seed_h_def write_err_def Let_def
  by (auto intro!: server_basic)

lemma keeps_router: "keeps (\<lambda>s. db_ok (sv_db s)) (router A header req)"
  by (cases req) (auto simp: router_def require_auth_def require_role_def write_err_def
      intro!: keeps_bind keeps_ret keeps_reads keeps_if keeps_case_sum keeps_register keeps_login keeps_me
        keeps_create_scan_h keeps_scan_reads keeps_explain_h keeps_admin)

section \<open>Server and worker together\<close>

lemma db_keeps_same:
  assumes "\<And>d. same_scans d (snd (run_state m d)) \<and> same_accounts d (snd (run_state m d))"
  shows "db_keeps (\<lambda>d. accounts_ok d \<and> scans_ok d) m"
  unfolding db_keeps_def using assms by (metis accounts_ok_same scans_ok_same)

lemma db_keeps_identity: "db_keeps (\<lambda>d. accounts_ok d \<and> scans_ok d) (upsert_vehicle_identity vid mk mdl year engine)"
proof -
  let ?f = "\<lambda>v. if v_id v = vid then v\<lparr>v_make := coalesce [] mk (v_make v), v_model := coalesce [] mdl (v_model v),
      v_year := coalesce 0 year (v_year v), v_engine := coalesce [] engine (v_engine v)\<rparr> else v"
  have cols: "map v_vin (map ?f vs) = map v_vin vs" "map v_id (map ?f vs) = map v_id vs" for vs :: "vehicle list"
    by (simp_all add: comp_def if_distrib cong: if_cong)
  have ids: "(\<forall>v \<in> set (map ?f vs). v_id v < n) = (\<forall>v \<in> set vs. v_id v < n)" for vs :: "vehicle list" and n :: uuid
  proof -
    have all: "(\<forall>v \<in> set us. v_id v < n) = list_all (\<lambda>i. i < n) (map v_id us)" for us :: "vehicle list"
      by (simp add: list_all_iff)
    show ?thesis using all [of "map ?f vs"] all [of vs] cols(2) [of vs] by (simp only:)
  qed
  show ?thesis
    unfolding db_keeps_def
    by (simp add: upsert_vehicle_identity_def accounts_ok_def scans_ok_def cols ids del: map_map set_map list.map_comp)
qed

lemma db_keeps_worker:
  "db_keeps (\<lambda>d. accounts_ok d \<and> scans_ok d) (upsert_vehicle_enrichment e)"
  "db_keeps (\<lambda>d. accounts_ok d \<and> scans_ok d) (upsert_recall_catalog r)"
  "db_keeps (\<lambda>d. accounts_ok d \<and> scans_ok d) (attach_recalls vid mk mdl year)"
  "db_keeps (\<lambda>d. accounts_ok d \<and> scans_ok d) list_market_models"
  "db_keeps (\<lambda>d. accounts_ok d \<and> scans_ok d) (enqueue_job kind payload run_after)"
  "db_keeps (\<lambda>d. accounts_ok d \<and> scans_ok d) claim_job"
  "db_keeps (\<lambda>d. accounts_ok d \<and> scans_ok d) (complete_job i)"
  "db_keeps (\<lambda>d. accounts_ok d \<and> scans_ok d) (fail_job i msg retry_at)"
  "db_keeps (\<lambda>d. accounts_ok d \<and> scans_ok d) (setting key)"
  by (rule db_keeps_same, simp add: upsert_vehicle_enrichment_def upsert_recall_catalog_def attach_recalls_def list_market_models_def
      enqueue_job_def run_claim_job claim_mark_def complete_job_def complete_db_def fail_job_def fail_db_def upd_job_def run_setting
      same_scans_def same_accounts_def Let_def split: option.split)+

lemmas worker_basic = keeps_bind keeps_ret keeps_reads keeps_if keeps_case_option keeps_case_sum keeps_case_prod keeps_let
  keeps_on_net_inv [where P = "\<lambda>d. accounts_ok d \<and> scans_ok d"] keeps_log_inv [where P = "\<lambda>d. accounts_ok d \<and> scans_ok d"]
  keeps_on_db_inv [where P = "\<lambda>d. accounts_ok d \<and> scans_ok d"] db_keeps_worker db_keeps_identity

lemma keeps_store_recalls: "keeps (\<lambda>s. accounts_ok (wk_db s) \<and> scans_ok (wk_db s)) (store_recalls mk mdl year rs)"
  by (induction rs) (auto intro!: worker_basic)

lemma keeps_seed_loop: "keeps (\<lambda>s. accounts_ok (wk_db s) \<and> scans_ok (wk_db s)) (seed_loop n ps)"
  by (induction n ps rule: seed_loop.induct) (auto intro!: worker_basic)

lemma keeps_process: "keeps (\<lambda>s. accounts_ok (wk_db s) \<and> scans_ok (wk_db s)) (process E j)"
  unfolding process_def seed_catalog_def vin_decode_def store_decoded_def recalls_mmy_def recalls_for_def attach_to_def
  by (auto intro!: worker_basic keeps_store_recalls keeps_seed_loop)

lemma keeps_tick_loop: "keeps (\<lambda>s. accounts_ok (wk_db s) \<and> scans_ok (wk_db s)) (tick_loop E n)"
  by (induction n) (auto intro!: worker_basic keeps_process)

lemma tick_keeps_db_ok:
  assumes "db_ok (wk_db k)"
  shows "db_ok (wk_db (snd (run_state (tick E) k)))"
proof -
  have "keeps (\<lambda>s. accounts_ok (wk_db s) \<and> scans_ok (wk_db s)) (tick E)"
    unfolding tick_def by (auto intro!: worker_basic keeps_tick_loop)
  from keepsD [OF this, of k] have acc: "accounts_ok (wk_db (snd (run_state (tick E) k)))" "scans_ok (wk_db (snd (run_state (tick E) k)))"
    using assms by (simp_all add: db_ok_def)
  have "keeps (\<lambda>s. enriched_ok (wk_db s)) (tick E)"
    unfolding tick_def by (auto intro!: enriched_basic tick_loop_ok)
  from keepsD [OF this, of k] have enr: "enriched_ok (wk_db (snd (run_state (tick E) k)))"
    using assms by (simp add: db_ok_def)
  obtain x where x: "run_state (on_db (setting ''enrichment_enabled'')) k = (x, k)"
    using run_on_db_setting by blast
  let ?s = "idle_sys (wk_db k)"
  obtain es where "runs ?s es (?s\<lparr>sys_db := wk_db (snd (run_state (tick_loop E 5) k))\<rparr>)"
    using tick_loop_refines [of ?s 0 k E 5] by (auto simp: idle_sys_def locked_def)
  from sys_ok_runs [OF this] have "jobs_ok (wk_db (snd (run_state (tick_loop E 5) k)))"
    using assms by (simp add: sys_ok_idle db_ok_def) (simp add: sys_ok_def)
  with x assms have "jobs_ok (wk_db (snd (run_state (tick E) k)))"
    by (simp add: tick_def db_ok_def)
  with acc enr show ?thesis by (simp add: db_ok_def)
qed

text \<open>A server and a worker on one database: requests, ticks and the clock, in any order.\<close>

inductive served :: "'w api_env \<Rightarrow> 'v worker_env \<Rightarrow> 'w server \<Rightarrow> 'w server \<Rightarrow> bool" for A E s where
  begin_srv: "served A E s s"
| request: "served A E s t \<Longrightarrow> served A E s (snd (run_state (router A header req) t))"
| worker: "served A E s t \<Longrightarrow> wk_db k = sv_db t \<Longrightarrow> served A E s (t\<lparr>sv_db := wk_db (snd (run_state (tick E) k))\<rparr>)"
| time: "served A E s t \<Longrightarrow> clock (sv_db t) \<le> now \<Longrightarrow> served A E s (t\<lparr>sv_db := (sv_db t)\<lparr>clock := now\<rparr>\<rparr>)"

lemma db_ok_clock: "db_ok d \<Longrightarrow> db_ok (d\<lparr>clock := now\<rparr>)"
  by (simp add: db_ok_def accounts_ok_def scans_ok_def jobs_ok_def enriched_ok_def)

lemma served_ok: "served A E s t \<Longrightarrow> db_ok (sv_db s) \<Longrightarrow> db_ok (sv_db t)"
proof (induction rule: served.induct)
  case (request t header req)
  then show ?case using keepsD [OF keeps_router [of A header req]] by simp
next
  case (worker t k)
  then show ?case using tick_keeps_db_ok [of k E] by simp
next
  case (time t now)
  then show ?case by (simp add: db_ok_clock)
qed simp

section \<open>Who may do what\<close>

text \<open>The claims a request comes with, and the roles that a route asks for (none: any account).\<close>

definition token_claims :: "'w api_env \<Rightarrow> string \<Rightarrow> 'w server \<Rightarrow> claims option" where
  "token_claims A header s =
     (if has_prefix header ''Bearer ''
      then case parse_token (ae_crypto A) (ae_manager A) (ticks (clock (sv_db s))) (trim_prefix header ''Bearer '') of
             Inl _ \<Rightarrow> None | Inr c \<Rightarrow> Some c
      else None)"

fun route_roles :: "route \<Rightarrow> string list option" where
  "route_roles (Register b) = None"
| "route_roles (Login b) = None"
| "route_roles Me = Some [RoleSuperAdmin, RoleOrgAdmin, RoleTechnician]"
| "route_roles (CreateScan b) = Some [RoleSuperAdmin, RoleOrgAdmin, RoleTechnician]"
| "route_roles (GetScan i) = Some [RoleSuperAdmin, RoleOrgAdmin, RoleTechnician]"
| "route_roles (ListScans v) = Some [RoleSuperAdmin, RoleOrgAdmin, RoleTechnician]"
| "route_roles (ExplainCode c v n f) = Some [RoleSuperAdmin, RoleOrgAdmin, RoleTechnician]"
| "route_roles (SetActive i b) = Some [RoleSuperAdmin, RoleOrgAdmin]"
| "route_roles ListOrgTechs = Some [RoleOrgAdmin]"
| "route_roles ListOrgs = Some [RoleSuperAdmin]"
| "route_roles (CreateOrg b) = Some [RoleSuperAdmin]"
| "route_roles ListAllTechs = Some [RoleSuperAdmin]"
| "route_roles (PatchSetting k b) = Some [RoleSuperAdmin]"
| "route_roles Stats = Some [RoleSuperAdmin]"
| "route_roles Seed = Some [RoleSuperAdmin]"

lemma run_require_auth:
  "run_state (require_auth A header nxt) s =
     (case token_claims A header s of
        Some c \<Rightarrow> run_state (nxt c) s
      | None \<Rightarrow> ((401, PError (if has_prefix header ''Bearer '' then ''invalid token'' else ''missing bearer token'')), s))"
  by (simp add: require_auth_def token_claims_def write_err_def split: sum.split)

lemma run_require_role:
  "run_state (require_role roles nxt c) s = (if cl_role c \<in> set roles then run_state (nxt c) s else ((403, PError ''forbidden''), s))"
  by (simp add: require_role_def write_err_def)

lemma router_guarded:
  assumes "route_roles req = Some roles"
  shows "token_claims A header s = None \<Longrightarrow> fst (fst (run_state (router A header req) s)) = 401 \<and> snd (run_state (router A header req) s) = s"
    and "token_claims A header s = Some c \<Longrightarrow> valid_role (cl_role c) \<Longrightarrow> cl_role c \<notin> set roles
      \<Longrightarrow> run_state (router A header req) s = ((403, PError ''forbidden''), s)"
  using assms
  by (cases req; auto simp: router_def run_require_auth run_require_role valid_role_def role_defs)+

text \<open>
  C3. Access control holds for every route but registration and login: without a valid token of this server the answer is 401, and with a
  token whose role the route does not ask for it is 403, and in both cases nothing changes at all.
\<close>
theorem access_controlled:
  assumes "route_roles req = Some roles"
  shows "case token_claims A header s of
      None \<Rightarrow> fst (fst (run_state (router A header req) s)) = 401 \<and> snd (run_state (router A header req) s) = s
    | Some c \<Rightarrow> valid_role (cl_role c) \<and> cl_role c \<notin> set roles
        \<longrightarrow> run_state (router A header req) s = ((403, PError ''forbidden''), s)"
  using router_guarded [OF assms] by (auto split: option.split)

definition show_us :: "uuid \<Rightarrow> string" where
  "show_us i = replicate (Suc i) (CHR ''u'')"

definition read_us :: "string \<Rightarrow> gerr + uuid" where
  "read_us t = (if t = [] then Inl (Msg ''invalid UUID'') else parse_us (tl t))"

definition plain_env :: "nat api_env" where
  "plain_env = \<lparr>ae_crypto = plain_crypto, ae_manager = \<lparr>mg_secret = ''s'', mg_ttl = 60000\<rparr>, ae_parse = read_us,
     ae_show = show_us, ae_nil = 0, ae_salt = 0, ae_jti = ''j'', ae_invite = show_nat,
     ae_llm = fixed_llm ''ok'', ae_scanf = (\<lambda>_. None)\<rparr>"

definition shop_server :: "nat server" where
  "shop_server = \<lparr>sv_db = shop_db, sv_narrator = None\<rparr>"

text \<open>The header of the technician of the shop, and of another shop, until a minute after the start.\<close>

definition tech_header :: "uuid \<Rightarrow> string \<Rightarrow> string" where
  "tech_header org role = ''Bearer '' @ fst (issue plain_crypto \<lparr>mg_secret = ''s'', mg_ttl = 60000\<rparr> 0 ''j'' (show_us 2)
     (show_us org) ''a@b'' role)"

lemma tech_claims: "\<exists>c. token_claims plain_env (tech_header org role) shop_server = Some c
  \<and> cl_tech c = show_us 2 \<and> cl_org c = show_us org \<and> cl_role c = role"
proof -
  let ?tok = "fst (issue plain_crypto \<lparr>mg_secret = ''s'', mg_ttl = 60000\<rparr> 0 ''j'' (show_us 2) (show_us org) ''a@b'' role)"
  have "trim_prefix (''Bearer '' @ ?tok) ''Bearer '' = ?tok" "has_prefix (''Bearer '' @ ?tok) ''Bearer ''"
    by (simp_all add: trim_prefix_def has_prefix_def)
  then show ?thesis
    using crypto_lawD(2,3) [OF plain_crypto_law]
    by (simp add: token_claims_def tech_header_def plain_env_def shop_server_def shop_db_def initial_db_def parse_token_def issue_def
        numeric_date_def Let_def)
qed

theorem access_controlled_witness:
  "run_state (router plain_env (tech_header 1 RoleTechnician) Stats) shop_server = ((403, PError ''forbidden''), shop_server)"
proof -
  obtain c where "token_claims plain_env (tech_header 1 RoleTechnician) shop_server = Some c" "cl_role c = RoleTechnician"
    using tech_claims by blast
  with access_controlled [of Stats "[RoleSuperAdmin]" plain_env "tech_header 1 RoleTechnician" shop_server] show ?thesis
    by (simp add: valid_role_def role_defs)
qed

text \<open>
  C1. The database stays consistent under everything that the server and the worker do together: any requests, from anyone and with any
  content, ticks of the worker with any answers of the network, and the passing of time keep the invariants of accounts (unique
  e-mails, every account but a super admin in a shop that exists), of scans (no dangling reference), of the queue and of the enrichment data.
\<close>
theorem server_invariant:
  assumes "db_ok (sv_db s)" and "served A E s t"
  shows "db_ok (sv_db t)"
  using served_ok assms by blast

lemma shop_server_ok: "db_ok (sv_db shop_server)"
  by (simp add: shop_server_def db_ok_def shop_db_ok)
    (simp add: shop_db_def initial_db_def accounts_ok_def account_ok_def jobs_ok_def enriched_ok_def valid_role_def role_defs)

theorem server_invariant_witness:
  "db_ok (sv_db (snd (run_state (router plain_env (tech_header 1 RoleTechnician) (CreateScan (Inr
     \<lparr>cr_vin = ''V'', cr_link = [], cr_adapter = [], cr_protocol = [], cr_notes = [], cr_dtcs = [shop_dtc ''P0300''], cr_obs = None\<rparr>)))
     shop_server)))"
  by (rule server_invariant [OF shop_server_ok served.request [OF served.begin_srv, of plain_env no_net]])

section \<open>Shops\<close>

definition uuid_law :: "'w api_env \<Rightarrow> bool" where
  "uuid_law A \<longleftrightarrow> (\<forall>i. ae_parse A (ae_show A i) = Inr i \<and> ae_show A i \<noteq> [])"

lemma uuid_law_inj: "uuid_law A \<Longrightarrow> ae_show A i = ae_show A j \<longleftrightarrow> i = j"
  by (metis uuid_law_def Inr_inject)

fun shows_only :: "uuid \<Rightarrow> payload \<Rightarrow> bool" where
  "shows_only org (PScan r) = (sc_org r = org)"
| "shows_only org (PScans vin rs) = list_all (\<lambda>r. sc_org r = org) rs"
| "shows_only org (PTechs ts) = list_all (\<lambda>t. pt_org t = Some org) ts"
| "shows_only org (POrgs os) = False"
| "shows_only org (PStats st) = False"
| "shows_only org p = True"

lemma create_scan_org:
  assumes "run_state (create_scan parse_uuid inp) d = (Inr rec, d')"
  shows "parse_uuid (ci_org inp) = Inr (sc_org rec)"
  using assms
  by (auto simp: create_scan_def transaction_Inr create_scan_body_def split: if_splits sum.splits prod.splits)

lemma list_scans_org:
  assumes "run_state (list_scans_by_vin vin (Some org) n) d = (Inr rs, d')"
  shows "list_all (\<lambda>r. sc_org r = org) rs"
  using assms
  by (auto simp: list_scans_by_vin_def sessions_of_vin_def of_org_def scan_of_def list_all_iff Let_def split: if_splits dest!: in_set_takeD)

lemma run_on_store: "run_state (on_store m) s = (fst (run_state m (sv_db s)), s\<lparr>sv_db := snd (run_state m (sv_db s))\<rparr>)"
  by (simp add: on_store_def split: prod.split)

lemma run_explain_reads:
  "run_state (on_store (explain_code code vin org)) s = (fst (run_state (explain_code code vin org) (sv_db s)), s)"
  "run_state (on_store (latest_dtcs_for_vin vin org)) s = (fst (run_state (latest_dtcs_for_vin vin org) (sv_db s)), s)"
  "run_state (on_store (list_scans_by_vin vin org n)) s = (fst (run_state (list_scans_by_vin vin org n) (sv_db s)), s)"
  by (simp_all add: run_on_store explain_code_def latest_dtcs_for_vin_def list_scans_by_vin_def Let_def split: prod.split)

lemma shows_only_get_scan:
  assumes "uuid_law A" and "cl_role c \<noteq> RoleSuperAdmin" and "cl_org c = ae_show A org"
  shows "shows_only org (snd (fst (run_state (get_scan_h A c i) s)))"
  using assms
  by (auto simp: get_scan_h_def write_err_def run_on_store uuid_law_inj split: sum.split)

lemma shows_only_list_scans:
  assumes "uuid_law A" and "cl_role c \<noteq> RoleSuperAdmin" and "cl_org c = ae_show A org"
  shows "shows_only org (snd (fst (run_state (list_scans_h A c vin) s)))"
  using assms list_scans_org [of vin org 50 "sv_db s", OF prod.collapse [symmetric, THEN trans]]
  by (auto simp: list_scans_h_def write_err_def run_on_store uuid_law_def Let_def split: sum.split) (metis list_scans_org prod.collapse)

lemma shows_only_create_scan:
  assumes "uuid_law A" and "cl_org c = ae_show A org"
  shows "shows_only org (snd (fst (run_state (create_scan_h A c b) s)))"
proof -
  have "sc_org rec = org" if "fst (run_state (create_scan (ae_parse A) inp) d) = Inr rec" "ci_org inp = cl_org c" for inp d rec
    using create_scan_org [of "ae_parse A" inp d rec "snd (run_state (create_scan (ae_parse A) inp) d)"] that assms
    by (metis prod.collapse uuid_law_def Inr_inject)
  then show ?thesis
    by (auto simp: create_scan_h_def write_err_def run_on_store split: sum.split)
qed

lemma shows_only_techs:
  assumes "uuid_law A" and "cl_org c = ae_show A org"
  shows "shows_only org (snd (fst (run_state (list_org_techs_h A c) s)))"
  using assms
  by (auto simp: list_org_techs_h_def list_techs_h_def write_err_def run_on_store list_technicians_def uuid_law_def
      public_tech_of_def list_all_iff split: sum.split)

lemma shows_only_set_active: "shows_only org (snd (fst (run_state (set_active_h A c i b) s)))"
  by (auto simp: set_active_h_def write_err_def run_on_store Let_def split: sum.split option.split)

lemma shows_only_accounts:
  "shows_only org (snd (fst (run_state (register A b) s)))" "shows_only org (snd (fst (run_state (login A b') s)))"
  "shows_only org (snd (fst (run_state (me A c) s)))"
  by (auto simp: register_def login_def me_def issue_for_def write_err_def run_on_store split: sum.split prod.split)

lemma shows_only_explain: "shows_only org (snd (fst (run_state (explain_h A c code vin nar force) s)))"
  by (auto simp: explain_h_def write_err_def run_explain_reads narrate_h_def Let_def split: sum.split option.split prod.split)

lemma explain_h_only_org:
  assumes "uuid_law A" and "cl_role c \<noteq> RoleSuperAdmin" and "cl_org c = ae_show A org"
  shows "fst (run_state (explain_h A c code vin nar force) (s\<lparr>sv_db := only_org org (sv_db s)\<rparr>))
    = fst (run_state (explain_h A c code vin nar force) s)"
proof -
  have "explain_filter A c = Some org"
    using assms by (simp add: explain_filter_def parse_or_nil_def uuid_law_def)
  then show ?thesis
    by (cases "fst (run_state (explain_code code vin (Some org)) (sv_db s))")
      (simp_all add: explain_h_def run_explain_reads queries_only_org narrate_h_def write_err_def Let_def split: option.split prod.split)
qed

lemma list_scans_h_only_org:
  assumes "uuid_law A" and "cl_role c \<noteq> RoleSuperAdmin" and "cl_org c = ae_show A org"
  shows "fst (run_state (list_scans_h A c vin) (s\<lparr>sv_db := only_org org (sv_db s)\<rparr>)) = fst (run_state (list_scans_h A c vin) s)"
  using assms by (simp add: list_scans_h_def run_explain_reads queries_only_org uuid_law_def write_err_def Let_def split: sum.split)

lemma token_claims_db: "clock d = clock (sv_db s) \<Longrightarrow> token_claims A header (s\<lparr>sv_db := d\<rparr>) = token_claims A header s"
  by (simp add: token_claims_def)


lemma plain_uuid_law: "uuid_law plain_env"
  by (auto simp: uuid_law_def plain_env_def show_us_def read_us_def parse_us_def)


section \<open>What a shop's token can change\<close>

definition same_admin :: "db \<Rightarrow> db \<Rightarrow> bool" where
  "same_admin d d' \<longleftrightarrow> settings d' = settings d \<and> orgs d' = orgs d \<and> techs d' = techs d"

lemma same_admin_create_scan: "same_admin d (snd (run_state (create_scan parse_uuid inp) d))"
  using keepsD [OF keeps_frame_create_scan, of d d parse_uuid inp] by (simp add: same_admin_def frame_defs)

lemma same_admin_enqueue: "same_admin d (snd (run_state (enqueue_vin_decode show_id vid vin) d))"
  by (simp add: same_admin_def enqueue_vin_decode_def enqueue_job_def fresh_id_def)

lemma same_admin_refl: "same_admin d d"
  by (simp add: same_admin_def)

lemma same_admin_trans: "same_admin a b \<Longrightarrow> same_admin b c \<Longrightarrow> same_admin a c"
  by (simp add: same_admin_def)

lemma same_admin_create_h: "same_admin (sv_db s) (sv_db (snd (run_state (create_scan_h A c b) s)))"
proof -
  have two: "same_admin d (snd (run_state (enqueue_vin_decode f v n) (snd (run_state (create_scan p inp) d))))" for d f v n p inp
    using same_admin_create_scan same_admin_enqueue by (rule same_admin_trans)
  show ?thesis
    by (auto simp: create_scan_h_def write_err_def run_on_store same_admin_refl two same_admin_create_scan split: sum.split)
qed

lemma store_reads:
  "snd (run_state (get_technician j) d) = d" "snd (run_state (get_scan j) d) = d"
  "snd (run_state (list_scans_by_vin vin org n) d) = d" "snd (run_state (list_technicians org) d) = d"
  "snd (run_state (explain_code code vin org) d) = d" "snd (run_state (latest_dtcs_for_vin vin org) d) = d"
  by (simp_all add: get_technician_def get_scan_def list_scans_by_vin_def list_technicians_def explain_code_def
      latest_dtcs_for_vin_def Let_def split: prod.split)

lemma reading_handlers:
  "sv_db (snd (run_state (me A c) s)) = sv_db s" "sv_db (snd (run_state (get_scan_h A c i) s)) = sv_db s"
  "sv_db (snd (run_state (list_scans_h A c vin) s)) = sv_db s" "sv_db (snd (run_state (list_org_techs_h A c) s)) = sv_db s"
  "sv_db (snd (run_state (explain_h A c code vin nar force) s)) = sv_db s"
  by (auto simp: me_def get_scan_h_def list_scans_h_def list_org_techs_h_def list_techs_h_def explain_h_def write_err_def
      run_on_store store_reads narrate_h_def Let_def split: sum.split option.split prod.split)

text \<open>The technician that \<^verbatim>\<open>GetTechnician\<close> finds is the only one with the id.\<close>

lemma toggled_elsewhere:
  assumes "distinct (map t_id ts)" and "find (\<lambda>t. t_id t = i) ts = Some t" and "t_org t = Some org"
  shows "filter (\<lambda>t. t_org t \<noteq> Some org) (map (\<lambda>t. if t_id t = i then t\<lparr>t_active := act\<rparr> else t) ts)
    = filter (\<lambda>t. t_org t \<noteq> Some org) ts"
  using assms
proof (induction ts)
  case (Cons x ts)
  show ?case
  proof (cases "t_id x = i")
    case True
    with Cons.prems have x: "t_org x = Some org" by simp
    have "map (\<lambda>t. if t_id t = i then t\<lparr>t_active := act\<rparr> else t) ts = ts"
      using True Cons.prems(1) by (intro map_idI) (force simp: image_iff)
    with True x show ?thesis by simp
  next
    case False
    with Cons show ?thesis by simp
  qed
qed simp

lemma set_active_confined:
  assumes "uuid_law A" and "cl_role c = RoleOrgAdmin" and "cl_org c = ae_show A org" and "distinct (map t_id (techs (sv_db s)))"
  shows "(let d = sv_db s; d' = sv_db (snd (run_state (set_active_h A c i b) s))
    in settings d' = settings d \<and> orgs d' = orgs d
     \<and> filter (\<lambda>t. t_org t \<noteq> Some org) (techs d') = filter (\<lambda>t. t_org t \<noteq> Some org) (techs d))"
  using assms toggled_elsewhere [OF assms(4)]
  by (auto simp: set_active_h_def write_err_def run_on_store get_technician_def set_technician_active_def uuid_law_inj Let_def
      split: sum.split option.split)



section \<open>Deactivated accounts\<close>

definition deactivate_all :: "db \<Rightarrow> db" where
  "deactivate_all d = d\<lparr>techs := map (\<lambda>t. t\<lparr>t_active := False\<rparr>) (techs d)\<rparr>"

text \<open>An operation that does not look at the flag.\<close>

definition blind :: "(db, 'a) state \<Rightarrow> bool" where
  "blind m \<longleftrightarrow> (\<forall>d. run_state m (deactivate_all d) = (fst (run_state m d), deactivate_all (snd (run_state m d))))"

lemma blind_bind: "blind m \<Longrightarrow> (\<And>x. blind (f x)) \<Longrightarrow> blind (m \<bind> f)"
  by (simp add: blind_def split: prod.split)

lemma blind_ret: "blind (ret x)"
  by (simp add: blind_def)

lemma blind_reads: "(\<And>d. f (deactivate_all d) = f d) \<Longrightarrow> blind (reads f)"
  by (simp add: blind_def)

lemma blind_modify: "(\<And>d. f (deactivate_all d) = deactivate_all (f d)) \<Longrightarrow> blind (modify f)"
  by (simp add: blind_def)

lemma blind_case_sum: "(\<And>e. blind (f e)) \<Longrightarrow> (\<And>x. blind (g x)) \<Longrightarrow> blind (case r of Inl e \<Rightarrow> f e | Inr x \<Rightarrow> g x)"
  by (cases r) auto

lemma blind_case_option: "blind f \<Longrightarrow> (\<And>x. blind (g x)) \<Longrightarrow> blind (case r of None \<Rightarrow> f | Some x \<Rightarrow> g x)"
  by (cases r) auto

lemma blind_if: "blind m \<Longrightarrow> blind n \<Longrightarrow> blind (if b then m else n)"
  by simp

lemma blind_transaction: "blind m \<Longrightarrow> blind (transaction m)"
  by (auto simp: blind_def transaction_def deactivate_all_def split: prod.split sum.split)

lemma blind_fresh: "blind fresh_id"
  by (simp add: blind_def deactivate_all_def)

lemma blind_insert_session: "blind (insert_session s)"
proof -
  have "set (map t_id (techs (deactivate_all d))) = set (map t_id (techs d))" "orgs (deactivate_all d) = orgs d"
    "deactivate_all d\<lparr>sessions := sessions (deactivate_all d) @ [s]\<rparr> = deactivate_all (d\<lparr>sessions := sessions d @ [s]\<rparr>)" for d
    by (simp_all add: deactivate_all_def comp_def)
  then show ?thesis by (simp add: blind_def insert_session_def del: set_map)
qed

lemma blind_insert_dtcs: "blind (insert_dtcs sid cs)"
proof (induction cs)
  case (Cons c cs)
  then show ?case
    by (auto intro!: blind_bind blind_ret blind_modify simp: deactivate_all_def)
qed (simp add: blind_ret)

lemma blind_create_scan: "blind (create_scan parse_uuid inp)"
  unfolding create_scan_def create_scan_body_def vehicle_for_def Let_def
  by (auto intro!: blind_bind blind_ret blind_reads blind_modify blind_if blind_case_sum blind_case_option blind_transaction blind_fresh
      blind_insert_session blind_insert_dtcs simp: deactivate_all_def split del: if_split)

text \<open>
  Deactivating an account does not end its sessions: a token is never checked against the table of technicians, so with every account
  deactivated a request that stores a scan gets the very answer that it gets with all of them active, as long as the token has not expired.
\<close>
theorem deactivated_token_works:
  "fst (run_state (router A header (CreateScan b)) (s\<lparr>sv_db := deactivate_all (sv_db s)\<rparr>))
   = fst (run_state (router A header (CreateScan b)) s)"
proof -
  have "token_claims A header (s\<lparr>sv_db := deactivate_all (sv_db s)\<rparr>) = token_claims A header s"
    by (rule token_claims_db) (simp add: deactivate_all_def)
  moreover have "fst (run_state (create_scan p inp) (deactivate_all d)) = fst (run_state (create_scan p inp) d)" for p inp d
    using blind_create_scan [of p inp] by (simp add: blind_def)
  then have "fst (run_state (create_scan_h A c b) (s\<lparr>sv_db := deactivate_all (sv_db s)\<rparr>)) = fst (run_state (create_scan_h A c b) s)" for c
    by (auto simp: create_scan_h_def write_err_def run_on_store split: sum.split)
  ultimately show ?thesis
    by (simp add: router_def run_require_auth split: option.split)
qed

end
