(* ===== verification/ApiReplies.thy ===== *)
theory ApiReplies
  imports Api
begin

text \<open>
  The replies of the API: for every route the statuses and the shape of the value that a client may expect, and what an
  error means for the database.
\<close>

section \<open>Types of replies\<close>

fun success :: "route \<Rightarrow> nat \<times> payload \<Rightarrow> bool" where
  "success (Register b) r = (\<exists>tok e t org. r = (201, PToken tok e t (Some org)) \<and> pt_org t = Some (o_id org))"
| "success (Login b) r = (\<exists>tok e t. r = (200, PToken tok e t None))"
| "success Me r = (\<exists>t. r = (200, PTech t))"
| "success (CreateScan b) r = (\<exists>rec. r = (201, PScan rec))"
| "success (GetScan i) r = (\<exists>rec. r = (200, PScan rec))"
| "success (ListScans vin) r = (\<exists>recs. r = (200, PScans vin recs) \<and> length recs \<le> 50)"
| "success (ExplainCode code vin nar force) r = (\<exists>out. r = (200, PExplain out) \<and> (is_yes nar \<or> eo_narrative out = None))"
| "success ListOrgs r = (\<exists>os. r = (200, POrgs os))"
| "success (CreateOrg b) r = (\<exists>org. b = Inr (o_name org) \<and> r = (201, POrg org))"
| "success ListAllTechs r = (\<exists>ts. r = (200, PTechs ts))"
| "success (PatchSetting k b) r = (\<exists>v. b = Inr v \<and> v \<in> {''true'', ''false''} \<and> r = (200, PSetting k v))"
| "success Stats r = (\<exists>st. r = (200, PStats st))"
| "success Seed r = (\<exists>i. r = (202, PJob i))"
| "success (SetActive i b) r = (\<exists>t act. b = Inr act \<and> r = (200, PActive t act))"
| "success ListOrgTechs r = (\<exists>ts. r = (200, PTechs ts))"

fun errors_of :: "route \<Rightarrow> nat set" where
  "errors_of (Register b) = {400, 403, 409}"
| "errors_of (Login b) = {400, 401}"
| "errors_of Me = {401, 404}"
| "errors_of (CreateScan b) = {400, 401, 403}"
| "errors_of (GetScan i) = {400, 401, 403, 404}"
| "errors_of (ListScans vin) = {401, 403}"
| "errors_of (ExplainCode code vin nar force) = {401}"
| "errors_of ListOrgs = {401, 403}"
| "errors_of (CreateOrg b) = {400, 401, 403, 500}"
| "errors_of ListAllTechs = {401, 403}"
| "errors_of (PatchSetting k b) = {400, 401, 403}"
| "errors_of Stats = {401, 403}"
| "errors_of Seed = {401, 403}"
| "errors_of (SetActive i b) = {400, 401, 403, 404}"
| "errors_of ListOrgTechs = {400, 401, 403}"

definition failure :: "route \<Rightarrow> nat \<times> payload \<Rightarrow> bool" where
  "failure req r \<longleftrightarrow> fst r \<in> errors_of req \<and> (\<exists>m. snd r = PError m)"

text \<open>Nothing but the counter of the ids has moved.\<close>

definition unchanged :: "'w server \<Rightarrow> 'w server \<Rightarrow> bool" where
  "unchanged s t \<longleftrightarrow> (\<exists>k. t = s\<lparr>sv_db := (sv_db s)\<lparr>next_id := k\<rparr>\<rparr>)"

definition replies :: "route \<Rightarrow> 'w server \<Rightarrow> (nat \<times> payload) \<times> 'w server \<Rightarrow> bool" where
  "replies req s out \<longleftrightarrow> (case out of (r, t) \<Rightarrow> success req r \<or> failure req r \<and> unchanged s t)"

lemma unchanged_refl [simp]: "unchanged s s"
  unfolding unchanged_def by (rule exI [of _ "next_id (sv_db s)"]) simp

lemma unchanged_next [simp]: "unchanged s (s\<lparr>sv_db := (sv_db s)\<lparr>next_id := k\<rparr>\<rparr>)"
  by (auto simp: unchanged_def)

lemma replies_refuse [simp]: "replies req s ((st, PError m), s) \<longleftrightarrow> success req (st, PError m) \<or> st \<in> errors_of req"
  by (simp add: replies_def failure_def)

lemmas reply_defs = replies_def failure_def write_err_def run_on_store

lemma same_next: "\<exists>k. d = d\<lparr>next_id := k\<rparr>" for d :: db
  by (rule exI [of _ "next_id d"]) simp

section \<open>The handlers\<close>

lemma replies_register: "replies (Register b) s (run_state (register A b) s)"
proof (cases b)
  case (Inr req)
  let ?inp = "\<lparr>ri_email = trim_space (to_lower (rr_email req)), ri_password = rr_password req, ri_name = rr_name req,
             ri_shop = rr_shop req, ri_invite = trim_space (rr_invite req)\<rparr>"
  obtain r d where run: "run_state (register_technician (ae_crypto A) (ae_invite A) (ae_salt A) ?inp) (sv_db s) = (r, d)"
    by fastforce
  have kept: "\<exists>k. d = (sv_db s)\<lparr>next_id := k\<rparr>" if "r = Inl e" for e
    using run that same_next [of "sv_db s"] by (cases rule: register_cases) (auto simp: transaction_Inl)
  have joined: "t_org t = Some (o_id org)" if "r = Inr (t, org)" for t org
    using run that
    by (cases rule: register_cases)
      (auto simp: transaction_Inr register_body_def insert_technician_def Let_def split: prod.splits sum.splits if_splits)
  show ?thesis
  proof (cases r)
    case (Inl e)
    with kept [of e] show ?thesis
      by (auto simp: register_def \<open>b = Inr req\<close> reply_defs run register_status_def unchanged_def)
  next
    case (Inr x)
    obtain t org where "x = (t, org)" by fastforce
    with Inr joined [of t org] show ?thesis
      by (simp add: register_def \<open>b = Inr req\<close> reply_defs run issue_for_def public_tech_of_def split: prod.split)
  qed
qed (simp add: register_def write_err_def)

lemma replies_login: "replies (Login b) s (run_state (login A b) s)"
  using authenticate_state
  by (auto simp: login_def reply_defs issue_for_def split: sum.split prod.split)

lemma replies_me: "replies Me s (run_state (me A c) s)"
  by (auto simp: me_def reply_defs get_technician_def Let_def split: sum.split option.split)

lemma create_scan_failed:
  "run_state (create_scan p inp) d = (Inl e, d') \<Longrightarrow> \<exists>k. d' = d\<lparr>next_id := k\<rparr>"
  using same_next [of d] by (auto simp: create_scan_def transaction_Inl split: if_splits sum.splits)

lemma replies_create_scan: "replies (CreateScan b) s (run_state (create_scan_h A c b) s)"
proof (cases b)
  case (Inr req)
  let ?inp = "\<lparr>ci_tech = cl_tech c, ci_org = cl_org c, ci_vin = cr_vin req,
             ci_link = (if cr_link req = [] then LinkUSB else cr_link req), ci_adapter = cr_adapter req,
             ci_protocol = cr_protocol req, ci_notes = cr_notes req, ci_dtcs = cr_dtcs req, ci_obs = cr_obs req\<rparr>"
  obtain r d where run: "run_state (create_scan (ae_parse A) ?inp) (sv_db s) = (r, d)" by fastforce
  show ?thesis
    using create_scan_failed [of "ae_parse A" ?inp "sv_db s"] run
    by (cases r) (auto simp: create_scan_h_def Inr reply_defs unchanged_def unchanged_refl [unfolded unchanged_def])
qed (simp add: create_scan_h_def write_err_def)

lemma replies_get_scan: "replies (GetScan i) s (run_state (get_scan_h A c i) s)"
  by (auto simp: get_scan_h_def reply_defs get_scan_def split: sum.split list.split prod.split)

lemma replies_list_scans: "replies (ListScans vin) s (run_state (list_scans_h A c vin) s)"
  by (auto simp: list_scans_h_def reply_defs list_scans_by_vin_def Let_def split: sum.split)

lemma replies_explain: "replies (ExplainCode code vin nar force) s (run_state (explain_h A c code vin nar force) s)"
  by (auto simp: explain_h_def reply_defs run_explain_reads explain_code_def narrate_h_def Let_def split: sum.split option.split prod.split)

lemma replies_create_org: "replies (CreateOrg b) s (run_state (create_org_h A b) s)"
  by (auto simp: create_org_h_def reply_defs create_organization_def insert_organization_def fresh_id_def Let_def split: sum.split)

lemma replies_set_active: "replies (SetActive i b) s (run_state (set_active_h A c i b) s)"
proof -
  have "snd (run_state (set_technician_active j act) d) = d" if "fst (run_state (set_technician_active j act) d) = Inl e" for j act d e
  proof -
    have "map (\<lambda>t. if t_id t = j then t\<lparr>t_active := act\<rparr> else t) (techs d) = techs d"
      using that by (intro map_idI) (auto simp: set_technician_active_def split: if_splits)
    then show ?thesis by (simp add: set_technician_active_def)
  qed
  then show ?thesis
    by (auto simp: set_active_h_def reply_defs get_technician_def Let_def split: sum.split option.split)
qed

lemma replies_admin:
  "replies ListOrgs s (run_state list_orgs_h s)" "replies ListAllTechs s (run_state (list_techs_h None) s)"
  "replies ListOrgTechs s (run_state (list_org_techs_h A c) s)" "replies (PatchSetting k v) s (run_state (patch_setting_h k v) s)"
  "replies Stats s (run_state stats_h s)" "replies Seed s (run_state seed_h s)"
  by (auto simp: list_orgs_h_def list_techs_h_def list_org_techs_h_def patch_setting_h_def stats_h_def seed_h_def reply_defs
      list_organizations_def list_technicians_def set_setting_def enrichment_stats_def enqueue_job_def job_kinds_def fresh_id_def Let_def
      split: sum.split)

section \<open>Properties\<close>


end
