(* ===== verification/Threads.thy ===== *)
theory Threads
  imports Actions
begin

text \<open>
  Goroutines over a shared state. A thread is the sequence of its critical sections: each is an action on
  the shared state that also says how the thread goes on, so what one section reads another
  thread may change before the next. A pool is a list of threads; a turn runs one section of one of them. Three
  ways to reason about a pool follow: an invariant of the state, a slot that one thread holds at a time, and
  the end of one thread under interference by the others.
\<close>

section \<open>Threads and pools\<close>

datatype ('s, 'r) thread =
    Halt 'r
  | Act "('s, ('s, 'r) thread) state"
  | Fork "('s, 'r) thread" "('s, 'r) thread"

definition pool_step :: "nat \<Rightarrow> ('s, 'r) thread list \<times> 's \<Rightarrow> ('s, 'r) thread list \<times> 's" where
  "pool_step n p =
     (case p of (ts, s) \<Rightarrow>
        if n < length ts
        then (case ts ! n of
                Halt r \<Rightarrow> (ts, s)
              | Act m \<Rightarrow> (case run_state m s of (t, s') \<Rightarrow> (ts[n := t], s'))
              | Fork t u \<Rightarrow> (ts[n := u] @ [t], s))
        else (ts, s))"

definition run_sched :: "nat list \<Rightarrow> ('s, 'r) thread list \<times> 's \<Rightarrow> ('s, 'r) thread list \<times> 's" where
  "run_sched sched p = fold pool_step sched p"

text \<open>
  The pools that a server reaches: it starts empty, threads of \<open>H\<close> arrive, the outside changes the state
  as \<open>D\<close> allows, and any thread may take the next turn.
\<close>

inductive pool_reach :: "('s \<Rightarrow> bool) \<Rightarrow> ('s, 'r) thread set \<Rightarrow> ('s \<Rightarrow> 's \<Rightarrow> bool) \<Rightarrow> ('s, 'r) thread list \<Rightarrow> 's \<Rightarrow> bool"
  for I H D where
  start: "I s \<Longrightarrow> pool_reach I H D [] s"
| arrive: "pool_reach I H D ts s \<Longrightarrow> t \<in> H \<Longrightarrow> pool_reach I H D (ts @ [t]) s"
| drift: "pool_reach I H D ts s \<Longrightarrow> D s s' \<Longrightarrow> pool_reach I H D ts s'"
| turn: "pool_reach I H D ts s \<Longrightarrow> pool_step n (ts, s) = (us, u) \<Longrightarrow> pool_reach I H D us u"

lemma pool_reach_sched:
  "pool_reach I H D ts s \<Longrightarrow> run_sched sched (ts, s) = (us, u) \<Longrightarrow> pool_reach I H D us u"
proof (induction sched arbitrary: ts s)
  case (Cons n sched)
  obtain ts' s' where "pool_step n (ts, s) = (ts', s')" by fastforce
  with Cons show ?case by (auto simp: run_sched_def intro: pool_reach.turn)
qed (simp add: run_sched_def)

section \<open>Invariants\<close>

text \<open>Every section of the thread keeps \<open>P\<close>, and so do the threads it starts.\<close>

inductive always :: "('s \<Rightarrow> bool) \<Rightarrow> ('s, 'r) thread \<Rightarrow> bool" for P where
  always_Halt: "always P (Halt r)"
| always_Act: "(\<And>s t u. P s \<Longrightarrow> run_state m s = (t, u) \<Longrightarrow> P u)
    \<Longrightarrow> (\<And>s t u. P s \<Longrightarrow> run_state m s = (t, u) \<Longrightarrow> always P t) \<Longrightarrow> always P (Act m)"
| always_Fork: "always P t \<Longrightarrow> always P u \<Longrightarrow> always P (Fork t u)"

inductive_simps always_simps: "always P (Halt r)" "always P (Act m)" "always P (Fork t u)"

text \<open>The rules for the sections that the programs are made of: read, then go on; change, then go on.\<close>

lemma always_reads: "(\<And>s. P s \<Longrightarrow> always P (k (f s))) \<Longrightarrow> always P (Act (do { x \<leftarrow> reads f; ret (k x) }))"
  by (rule always_Act) auto

lemma always_modify: "(\<And>s. P s \<Longrightarrow> P (f s)) \<Longrightarrow> always P k \<Longrightarrow> always P (Act (do { modify f; ret k }))"
  by (rule always_Act) auto

locale pool_invariant =
  fixes I :: "'s \<Rightarrow> bool" and H :: "('s, 'r) thread set" and D :: "'s \<Rightarrow> 's \<Rightarrow> bool" and P :: "'s \<Rightarrow> bool"
  assumes starts: "I s \<Longrightarrow> P s"
    and handlers: "t \<in> H \<Longrightarrow> always P t"
    and drifts: "D s s' \<Longrightarrow> P s \<Longrightarrow> P s'"
begin

lemma turn_keeps:
  assumes "P s" and "list_all (always P) ts" and "pool_step n (ts, s) = (us, u)"
  shows "P u \<and> list_all (always P) us"
proof (cases "n < length ts")
  case True
  then have t: "always P (ts ! n)" using assms(2) by (simp add: list_all_length)
  have upd: "list_all (always P) (ts[n := t'])" if "always P t'" for t'
    using assms(2) that by (auto simp: list_all_iff dest: set_update_subset_insert [THEN subsetD])
  show ?thesis
    using assms t True upd
    by (cases "ts ! n") (auto simp: pool_step_def always_simps split: prod.splits)
qed (use assms in \<open>simp add: pool_step_def\<close>)

lemma reach_inv: "pool_reach I H D ts s \<Longrightarrow> P s \<and> list_all (always P) ts"
proof (induction rule: pool_reach.induct)
  case (turn ts s n us u)
  then show ?case using turn_keeps by blast
qed (auto simp: starts handlers drifts)

end

section \<open>A slot held by one thread\<close>

text \<open>
  \<open>plays q a r d (Some j)\<close>: the thread holds slot \<open>j\<close> until a section releases it, unless it dies with a result in \<open>d\<close>;
  \<open>plays q a r d None\<close>: it holds none, and may acquire one. All its other sections are quiet.
\<close>

inductive plays :: "('s \<Rightarrow> 's \<Rightarrow> bool) \<Rightarrow> (nat \<Rightarrow> 's \<Rightarrow> 's \<Rightarrow> bool) \<Rightarrow> (nat \<Rightarrow> 's \<Rightarrow> 's \<Rightarrow> bool) \<Rightarrow> ('r \<Rightarrow> bool)
    \<Rightarrow> nat option \<Rightarrow> ('s, 'r) thread \<Rightarrow> bool"
  for q a r d where
  plays_Halt: "plays q a r d None (Halt x)"
| plays_dead: "d x \<Longrightarrow> plays q a r d (Some j) (Halt x)"
| plays_free: "(\<And>s t u. run_state m s = (t, u) \<Longrightarrow>
      (q s u \<and> plays q a r d None t) \<or> (\<exists>j. a j s u \<and> plays q a r d (Some j) t)) \<Longrightarrow> plays q a r d None (Act m)"
| plays_held: "(\<And>s t u. run_state m s = (t, u) \<Longrightarrow>
      (q s u \<and> plays q a r d (Some j) t) \<or> (r j s u \<and> plays q a r d None t)) \<Longrightarrow> plays q a r d (Some j) (Act m)"
| plays_Fork: "plays q a r d None t \<Longrightarrow> plays q a r d None u \<Longrightarrow> plays q a r d None (Fork t u)"
| plays_pass: "plays q a r d (Some j) t \<Longrightarrow> plays q a r d None u \<Longrightarrow> plays q a r d (Some j) (Fork t u)"

inductive_cases plays_freeE: "plays q a r d None (Act m)"
inductive_cases plays_heldE: "plays q a r d (Some j) (Act m)"
inductive_simps plays_Fork_eq: "plays q a r d None (Fork t u)" "plays q a r d (Some j) (Fork t u)"

lemma plays_freeD: "plays q a r d None (Act m) \<Longrightarrow> run_state m s = (t, u) \<Longrightarrow>
    (q s u \<and> plays q a r d None t) \<or> (\<exists>j. a j s u \<and> plays q a r d (Some j) t)"
  by (elim plays_freeE) blast

lemma plays_heldD: "plays q a r d (Some j) (Act m) \<Longrightarrow> run_state m s = (t, u) \<Longrightarrow>
    (q s u \<and> plays q a r d (Some j) t) \<or> (r j s u \<and> plays q a r d None t)"
  by (elim plays_heldE) blast

lemma plays_reads: "(\<And>s. q s s) \<Longrightarrow> (\<And>s. plays q a r d h (k (f s))) \<Longrightarrow> plays q a r d h (Act (do { x \<leftarrow> reads f; ret (k x) }))"
  by (cases h) (auto intro!: plays_free plays_held)

lemma plays_modify: "(\<And>s. q s (f s)) \<Longrightarrow> plays q a r d h k \<Longrightarrow> plays q a r d h (Act (do { modify f; ret k }))"
  by (cases h) (auto intro!: plays_free plays_held)

lemma plays_release: "(\<And>s. r j s (f s)) \<Longrightarrow> plays q a r d None k \<Longrightarrow> plays q a r d (Some j) (Act (do { modify f; ret k }))"
  by (auto intro!: plays_held)

locale slot_pool =
  fixes I :: "'s \<Rightarrow> bool" and H :: "('s, 'r) thread set" and D q :: "'s \<Rightarrow> 's \<Rightarrow> bool"
    and a r :: "nat \<Rightarrow> 's \<Rightarrow> 's \<Rightarrow> bool" and d :: "'r \<Rightarrow> bool" and busy :: "'s \<Rightarrow> nat set"
  assumes starts: "I s \<Longrightarrow> busy s = {}"
    and handlers: "t \<in> H \<Longrightarrow> plays q a r d None t"
    and drifts: "D s s' \<Longrightarrow> busy s' = busy s"
    and quiet: "q s s' \<Longrightarrow> busy s' = busy s"
    and acquire: "a j s s' \<Longrightarrow> busy s = {} \<and> busy s' = {j}"
    and release: "r j s s' \<Longrightarrow> busy s' = busy s - {j}"
begin

text \<open>An account of a pool: nobody holds a slot and none is busy, or thread \<open>n\<close> holds the only busy one.\<close>

definition holds :: "nat \<Rightarrow> nat \<Rightarrow> nat \<Rightarrow> nat option" where
  "holds n j m = (if m = n then Some j else None)"

definition idle :: "('s, 'r) thread list \<Rightarrow> 's \<Rightarrow> bool" where
  "idle ts s \<longleftrightarrow> busy s = {} \<and> list_all (plays q a r d None) ts"

definition taken :: "nat \<Rightarrow> nat \<Rightarrow> ('s, 'r) thread list \<Rightarrow> 's \<Rightarrow> bool" where
  "taken n j ts s \<longleftrightarrow> busy s = {j} \<and> n < length ts
     \<and> (\<forall>m < length ts. plays q a r d (holds n j m) (ts ! m))"

lemma idle_turn:
  assumes "idle ts s" and "pool_step n (ts, s) = (us, u)"
  shows "idle us u \<or> (\<exists>j. taken n j us u)"
proof (cases "n < length ts")
  case n: True
  have all: "list_all (plays q a r d None) ts" and b: "busy s = {}" using assms(1) by (simp_all add: idle_def)
  then have free: "plays q a r d None (ts ! n)" using n by (simp add: list_all_length)
  show ?thesis
  proof (cases "ts ! n")
    case (Halt x)
    then show ?thesis using assms n by (simp add: pool_step_def)
  next
    case (Act m)
    obtain t where t: "run_state m s = (t, u)" "us = ts[n := t]"
      using assms(2) n Act by (auto simp: pool_step_def split: prod.splits)
    consider "q s u" "plays q a r d None t" | j where "a j s u" "plays q a r d (Some j) t"
      using plays_freeD [OF free [unfolded Act] t(1)] by blast
    then show ?thesis
    proof cases
      case 1
      then show ?thesis using all b n quiet t(2) by (auto simp: idle_def list_all_length nth_list_update)
    next
      case 2
      then have "taken n j us u" using all acquire n t(2)
        by (auto simp: taken_def holds_def list_all_length nth_list_update)
      then show ?thesis by blast
    qed
  next
    case (Fork t v)
    then have "plays q a r d None t" "plays q a r d None v" using free by (simp_all add: plays_Fork_eq)
    then show ?thesis using assms(2) all b n Fork
      by (auto simp: pool_step_def idle_def list_all_length nth_list_update nth_append)
  qed
qed (use assms in \<open>simp add: pool_step_def\<close>)

text \<open>A turn of another thread is quiet; a turn of the holder is quiet, or it releases the slot, or hands it on.\<close>

lemma taken_other:
  assumes "taken n j ts s" and "pool_step m (ts, s) = (us, u)" and "m \<noteq> n"
  shows "taken n j us u \<and> (u = s \<or> q s u) \<and> us ! n = ts ! n"
proof (cases "m < length ts")
  case m: True
  have all: "\<forall>m < length ts. plays q a r d (holds n j m) (ts ! m)" and b: "busy s = {j}" and n: "n < length ts"
    using assms(1) by (simp_all add: taken_def)
  have free: "plays q a r d None (ts ! m)" using all m assms(3) by (auto simp: holds_def)
  show ?thesis
  proof (cases "ts ! m")
    case (Halt x)
    then show ?thesis using assms m by (simp add: pool_step_def)
  next
    case (Act f)
    obtain t where t: "run_state f s = (t, u)" "us = ts[m := t]"
      using assms(2) m Act by (auto simp: pool_step_def split: prod.splits)
    have "\<not> a i s u" for i using acquire b by blast
    with plays_freeD [OF free [unfolded Act] t(1)] have "q s u" "plays q a r d None t" by blast+
    then show ?thesis using all b n m quiet t(2) assms(3) by (auto simp: taken_def holds_def nth_list_update)
  next
    case (Fork t v)
    then have "plays q a r d None t" "plays q a r d None v" using free by (simp_all add: plays_Fork_eq)
    moreover have "plays q a r d None (ts ! k)" if "k < length ts" "k \<noteq> n" for k
      using all that by (auto simp: holds_def)
    moreover have "plays q a r d (Some j) (ts ! n)"
      using all n by (auto simp: holds_def)
    ultimately show ?thesis using assms(2,3) b n m Fork
      by (auto simp: pool_step_def taken_def holds_def nth_list_update nth_append less_Suc_eq)
  qed
qed (use assms in \<open>simp add: pool_step_def\<close>)

lemma taken_turn:
  assumes "taken n j ts s" and "pool_step n (ts, s) = (us, u)"
  shows "idle us u \<or> (\<exists>m. taken m j us u)"
proof -
  have all: "\<forall>m < length ts. plays q a r d (holds n j m) (ts ! m)" and b: "busy s = {j}" and n: "n < length ts"
    using assms(1) by (simp_all add: taken_def)
  have held: "plays q a r d (Some j) (ts ! n)" using all n by (auto simp: holds_def)
  show ?thesis
  proof (cases "ts ! n")
    case (Halt x)
    then show ?thesis using assms n by (auto simp: pool_step_def)
  next
    case (Act f)
    obtain t where t: "run_state f s = (t, u)" "us = ts[n := t]"
      using assms(2) n Act by (auto simp: pool_step_def split: prod.splits)
    consider "q s u" "plays q a r d (Some j) t" | "r j s u" "plays q a r d None t"
      using plays_heldD [OF held [unfolded Act] t(1)] by blast
    then show ?thesis
    proof cases
      case 1
      then have "taken n j us u" using all b n quiet t(2) by (auto simp: taken_def holds_def nth_list_update)
      then show ?thesis by blast
    next
      case 2
      have "idle us u"
        using 2 all b n release [OF 2(1)] t(2) by (auto simp: idle_def holds_def list_all_length nth_list_update)
      then show ?thesis by blast
    qed
  next
    case (Fork t v)
    then have "plays q a r d (Some j) t" "plays q a r d None v" using held by (simp_all add: plays_Fork_eq)
    moreover have "plays q a r d None (ts ! m)" if "m < length ts" "m \<noteq> n" for m
      using all that by (auto simp: holds_def)
    ultimately have "taken (length ts) j us u" using assms(2) b n Fork
      by (auto simp: pool_step_def taken_def holds_def nth_list_update nth_append less_Suc_eq)
    then show ?thesis by blast
  qed
qed

lemma reach_account: "pool_reach I H D ts s \<Longrightarrow> idle ts s \<or> (\<exists>n j. taken n j ts s)"
proof (induction rule: pool_reach.induct)
  case (start s)
  then show ?case using starts by (simp add: idle_def)
next
  case (arrive ts s t)
  have t: "plays q a r d None t" using handlers arrive.hyps(2) .
  from arrive.IH show ?case
  proof
    assume "idle ts s"
    then show ?thesis using t by (simp add: idle_def)
  next
    assume "\<exists>n j. taken n j ts s"
    then obtain n j where "taken n j ts s" by blast
    then have "taken n j (ts @ [t]) s"
      using t by (auto simp: taken_def holds_def nth_append less_Suc_eq)
    then show ?thesis by blast
  qed
next
  case (drift ts s s')
  then show ?case using drifts [of s s'] by (auto simp: idle_def taken_def)
next
  case (turn ts s k us u)
  from turn.IH show ?case
  proof
    assume "idle ts s"
    then show ?thesis using idle_turn turn.hyps(2) by blast
  next
    assume "\<exists>n j. taken n j ts s"
    then obtain n j where "taken n j ts s" by blast
    then show ?thesis using taken_turn taken_other turn.hyps(2) by (cases "k = n") blast+
  qed
qed

lemma reach_busy: "pool_reach I H D ts s \<Longrightarrow> i \<in> busy s \<Longrightarrow> j \<in> busy s \<Longrightarrow> i = j"
  using reach_account by (fastforce simp: idle_def taken_def)

end

section \<open>The end of a thread\<close>

text \<open>
  \<open>ends R Q t s\<close>: from state \<open>s\<close>, thread \<open>t\<close> comes to its end with a result and a state in \<open>Q\<close>, whatever the others do between
  its sections, as long as they keep to \<open>R\<close>. The predicate is a least one, so every such run is finite.
\<close>

inductive ends :: "('s \<Rightarrow> 's \<Rightarrow> bool) \<Rightarrow> ('r \<Rightarrow> 's \<Rightarrow> bool) \<Rightarrow> ('s, 'r) thread \<Rightarrow> 's \<Rightarrow> bool" for R Q where
  ends_Halt: "Q x s \<Longrightarrow> ends R Q (Halt x) s"
| ends_Act: "(\<And>s' t u. R s s' \<Longrightarrow> run_state m s' = (t, u) \<Longrightarrow> ends R Q t u) \<Longrightarrow> ends R Q (Act m) s"
| ends_Fork: "ends R Q u s \<Longrightarrow> ends R Q (Fork t u) s"

lemma ends_reads: "(\<And>s'. R s s' \<Longrightarrow> ends R Q (k (f s')) s') \<Longrightarrow> ends R Q (Act (do { x \<leftarrow> reads f; ret (k x) })) s"
  by (rule ends_Act) auto

lemma ends_modify: "(\<And>s'. R s s' \<Longrightarrow> ends R Q k (f s')) \<Longrightarrow> ends R Q (Act (do { modify f; ret k })) s"
  by (rule ends_Act) auto

end
