(* ===== verification/TokenFile.thy ===== *)
theory TokenFile
  imports GoStrings
begin

text \<open>
  The file with the saved token that the bay server and \<^verbatim>\<open>obdctl\<close> share (\<^verbatim>\<open>tokenPath\<close>, \<^verbatim>\<open>saveToken\<close> and
  \<^verbatim>\<open>loadSavedToken\<close>, the same text in \<^verbatim>\<open>cmd/bayui/server.go\<close> and \<^verbatim>\<open>cmd/obdctl/main.go\<close>), and the small string helpers of
  the programs. The file system is a record of functions on the outside world; the configuration
  directory is a clean path.
\<close>

record 'w files =
  user_config_dir :: "gerr + string"
  temp_dir :: string
  mkdir_all :: "string \<Rightarrow> 'w \<Rightarrow> gerr option \<times> 'w"
  write_path :: "string \<Rightarrow> string \<Rightarrow> 'w \<Rightarrow> gerr option \<times> 'w"
  read_path :: "string \<Rightarrow> 'w \<Rightarrow> gerr + string"
  remove_path :: "string \<Rightarrow> 'w \<Rightarrow> 'w"

definition token_dir :: "'w files \<Rightarrow> string" where
  "token_dir F = (case user_config_dir F of Inl _ \<Rightarrow> temp_dir F | Inr d \<Rightarrow> d) @ ''/mechmind''"

definition token_path :: "'w files \<Rightarrow> string" where
  "token_path F = token_dir F @ ''/token''"

definition save_token :: "'w files \<Rightarrow> string \<Rightarrow> 'w \<Rightarrow> gerr option \<times> 'w" where
  "save_token F tok w =
     (case mkdir_all F (token_dir F) w of
        (Some e, w') \<Rightarrow> (Some e, w')
      | (None, w') \<Rightarrow> write_path F (token_path F) tok w')"

definition load_saved_token :: "'w files \<Rightarrow> 'w \<Rightarrow> string" where
  "load_saved_token F w = (case read_path F (token_path F) w of Inl _ \<Rightarrow> [] | Inr b \<Rightarrow> trim_space b)"

text \<open>\<^verbatim>\<open>envOr\<close>, over \<^verbatim>\<open>os.Getenv\<close>.\<close>

definition env_or :: "(string \<Rightarrow> string) \<Rightarrow> string \<Rightarrow> string \<Rightarrow> string" where
  "env_or getenv key fallback = (let v = getenv key in if v \<noteq> [] then v else fallback)"

text \<open>\<^verbatim>\<open>splitCSV\<close> of \<^verbatim>\<open>obdctl\<close>.\<close>

definition split_csv :: "string \<Rightarrow> string list" where
  "split_csv s = filter (\<lambda>p. p \<noteq> []) (map trim_space (split_on (CHR '','') s))"

section \<open>The contract of the token file\<close>

text \<open>What the programs rely on: a file that was written reads back, and other files do not matter.\<close>

definition files_law :: "'w files \<Rightarrow> bool" where
  "files_law F \<longleftrightarrow> (\<forall>p b w w'. write_path F p b w = (None, w') \<longrightarrow> read_path F p w' = Inr b)"

lemma saved_token_loads:
  assumes "files_law F" and "save_token F tok w = (None, w')"
  shows "load_saved_token F w' = trim_space tok"
  using assms by (auto simp: save_token_def load_saved_token_def files_law_def split: prod.splits option.splits)

lemma split_csv_shape: "p \<in> set (split_csv s) \<Longrightarrow> p \<noteq> [] \<and> trim_space p = p"
  by (auto simp: split_csv_def)

end
