(* ===== verification/Bay.thy ===== *)
theory Bay
  imports Threads TokenFile Mock UsbAdapter
begin

text \<open>
  The bay server (\<^verbatim>\<open>cmd/bayui/server.go\<close>): the local web server that owns the adapter. Every request and every scan is
  a thread; a section under \<^verbatim>\<open>jobMu\<close>, \<^verbatim>\<open>job.mu\<close> or \<^verbatim>\<open>mu\<close> is one turn. The jobs ever made are a list, and \<^verbatim>\<open>b.job\<close>
  points to the last of them. HTTP, JSON, URL escaping, contexts and the file system are the functions of \<open>bay_env\<close>. A scan
  is one turn on the adapter; its messages are delivered after it, one turn each.
\<close>

section \<open>State\<close>

record job_result =
  jr_scan :: scan_result
  jr_upload :: "any_map option option"
  jr_upload_error :: "string option"
  jr_explanations :: "any_map list"

record scan_job =
  jb_busy :: bool
  jb_done :: bool
  jb_phase :: string
  jb_log :: "string list"
  jb_started :: nat
  jb_timeout :: nat
  jb_err :: string
  jb_result :: "job_result option"

text \<open>The body of a request before it is marshalled, and the request with the context it runs in.\<close>

datatype api_body = NoBody | FieldsBody "(string \<times> string) list" | ScanBody scan_result

record api_request =
  rq_ctx :: "nat option"
  rq_method :: string
  rq_url :: string
  rq_auth :: "string option"
  rq_about :: api_body
  rq_content :: string

record 'w bay =
  by_api :: string
  by_token :: string
  by_jobs :: "scan_job list"
  by_sent :: "api_request list"
  by_world :: 'w

record 'w bay_env =
  be_obd :: "'w env"
  be_goos :: string
  be_devices :: "'w \<Rightarrow> gerr + string list"
  be_ctx :: "nat \<Rightarrow> 'w \<Rightarrow> gerr option"
  be_cancel :: "nat \<Rightarrow> 'w \<Rightarrow> 'w"
  be_now :: "'w \<Rightarrow> nat"
  be_hms :: "'w \<Rightarrow> string"
  be_marshal :: "api_body \<Rightarrow> gerr + string"
  be_new_request :: "string \<Rightarrow> gerr option"
  be_do :: "api_request \<Rightarrow> 'w \<Rightarrow> (gerr + nat \<times> string) \<times> 'w"
  be_decode :: "string \<Rightarrow> gerr + any_map option"
  be_error_field :: "string \<Rightarrow> string option"
  be_path_escape :: "string \<Rightarrow> string"
  be_query_escape :: "string \<Rightarrow> string"
  be_files :: "'w files"
  be_shutdown :: "'w \<Rightarrow> 'w"

record job_status =
  st_busy :: bool
  st_done :: bool
  st_phase :: string
  st_log :: "string list"
  st_elapsed :: int
  st_timeout :: nat
  st_error :: "string option"
  st_result :: "job_result option"

record bay_state =
  bs_api :: string
  bs_devices :: "serial_port list"
  bs_logged_in :: bool
  bs_scan :: job_status
  bs_technician :: "any_map option option"
  bs_api_ok :: bool
  bs_api_error :: "string option"

datatype bay_payload =
    BError string
  | BTech "gval option" "gval option"
  | BOk
  | BState bay_state
  | BDevices "serial_port list"
  | BStarted nat
  | BStatus job_status
  | BCancelled bool
  | BExplain "any_map option"

datatype bay_reply = NoReply | Panicked | Replied nat bay_payload

type_synonym 'w bay_thread = "('w bay, bay_reply) thread"

abbreviation bay_err :: "nat \<Rightarrow> string \<Rightarrow> 'w bay_thread" where
  "bay_err code msg \<equiv> Halt (Replied code (BError msg))"

section \<open>The job\<close>

definition current :: "'w bay \<Rightarrow> nat option" where
  "current b = (if by_jobs b = [] then None else Some (length (by_jobs b) - 1))"

definition on_job :: "nat \<Rightarrow> (scan_job \<Rightarrow> scan_job) \<Rightarrow> 'w bay \<Rightarrow> 'w bay" where
  "on_job i f b = b\<lparr>by_jobs := (by_jobs b)[i := f (by_jobs b ! i)]\<rparr>"

definition note_job :: "string \<Rightarrow> string \<Rightarrow> scan_job \<Rightarrow> scan_job" where
  "note_job hms phase j =
     (let l = jb_log j @ [hms @ ''  '' @ phase]
      in j\<lparr>jb_phase := phase, jb_log := (if length l > 50 then drop (length l - 50) l else l)\<rparr>)"

definition b_note :: "'w bay_env \<Rightarrow> string \<Rightarrow> 'w bay_thread \<Rightarrow> 'w bay_thread" where
  "b_note B phase k = Act (do {
     cur \<leftarrow> reads current;
     ret (case cur of
            None \<Rightarrow> k
          | Some i \<Rightarrow> Act (do { modify (\<lambda>b. on_job i (note_job (be_hms B (by_world b)) phase) b); ret k }))
   })"

definition cancel_job :: "'w bay_env \<Rightarrow> nat \<Rightarrow> 'w bay \<Rightarrow> 'w bay" where
  "cancel_job B i b = b\<lparr>by_world := be_cancel B i (by_world b)\<rparr>"

definition stop_scan :: "'w bay_env \<Rightarrow> (bool \<Rightarrow> 'w bay_thread) \<Rightarrow> 'w bay_thread" where
  "stop_scan B k = Act (do {
     cur \<leftarrow> reads current;
     ret (case cur of
            None \<Rightarrow> k False
          | Some i \<Rightarrow> Act (do {
              busy \<leftarrow> reads (\<lambda>b. jb_busy (by_jobs b ! i));
              ret (if \<not> busy then k False
                   else Act (do { modify (cancel_job B i); ret (b_note B ''Cancel requested'' (k True)) }))
            }))
   })"

definition no_status :: job_status where
  "no_status = \<lparr>st_busy = False, st_done = False, st_phase = [], st_log = [], st_elapsed = 0, st_timeout = 50000,
     st_error = None, st_result = None\<rparr>"

definition status_of :: "nat \<Rightarrow> scan_job \<Rightarrow> job_status" where
  "status_of now j = \<lparr>st_busy = jb_busy j, st_done = jb_done j, st_phase = jb_phase j, st_log = jb_log j,
     st_elapsed = int now - int (jb_started j), st_timeout = jb_timeout j,
     st_error = (if jb_err j \<noteq> [] then Some (jb_err j) else None), st_result = jb_result j\<rparr>"

definition job_status :: "'w bay_env \<Rightarrow> (job_status \<Rightarrow> 'w bay_thread) \<Rightarrow> 'w bay_thread" where
  "job_status B k = Act (do {
     cur \<leftarrow> reads current;
     ret (case cur of
            None \<Rightarrow> k no_status
          | Some i \<Rightarrow> Act (do { st \<leftarrow> reads (\<lambda>b. status_of (be_now B (by_world b)) (by_jobs b ! i)); ret (k st) }))
   })"

definition finish_job :: "nat \<Rightarrow> job_result option \<Rightarrow> gerr option \<Rightarrow> 'w bay \<Rightarrow> 'w bay" where
  "finish_job i result err = on_job i (\<lambda>j.
     (case err of
        Some e \<Rightarrow> j\<lparr>jb_busy := False, jb_done := True, jb_err := err_text e, jb_phase := ''Failed''\<rparr>
      | None \<Rightarrow> j\<lparr>jb_busy := False, jb_done := True, jb_phase := ''Done'', jb_result := result\<rparr>))"

section \<open>The API\<close>

definition api_err_body :: "'w bay_env \<Rightarrow> string \<Rightarrow> string" where
  "api_err_body B raw =
     (case be_error_field B raw of
        Some e \<Rightarrow> if e \<noteq> [] then e else (let s = trim_space raw in if s = [] then ''request failed'' else s)
      | None \<Rightarrow> (let s = trim_space raw in if s = [] then ''request failed'' else s))"

definition new_request :: "'w bay_env \<Rightarrow> nat option \<Rightarrow> string \<Rightarrow> string \<Rightarrow> api_body \<Rightarrow> string \<Rightarrow> string \<Rightarrow> gerr + api_request" where
  "new_request B ctx meth path body base tok =
     (case (if body = NoBody then Inr [] else be_marshal B body) of
        Inl e \<Rightarrow> Inl e
      | Inr raw \<Rightarrow>
          (let url = trim_right_char (CHR ''/'') base @ path
           in case be_new_request B url of
                Some e \<Rightarrow> Inl e
              | None \<Rightarrow> Inr \<lparr>rq_ctx = ctx, rq_method = meth, rq_url = url,
                  rq_auth = (if tok \<noteq> [] \<and> \<not> has_prefix path ''/v1/auth/login'' \<and> \<not> has_prefix path ''/v1/auth/register''
                             then Some (''Bearer '' @ tok) else None),
                  rq_about = body, rq_content = raw\<rparr>))"

definition send_request :: "'w bay_env \<Rightarrow> api_request \<Rightarrow> ('w bay, gerr + nat \<times> string) state" where
  "send_request B rq = State (\<lambda>b. case be_do B rq (by_world b) of
     (r, w) \<Rightarrow> (r, b\<lparr>by_world := w, by_sent := by_sent b @ [rq]\<rparr>))"

definition read_reply :: "'w bay_env \<Rightarrow> string \<Rightarrow> gerr + nat \<times> string \<Rightarrow> gerr + any_map option" where
  "read_reply B base r =
     (case r of
        Inl e \<Rightarrow> Inl (Wrapped (''API unreachable at '' @ base @ '': '') e [])
      | Inr (status, raw0) \<Rightarrow>
          (let raw = take 4194304 raw0
           in if status \<ge> 300 then Inl (Msg (api_err_body B raw)) else be_decode B raw))"

definition api_json :: "'w bay_env \<Rightarrow> nat option \<Rightarrow> string \<Rightarrow> string \<Rightarrow> api_body
    \<Rightarrow> (gerr + any_map option \<Rightarrow> 'w bay_thread) \<Rightarrow> 'w bay_thread" where
  "api_json B ctx meth path body k = Act (do {
     (base, tok) \<leftarrow> reads (\<lambda>b. (by_api b, by_token b));
     ret (case new_request B ctx meth path body base tok of
            Inl e \<Rightarrow> k (Inl e)
          | Inr rq \<Rightarrow> Act (do { r \<leftarrow> send_request B rq; ret (k (read_reply B base r)) }))
   })"

text \<open>A key of a decoded object; a nil map has none.\<close>

definition field :: "any_map option \<Rightarrow> string \<Rightarrow> gval option" where
  "field out k = (case out of None \<Rightarrow> None | Some m \<Rightarrow> map_of m k)"

definition text_field :: "any_map option \<Rightarrow> string \<Rightarrow> string" where
  "text_field out k = (case field out k of Some (VStr s) \<Rightarrow> s | _ \<Rightarrow> [])"

definition bay_login :: "'w bay_env \<Rightarrow> string \<Rightarrow> string \<Rightarrow> (gerr + string \<times> gval option \<Rightarrow> 'w bay_thread) \<Rightarrow> 'w bay_thread" where
  "bay_login B email password k =
     api_json B None ''POST'' ''/v1/auth/login'' (FieldsBody [(''email'', email), (''password'', password)]) (\<lambda>r.
       case r of
         Inl e \<Rightarrow> k (Inl e)
       | Inr out \<Rightarrow>
           (let tok = text_field out ''token''
            in if tok = [] then k (Inl (Msg ''login response missing token'')) else k (Inr (tok, field out ''technician''))))"

definition upload_scan :: "'w bay_env \<Rightarrow> nat \<Rightarrow> scan_result \<Rightarrow> (gerr + any_map option \<Rightarrow> 'w bay_thread) \<Rightarrow> 'w bay_thread" where
  "upload_scan B i result = api_json B (Some i) ''POST'' ''/v1/scans'' (ScanBody result)"

definition bay_explain :: "'w bay_env \<Rightarrow> string \<Rightarrow> string \<Rightarrow> bool \<Rightarrow> (gerr + any_map option \<Rightarrow> 'w bay_thread) \<Rightarrow> 'w bay_thread" where
  "bay_explain B code vin narrative =
     api_json B None ''GET''
       (''/v1/codes/'' @ be_path_escape B code @ ''/explain?vin='' @ be_query_escape B vin
        @ (if narrative then ''&narrative=1'' else [])) NoBody"

section \<open>The scan\<close>

datatype bay_adapter = MockAdapter string "string list" | UsbPort string int

definition list_ports :: "'w bay_env \<Rightarrow> 'w \<Rightarrow> gerr + serial_port list" where
  "list_ports B w = list_serial_ports (be_obd B) (be_goos B) (be_devices B w)"

definition build_adapter :: "'w bay_env \<Rightarrow> bool \<Rightarrow> string \<Rightarrow> int \<Rightarrow> 'w \<Rightarrow> gerr + bay_adapter" where
  "build_adapter B mock device bd w =
     (if mock then Inr (MockAdapter ''MOCKTESTVIN000001'' [''P0300'', ''P0171''])
      else
        let path = trim_space device
        in if path = []
           then (case list_ports B w of
                   Inl e \<Rightarrow> Inl e
                 | Inr ports \<Rightarrow> (case first_elm_path ports of Inl e \<Rightarrow> Inl e | Inr p \<Rightarrow> Inr (UsbPort p bd)))
           else
             let info = inspect_serial_port (be_obd B) (be_goos B) path
             in if sp_kind info = KindJ2534OpenPort
                then Inl (Wrapped [] J2534Unsupported ('' ('' @ display_label info @ '')''))
                else Inr (UsbPort path bd))"

definition job_env :: "'w bay_env \<Rightarrow> nat \<Rightarrow> 'w env" where
  "job_env B i = (be_obd B)\<lparr>ctx_err := be_ctx B i\<rparr>"

text \<open>One pass of the scanner on the adapter of the job: its result, its messages, the world after it.\<close>

definition adapter_pass :: "'w bay_env \<Rightarrow> nat \<Rightarrow> bay_adapter \<Rightarrow> 'w \<Rightarrow> (gerr + scan_result) \<times> string list \<times> 'w" where
  "adapter_pass B i ad w =
     (case ad of
        MockAdapter vin codes \<Rightarrow>
          (case run_state (scan (mock_adapter (job_env B i))) (new_mock_adapter vin codes w) of
             (r, m) \<Rightarrow> (r, m_log m, m_world m))
      | UsbPort path bd \<Rightarrow>
          (let u = new_usb_adapter path w
           in case run_state (scan (usb_adapter (job_env B i) (be_goos B))) (if bd > 0 then u\<lparr>baud := bd\<rparr> else u) of
                (r, v) \<Rightarrow> (r, progress v, world v)))"

definition finish :: "'w bay_env \<Rightarrow> nat \<Rightarrow> job_result option \<Rightarrow> gerr option \<Rightarrow> 'w bay_thread" where
  "finish B i result err = Act (do {
     modify (finish_job i result err);
     ret (Act (do { modify (cancel_job B i); ret (Halt NoReply) }))
   })"

definition open_quote :: string where "open_quote = [CHR 0xE2, CHR 0x80, CHR 0x9C]"
definition close_quote :: string where "close_quote = [CHR 0xE2, CHR 0x80, CHR 0x9D]"

definition stopped_error :: "string \<Rightarrow> gerr \<Rightarrow> gerr option \<Rightarrow> gerr" where
  "stopped_error phase err ctx =
     (case ctx of
        None \<Rightarrow> err
      | Some c \<Rightarrow> Msg (''stopped at '' @ open_quote @ (if phase \<noteq> [] then phase else ''unknown step'') @ close_quote @ '' ('' @ err_text c
          @ ''). Ignition ON, adapter seated, correct port/baud?''))"

definition scan_failed :: "'w bay_env \<Rightarrow> nat \<Rightarrow> gerr \<Rightarrow> 'w bay_thread" where
  "scan_failed B i err = Act (do {
     phase \<leftarrow> reads (\<lambda>b. jb_phase (by_jobs b ! i));
     ret (Act (do {
       c \<leftarrow> reads (\<lambda>b. be_ctx B i (by_world b));
       ret (b_note B (err_text (stopped_error phase err c)) (finish B i None (Some (stopped_error phase err c))))
     }))
   })"

definition explained :: "string \<Rightarrow> any_map \<Rightarrow> any_map" where
  "explained code m = AList.update ''code'' (VStr code) m"

text \<open>The loop over the codes. Writing to the nil map that a JSON null decodes to panics.\<close>

fun explain_all :: "'w bay_env \<Rightarrow> string \<Rightarrow> string list \<Rightarrow> any_map list \<Rightarrow> (any_map list \<Rightarrow> 'w bay_thread) \<Rightarrow> 'w bay_thread" where
  "explain_all B vin [] exps k = k exps"
| "explain_all B vin (c # cs) exps k = b_note B (''Explaining '' @ c) (bay_explain B c vin False (\<lambda>r.
     case r of
       Inl e \<Rightarrow> explain_all B vin cs (exps @ [[(''code'', VStr c), (''error'', VStr (err_text e))]]) k
     | Inr None \<Rightarrow> Halt Panicked
     | Inr (Some m) \<Rightarrow> explain_all B vin cs (exps @ [explained c m]) k))"

definition scan_uploaded :: "'w bay_env \<Rightarrow> nat \<Rightarrow> scan_result \<Rightarrow> gerr + any_map option \<Rightarrow> 'w bay_thread" where
  "scan_uploaded B i result r =
     (case r of
        Inl e \<Rightarrow> b_note B (''Upload failed: '' @ err_text e)
          (finish B i (Some \<lparr>jr_scan = result, jr_upload = None, jr_upload_error = Some (err_text e), jr_explanations = []\<rparr>) None)
      | Inr reply \<Rightarrow> explain_all B (vi_vin (sr_vehicle result)) (map dtc_code (sr_dtcs result)) [] (\<lambda>exps.
          b_note B ''Done''
            (finish B i (Some \<lparr>jr_scan = result, jr_upload = Some reply, jr_upload_error = None, jr_explanations = exps\<rparr>) None)))"

definition no_vin_error :: gerr where
  "no_vin_error = Msg (''ECU did not return a VIN '' @ em_dash @ '' check ignition ON, adapter seating, and serial permissions'')"

definition scan_passed :: "'w bay_env \<Rightarrow> nat \<Rightarrow> bool \<Rightarrow> scan_result \<Rightarrow> 'w bay_thread" where
  "scan_passed B i mock result =
     (let vin = vi_vin (sr_vehicle result)
      in if vin = [] then b_note B (err_text no_vin_error) (finish B i None (Some no_vin_error))
         else if has_prefix vin ''MOCK'' \<and> \<not> mock then finish B i None (Some (Msg ''refusing mock VIN on a live adapter''))
         else b_note B ''Uploading scan to MechMind'' (upload_scan B i result (scan_uploaded B i result)))"

definition run_scan :: "'w bay_env \<Rightarrow> nat \<Rightarrow> bay_adapter \<Rightarrow> bool \<Rightarrow> 'w bay_thread" where
  "run_scan B i ad mock = Act (State (\<lambda>b.
     case adapter_pass B i ad (by_world b) of
       (r, msgs, w) \<Rightarrow>
         (foldr (b_note B) msgs (case r of Inl e \<Rightarrow> scan_failed B i e | Inr result \<Rightarrow> scan_passed B i mock result),
          b\<lparr>by_world := w\<rparr>)))"

section \<open>The handlers\<close>

definition new_scan_job :: "'w bay_env \<Rightarrow> 'w \<Rightarrow> scan_job" where
  "new_scan_job B w = \<lparr>jb_busy = True, jb_done = False, jb_phase = ''Starting'', jb_log = [be_hms B w @ ''  Starting''],
     jb_started = be_now B w, jb_timeout = 50000, jb_err = [], jb_result = None\<rparr>"

definition start_job :: "'w bay_env \<Rightarrow> bay_adapter \<Rightarrow> bool \<Rightarrow> ('w bay, 'w bay_thread) state" where
  "start_job B ad mock = State (\<lambda>b.
     if (case current b of None \<Rightarrow> False | Some i \<Rightarrow> jb_busy (by_jobs b ! i))
     then (bay_err 409 ''a scan is already running'', b)
     else (Fork (run_scan B (length (by_jobs b)) ad mock) (Halt (Replied 202 (BStarted 50000))),
           b\<lparr>by_jobs := by_jobs b @ [new_scan_job B (by_world b)]\<rparr>))"

definition handle_scan :: "'w bay_env \<Rightarrow> gerr + bool \<times> string \<times> int \<Rightarrow> 'w bay_thread" where
  "handle_scan B body =
     (case body of
        Inl e \<Rightarrow> bay_err 400 (err_text e)
      | Inr (mock, device, bd) \<Rightarrow> Act (do {
          tok \<leftarrow> reads by_token;
          ret (if tok = [] then bay_err 401 (''log in first '' @ em_dash @ '' use a shop technician account, not the bootstrap super_admin'')
               else Act (do {
                 a \<leftarrow> reads (\<lambda>b. build_adapter B mock device bd (by_world b));
                 ret (case a of Inl e \<Rightarrow> bay_err 400 (err_text e) | Inr ad \<Rightarrow> Act (start_job B ad mock))
               }))
        }))"

definition handle_scan_status :: "'w bay_env \<Rightarrow> 'w bay_thread" where
  "handle_scan_status B = job_status B (\<lambda>st. Halt (Replied 200 (BStatus st)))"

definition handle_scan_cancel :: "'w bay_env \<Rightarrow> 'w bay_thread" where
  "handle_scan_cancel B = stop_scan B (\<lambda>c. Halt (Replied 200 (BCancelled c)))"

definition handle_quit :: "'w bay_env \<Rightarrow> 'w bay_thread" where
  "handle_quit B = stop_scan B (\<lambda>_.
     Fork (Act (do { modify (\<lambda>b. b\<lparr>by_world := be_shutdown B (by_world b)\<rparr>); ret (Halt NoReply) })) (Halt (Replied 200 BOk)))"

definition handle_devices :: "'w bay_env \<Rightarrow> 'w bay_thread" where
  "handle_devices B = Act (do {
     r \<leftarrow> reads (\<lambda>b. list_ports B (by_world b));
     ret (case r of Inl e \<Rightarrow> bay_err 500 (err_text e) | Inr ps \<Rightarrow> Halt (Replied 200 (BDevices ps)))
   })"

text \<open>The optional change of the API's address that login and registration begin with.\<close>

definition use_api :: "string \<Rightarrow> 'w bay_thread \<Rightarrow> 'w bay_thread" where
  "use_api url k =
     (if trim_space url \<noteq> [] then Act (do { modify (\<lambda>b. b\<lparr>by_api := trim_right_char (CHR ''/'') url\<rparr>); ret k }) else k)"

definition keep_token :: "'w bay_env \<Rightarrow> string \<Rightarrow> 'w bay_thread \<Rightarrow> 'w bay_thread" where
  "keep_token B tok k = Act (do {
     modify (\<lambda>b. b\<lparr>by_token := tok\<rparr>);
     ret (Act (do { modify (\<lambda>b. b\<lparr>by_world := snd (save_token (be_files B) tok (by_world b))\<rparr>); ret k }))
   })"

definition handle_login :: "'w bay_env \<Rightarrow> gerr + string \<times> string \<times> string \<Rightarrow> 'w bay_thread" where
  "handle_login B body =
     (case body of
        Inl e \<Rightarrow> bay_err 400 (err_text e)
      | Inr (url, email, password) \<Rightarrow>
          use_api url (bay_login B email password (\<lambda>r.
            case r of
              Inl e \<Rightarrow> bay_err 401 (err_text e)
            | Inr (tok, tech) \<Rightarrow> keep_token B tok (Halt (Replied 200 (BTech tech None))))))"

definition handle_register :: "'w bay_env \<Rightarrow> gerr + string \<times> string \<times> string \<times> string \<times> string \<Rightarrow> 'w bay_thread" where
  "handle_register B body =
     (case body of
        Inl e \<Rightarrow> bay_err 400 (err_text e)
      | Inr (url, email, password, name, shop) \<Rightarrow>
          use_api url (api_json B None ''POST'' ''/v1/auth/register''
            (FieldsBody [(''email'', email), (''password'', password), (''display_name'', name), (''shop_name'', shop)]) (\<lambda>r.
            case r of
              Inl e \<Rightarrow> bay_err 400 (err_text e)
            | Inr out \<Rightarrow>
                (let tok = text_field out ''token''
                 in if tok = [] then bay_err 400 ''register response missing token''
                    else keep_token B tok (Halt (Replied 201 (BTech (field out ''technician'') (field out ''organization''))))))))"

definition handle_logout :: "'w bay_env \<Rightarrow> 'w bay_thread" where
  "handle_logout B = Act (do {
     modify (\<lambda>b. b\<lparr>by_token := []\<rparr>);
     ret (Act (do {
       modify (\<lambda>b. b\<lparr>by_world := remove_path (be_files B) (token_path (be_files B)) (by_world b)\<rparr>);
       ret (Halt (Replied 200 BOk))
     }))
   })"

definition handle_explain :: "'w bay_env \<Rightarrow> string \<Rightarrow> string \<Rightarrow> string \<Rightarrow> 'w bay_thread" where
  "handle_explain B code vin narrative =
     (if code = [] then bay_err 400 ''code required''
      else bay_explain B code vin (narrative = ''1'') (\<lambda>r.
        case r of Inl e \<Rightarrow> bay_err 502 (err_text e) | Inr m \<Rightarrow> Halt (Replied 200 (BExplain m))))"

text \<open>The state for the page. A health check of an address that makes no request panics: the nil request is sent.\<close>

definition health_check :: "'w bay_env \<Rightarrow> string \<Rightarrow> bay_state \<Rightarrow> 'w bay_thread" where
  "health_check B url st =
     (let u = trim_right_char (CHR ''/'') url @ ''/healthz''
      in case be_new_request B u of
           Some _ \<Rightarrow> Halt Panicked
         | None \<Rightarrow> Act (do {
             r \<leftarrow> send_request B \<lparr>rq_ctx = None, rq_method = ''GET'', rq_url = u, rq_auth = None, rq_about = NoBody, rq_content = []\<rparr>;
             ret (Halt (Replied 200 (BState (case r of
               Inl e \<Rightarrow> st\<lparr>bs_api_ok := False, bs_api_error := Some (err_text e)\<rparr>
             | Inr (status, _) \<Rightarrow> st\<lparr>bs_api_ok := status < 300\<rparr>))))
           }))"

definition handle_state :: "'w bay_env \<Rightarrow> 'w bay_thread" where
  "handle_state B = Act (do {
     devs \<leftarrow> reads (\<lambda>b. case list_ports B (by_world b) of Inl _ \<Rightarrow> [] | Inr ps \<Rightarrow> ps);
     ret (Act (do {
       (url, tok) \<leftarrow> reads (\<lambda>b. (by_api b, by_token b));
       ret (job_status B (\<lambda>js.
         let st = \<lparr>bs_api = url, bs_devices = devs, bs_logged_in = (tok \<noteq> []), bs_scan = js, bs_technician = None,
                   bs_api_ok = False, bs_api_error = None\<rparr>
         in if tok \<noteq> []
            then api_json B None ''GET'' ''/v1/auth/me'' NoBody (\<lambda>r. Halt (Replied 200 (BState (case r of
                   Inl e \<Rightarrow> st\<lparr>bs_api_error := Some (err_text e)\<rparr>
                 | Inr me \<Rightarrow> st\<lparr>bs_technician := Some me, bs_api_ok := True\<rparr>))))
            else health_check B url st))
     }))
   })"

section \<open>The server\<close>

text \<open>The routes of \<^verbatim>\<open>main\<close> in \<^verbatim>\<open>cmd/bayui/main.go\<close> but for the static page.\<close>

datatype bay_route =
    GetState
  | GetDevices
  | PostLogin "gerr + string \<times> string \<times> string"
  | PostRegister "gerr + string \<times> string \<times> string \<times> string \<times> string"
  | PostLogout
  | PostScan "gerr + bool \<times> string \<times> int"
  | GetScanStatus
  | PostScanCancel
  | PostQuit
  | GetExplain string string string

fun bay_handler :: "'w bay_env \<Rightarrow> bay_route \<Rightarrow> 'w bay_thread" where
  "bay_handler B GetState = handle_state B"
| "bay_handler B GetDevices = handle_devices B"
| "bay_handler B (PostLogin body) = handle_login B body"
| "bay_handler B (PostRegister body) = handle_register B body"
| "bay_handler B PostLogout = handle_logout B"
| "bay_handler B (PostScan body) = handle_scan B body"
| "bay_handler B GetScanStatus = handle_scan_status B"
| "bay_handler B PostScanCancel = handle_scan_cancel B"
| "bay_handler B PostQuit = handle_quit B"
| "bay_handler B (GetExplain code vin narrative) = handle_explain B code vin narrative"

definition new_bay :: "'w bay_env \<Rightarrow> string \<Rightarrow> 'w \<Rightarrow> 'w bay" where
  "new_bay B url w = \<lparr>by_api = url, by_token = load_saved_token (be_files B) w, by_jobs = [], by_sent = [], by_world = w\<rparr>"

end
