(* ===== verification/BayProps.thy ===== *)
theory BayProps
  imports Bay
begin

text \<open>
  What holds of the bay server under any requests and any interleaving: one scan at a time, undisturbed by the
  other threads; bounded logs; honest uploads; and the end of every scan.
\<close>

section \<open>The result of a pass\<close>

lemma scan_link: "spec (\<lambda>_. True) (scan A) (\<lambda>r _. \<forall>x. r = Inr x \<longrightarrow> sr_link_type x = ad_link A)"
proof -
  have any: "spec P m (\<lambda>_ _. True)" for P m
    by (simp add: spec_def split: prod.split)
  have fin: "spec P (finish_scan A start info m ff ds) (\<lambda>r _. \<forall>x. r = Inr x \<longrightarrow> sr_link_type x = ad_link A)" for P start info m ff ds
    unfolding finish_scan_def Let_def
    by (rule spec_bind [OF any], rule spec_case_prod, rule spec_bind [OF any], rule spec_bind [OF any], rule spec_ret) simp
  have body: "spec P (scan_body A start) (\<lambda>r _. \<forall>x. r = Inr x \<longrightarrow> sr_link_type x = ad_link A)" for P start
    unfolding scan_body_def
    by (rule spec_bind [OF any] spec_case_sum spec_case_prod fin spec_ret | simp)+
  have rest: "spec P (do { r \<leftarrow> scan_body A start; ad_close A; ret r }) (\<lambda>r _. \<forall>x. r = Inr x \<longrightarrow> sr_link_type x = ad_link A)" for P start
    by (rule spec_bind [OF body], rule spec_bind_keeps, simp add: keeps_def spec_def split: prod.split, rule spec_ret, simp)
  show ?thesis
    unfolding scan_def
    by (rule spec_bind [OF any] spec_case_option rest spec_ret | simp)+
qed

lemma scan_result_link: "run_state (scan A) s = (Inr x, t) \<Longrightarrow> sr_link_type x = ad_link A"
proof -
  assume "run_state (scan A) s = (Inr x, t)"
  from specD [OF scan_link _ this] show ?thesis by simp
qed

lemma adapter_links [simp]: "ad_link (mock_adapter env) = LinkMock" "ad_link (usb_adapter env goos) = LinkUSB"
  by (simp_all add: mock_adapter_def usb_adapter_def)

text \<open>
  The codes of a pass have one of the three statuses, whatever the control unit sends, as long as Go's walk over its map
  gives entries of the map.
\<close>

definition walks_map :: "'w env \<Rightarrow> bool" where
  "walks_map env \<longleftrightarrow> (\<forall>xs. set (map_order env xs) \<subseteq> set xs)"

definition reported :: "dtc \<Rightarrow> bool" where
  "reported d \<longleftrightarrow> dtc_status d \<in> {DTCConfirmed, DTCPending, DTCPermanent}"

lemma scan_result_codes:
  assumes "run_state (scan A) s = (Inr x, t)"
  shows "\<exists>ds u. fst (run_state (ad_dtcs A) u) = Inr ds \<and> list_all2 filled ds (sr_dtcs x)"
  using specD [OF spec_scan [of "\<lambda>_. True"] _ assms] by (auto simp: good_result_def)

lemma reported_filled: "list_all2 filled ds ds' \<Longrightarrow> list_all reported ds \<Longrightarrow> list_all reported ds'"
  by (induction rule: list_all2_induct) (auto simp: filled_def reported_def)

lemma set_alist_update: "set (AList.update k v xs) \<subseteq> insert (k, v) (set xs)"
  by (induction xs) auto

lemma reported_see_codes:
  "reported (mk_dtc [] st) \<Longrightarrow> list_all (\<lambda>e. reported (snd e)) seen
   \<Longrightarrow> list_all (\<lambda>e. reported (snd e)) (foldl (see_code st) seen cs)"
proof (induction cs arbitrary: seen)
  case (Cons c cs)
  have "list_all (\<lambda>e. reported (snd e)) (see_code st seen c)"
    using Cons.prems set_alist_update [of c "mk_dtc c st" seen]
    by (fastforce simp: see_code_def list_all_iff reported_def mk_dtc_def split: option.split)
  then show ?case using Cons by simp
qed simp

lemma reported_sources:
  "list_all (\<lambda>src. reported (mk_dtc [] (snd src))) srcs \<Longrightarrow> list_all (\<lambda>e. reported (snd e)) seen
   \<Longrightarrow> list_all (\<lambda>e. reported (snd e)) (fst (run_state (read_sources env seen srcs) u))"
proof (induction srcs arbitrary: seen u)
  case (Cons src srcs)
  obtain cmd st where src: "src = (cmd, st)" by fastforce
  show ?case
    using Cons unfolding src run_read_sources_Cons by (auto simp: reported_see_codes split: prod.split)
qed simp

lemma usb_reported:
  assumes "walks_map env" and "fst (run_state (read_dtcs env goos) u) = Inr ds"
  shows "list_all reported ds"
proof -
  obtain v where ds: "ds = map snd (map_order env (fst (run_state (read_sources env [] dtc_sources) v)))"
    using assms(2) by (auto simp: read_dtcs_def split: prod.splits option.splits) (metis fst_conv)
  have "list_all (\<lambda>e. reported (snd e)) (fst (run_state (read_sources env [] dtc_sources) v))"
    by (rule reported_sources) (simp_all add: dtc_sources_def reported_def mk_dtc_def)
  then show ?thesis using assms(1) by (fastforce simp: ds walks_map_def list_all_iff)
qed

lemma usb_scan_reported: "walks_map env \<Longrightarrow> run_state (scan (usb_adapter env goos)) s = (Inr x, t) \<Longrightarrow> list_all reported (sr_dtcs x)"
  using scan_result_codes [of "usb_adapter env goos" s x t] usb_reported [of env goos] reported_filled
  by (auto simp: usb_adapter_def)

lemma mock_scan_reported: "run_state (scan (mock_adapter env)) s = (Inr x, t) \<Longrightarrow> list_all reported (sr_dtcs x)"
proof -
  assume "run_state (scan (mock_adapter env)) s = (Inr x, t)"
  then obtain ds u where ds: "fst (run_state (mock_dtcs env) u) = Inr ds" "list_all2 filled ds (sr_dtcs x)"
    using scan_result_codes [of "mock_adapter env" s x t] by (auto simp: mock_sels)
  have "list_all reported ds"
    using ds(1) by (auto simp: mock_dtcs_def list_all_iff reported_def split: prod.splits option.splits)
  then show ?thesis using ds(2) by (rule reported_filled [rotated])
qed

definition ad_link_of :: "bay_adapter \<Rightarrow> string" where
  "ad_link_of ad = (case ad of MockAdapter _ _ \<Rightarrow> LinkMock | UsbPort _ _ \<Rightarrow> LinkUSB)"

lemma adapter_pass_link: "adapter_pass B i ad w = (Inr x, msgs, w') \<Longrightarrow> sr_link_type x = ad_link_of ad"
proof (cases ad)
  case (MockAdapter vin codes)
  moreover assume "adapter_pass B i ad w = (Inr x, msgs, w')"
  ultimately obtain m where "run_state (scan (mock_adapter (job_env B i))) (new_mock_adapter vin codes w) = (Inr x, m)"
    by (auto simp: adapter_pass_def split: prod.splits)
  from scan_result_link [OF this] show ?thesis by (simp add: MockAdapter ad_link_of_def)
next
  case (UsbPort path bd)
  moreover assume "adapter_pass B i ad w = (Inr x, msgs, w')"
  ultimately obtain u v where "run_state (scan (usb_adapter (job_env B i) (be_goos B))) u = (Inr x, v)"
    by (auto simp: adapter_pass_def Let_def split: prod.splits)
  from scan_result_link [OF this] show ?thesis by (simp add: UsbPort ad_link_of_def)
qed

lemma adapter_pass_reported:
  assumes "walks_map (be_obd B)" and "adapter_pass B i ad w = (Inr x, msgs, w')"
  shows "list_all reported (sr_dtcs x)"
proof -
  have "walks_map (job_env B i)"
    using assms(1) by (simp add: walks_map_def job_env_def)
  with assms(2) show ?thesis
    by (auto simp: adapter_pass_def Let_def dest: mock_scan_reported usb_scan_reported split: bay_adapter.splits prod.splits)
qed

lemma build_adapter_mock: "build_adapter B mock device bd w = Inr ad \<Longrightarrow> (ad_link_of ad = LinkMock \<longleftrightarrow> mock)"
  by (auto simp: build_adapter_def ad_link_of_def Let_def LinkMock_def LinkUSB_def split: if_splits sum.splits)

section \<open>The invariant of the state\<close>

definition scan_job_ok :: "scan_job \<Rightarrow> bool" where
  "scan_job_ok j \<longleftrightarrow> length (jb_log j) \<le> 50 \<and> jb_done j = (\<not> jb_busy j)
     \<and> (jb_busy j \<longrightarrow> jb_result j = None \<and> jb_err j = [])"

definition honest :: "'v env \<Rightarrow> api_request \<Rightarrow> bool" where
  "honest E rq \<longleftrightarrow> (case rq_about rq of
     ScanBody r \<Rightarrow> vi_vin (sr_vehicle r) \<noteq> [] \<and> sr_link_type r \<in> {LinkUSB, LinkMock}
       \<and> (has_prefix (vi_vin (sr_vehicle r)) ''MOCK'' \<longrightarrow> sr_link_type r = LinkMock)
       \<and> (walks_map E \<longrightarrow> list_all reported (sr_dtcs r))
   | _ \<Rightarrow> True)"

definition bay_ok :: "'v env \<Rightarrow> 'w bay \<Rightarrow> bool" where
  "bay_ok E b \<longleftrightarrow> list_all scan_job_ok (by_jobs b) \<and> list_all (\<lambda>j. \<not> jb_busy j) (butlast (by_jobs b)) \<and> list_all (honest E) (by_sent b)"

text \<open>Changes outside the jobs and the requests sent, or to the words of a job.\<close>

lemma bay_ok_same: "bay_ok E b \<Longrightarrow> by_jobs c = by_jobs b \<Longrightarrow> by_sent c = by_sent b \<Longrightarrow> bay_ok E c"
  by (simp add: bay_ok_def)

lemma bay_ok_on_job:
  assumes "bay_ok E b" and "\<And>j. scan_job_ok j \<Longrightarrow> scan_job_ok (f j) \<and> (jb_busy (f j) \<longrightarrow> jb_busy j)"
  shows "bay_ok E (on_job i f b)"
proof (cases "i < length (by_jobs b)")
  case True
  have "list_all scan_job_ok ((by_jobs b)[i := f (by_jobs b ! i)])"
    using assms True by (auto simp: bay_ok_def list_all_length nth_list_update)
  moreover have "list_all (\<lambda>j. \<not> jb_busy j) (butlast ((by_jobs b)[i := f (by_jobs b ! i)]))"
    using assms True by (auto simp: bay_ok_def list_all_length nth_butlast nth_list_update)
  ultimately show ?thesis using assms(1) by (simp add: bay_ok_def on_job_def)
qed (use assms(1) in \<open>simp add: on_job_def list_update_beyond\<close>)

lemma note_job_ok: "scan_job_ok j \<Longrightarrow> scan_job_ok (note_job hms ph j) \<and> (jb_busy (note_job hms ph j) \<longrightarrow> jb_busy j)"
  by (simp add: scan_job_ok_def note_job_def Let_def)

lemma bay_ok_finish: "bay_ok E b \<Longrightarrow> bay_ok E (finish_job i res err b)"
  unfolding finish_job_def
  by (rule bay_ok_on_job) (auto simp: scan_job_ok_def split: option.splits)

section \<open>Every thread keeps it\<close>

abbreviation safe :: "'v env \<Rightarrow> 'w bay_thread \<Rightarrow> bool" where
  "safe E \<equiv> always (bay_ok E)"

named_theorems safe_intro \<open>threads that keep the invariant\<close>

declare always_Halt [safe_intro] always_Fork [safe_intro]

lemma safe_reads [safe_intro]: "(\<And>x. safe E (k x)) \<Longrightarrow> safe E (Act (do { x \<leftarrow> reads f; ret (k x) }))"
  by (rule always_reads)

lemma safe_reads2 [safe_intro]: "(\<And>x y. safe E (k x y)) \<Longrightarrow> safe E (Act (do { (x, y) \<leftarrow> reads f; ret (k x y) }))"
  by (rule always_Act) (auto split: prod.splits)

lemma safe_same:
  "(\<And>b. by_jobs (f b) = by_jobs b \<and> by_sent (f b) = by_sent b) \<Longrightarrow> safe E k \<Longrightarrow> safe E (Act (do { modify f; ret k }))"
  by (rule always_modify) (auto intro: bay_ok_same)

lemma safe_note [safe_intro]: "safe E k \<Longrightarrow> safe E (b_note B ph k)"
  unfolding b_note_def
  by (intro safe_reads) (auto split: option.split intro!: always_modify bay_ok_on_job note_job_ok)

lemma safe_stop [safe_intro]: "(\<And>c. safe E (k c)) \<Longrightarrow> safe E (stop_scan B k)"
  unfolding stop_scan_def
  by (intro safe_reads)
    (auto split: option.split intro!: safe_reads safe_note safe_same simp: cancel_job_def)

lemma safe_status [safe_intro]: "(\<And>st. safe E (k st)) \<Longrightarrow> safe E (job_status B k)"
  unfolding job_status_def by (intro safe_reads) (auto split: option.split intro!: safe_reads)

lemma safe_send: "honest E rq \<Longrightarrow> (\<And>r. safe E (k r)) \<Longrightarrow> safe E (Act (do { r \<leftarrow> send_request B rq; ret (k r) }))"
  by (rule always_Act) (auto simp: send_request_def bay_ok_def split: prod.splits)

lemma honest_new: "new_request B ctx meth path body base tok = Inr rq \<Longrightarrow> rq_about rq = body"
  by (auto simp: new_request_def Let_def split: sum.splits option.splits if_splits)

lemma safe_api:
  assumes "(case body of ScanBody r \<Rightarrow> vi_vin (sr_vehicle r) \<noteq> [] \<and> sr_link_type r \<in> {LinkUSB, LinkMock}
       \<and> (has_prefix (vi_vin (sr_vehicle r)) ''MOCK'' \<longrightarrow> sr_link_type r = LinkMock)
       \<and> (walks_map E \<longrightarrow> list_all reported (sr_dtcs r)) | _ \<Rightarrow> True)"
    and "\<And>r. safe E (k r)"
  shows "safe E (api_json B ctx meth path body k)"
  unfolding api_json_def
proof (rule safe_reads2)
  fix base tok
  show "safe E (case new_request B ctx meth path body base tok of Inl e \<Rightarrow> k (Inl e)
      | Inr rq \<Rightarrow> Act (do { r \<leftarrow> send_request B rq; ret (k (read_reply B base r)) }))"
  proof (cases "new_request B ctx meth path body base tok")
    case (Inr rq)
    then have "honest E rq" using assms(1) honest_new by (fastforce simp: honest_def)
    then show ?thesis using Inr assms(2) by (simp add: safe_send)
  qed (use assms(2) in simp)
qed

lemma safe_login [safe_intro]: "(\<And>r. safe E (k r)) \<Longrightarrow> safe E (bay_login B email password k)"
  unfolding bay_login_def by (rule safe_api) (auto simp: Let_def split: sum.split)

lemma safe_explain [safe_intro]: "(\<And>r. safe E (k r)) \<Longrightarrow> safe E (bay_explain B code vin nar k)"
  unfolding bay_explain_def by (rule safe_api) auto

lemma safe_finish [safe_intro]: "safe E (finish B i res err)"
  unfolding finish_def
  by (rule always_modify, erule bay_ok_finish, rule safe_same) (simp_all add: cancel_job_def always_Halt)

lemma safe_explain_all: "(\<And>exps. safe E (k exps)) \<Longrightarrow> safe E (explain_all B vin cs exps k)"
proof (induction cs arbitrary: exps)
  case (Cons c cs)
  then show ?case
    by (auto intro!: safe_note safe_explain always_Halt split: sum.split option.split)
qed simp

lemma safe_failed: "safe E (scan_failed B i e)"
  unfolding scan_failed_def by (intro safe_reads safe_note safe_finish)

lemma safe_uploaded: "safe E (scan_uploaded B i result r)"
  unfolding scan_uploaded_def by (auto intro!: safe_note safe_finish safe_explain_all split: sum.split)

lemma safe_passed:
  assumes "sr_link_type result = ad_link_of ad" and "ad_link_of ad = LinkMock \<longleftrightarrow> mock"
    and "walks_map E \<Longrightarrow> list_all reported (sr_dtcs result)"
  shows "safe E (scan_passed B i mock result)"
proof -
  have "sr_link_type result \<in> {LinkUSB, LinkMock}"
    using assms(1) by (simp add: ad_link_of_def split: bay_adapter.split)
  then show ?thesis
    using assms unfolding scan_passed_def Let_def upload_scan_def
    by (auto intro!: safe_note safe_finish safe_api safe_uploaded)
qed

lemma safe_notes: "safe E k \<Longrightarrow> safe E (foldr (b_note B) msgs k)"
  by (induction msgs) (simp_all add: safe_note)

lemma safe_run_scan:
  assumes "ad_link_of ad = LinkMock \<longleftrightarrow> mock"
  shows "safe (be_obd B) (run_scan B i ad mock)"
  unfolding run_scan_def
proof (rule always_Act)
  fix b t u
  assume ok: "bay_ok (be_obd B) b" and run: "run_state (State (\<lambda>b. case adapter_pass B i ad (by_world b) of
       (r, msgs, w) \<Rightarrow> (foldr (b_note B) msgs (case r of Inl e \<Rightarrow> scan_failed B i e | Inr result \<Rightarrow> scan_passed B i mock result),
          b\<lparr>by_world := w\<rparr>))) b = (t, u)"
  obtain r msgs w where pass: "adapter_pass B i ad (by_world b) = (r, msgs, w)" by (metis prod_cases3)
  show "bay_ok (be_obd B) u" using run pass ok by (auto intro: bay_ok_same)
  have "safe (be_obd B) (case r of Inl e \<Rightarrow> scan_failed B i e | Inr result \<Rightarrow> scan_passed B i mock result)"
    using adapter_pass_link [of B i ad "by_world b"] adapter_pass_reported [of B i ad "by_world b"] pass safe_passed [OF _ assms, of _ "be_obd B" B i]
    by (cases r) (simp_all add: safe_failed)
  then show "safe (be_obd B) t" using run pass by (auto intro: safe_notes)
qed

lemma safe_start:
  assumes "ad_link_of ad = LinkMock \<longleftrightarrow> mock"
  shows "safe (be_obd B) (Act (start_job B ad mock))"
proof (rule always_Act)
  fix b t u
  assume ok: "bay_ok (be_obd B) b" and run: "run_state (start_job B ad mock) b = (t, u)"
  show "bay_ok (be_obd B) u"
  proof (cases "by_jobs b" rule: rev_cases)
    case Nil
    then show ?thesis using ok run by (auto simp: start_job_def current_def bay_ok_def new_scan_job_def scan_job_ok_def)
  next
    case (snoc js j)
    then show ?thesis using ok run
      by (auto simp: start_job_def current_def bay_ok_def new_scan_job_def scan_job_ok_def butlast_append split: if_splits)
  qed
  show "safe (be_obd B) t" using run
    by (auto simp: start_job_def always_Halt intro!: always_Fork safe_run_scan [OF assms] split: if_splits)
qed

lemma safe_handle_scan: "safe (be_obd B) (handle_scan B body)"
proof -
  have "safe (be_obd B) (Act (do {
       a \<leftarrow> reads (\<lambda>b. build_adapter B mock device bd (by_world b));
       ret (case a of Inl e \<Rightarrow> bay_err 400 (err_text e) | Inr ad \<Rightarrow> Act (start_job B ad mock)) }))" for mock device bd
    by (rule always_reads) (auto intro: always_Halt safe_start dest: build_adapter_mock split: sum.split)
  then show ?thesis
    unfolding handle_scan_def by (auto split: sum.split intro!: safe_reads always_Halt)
qed

lemma safe_use_api: "safe E k \<Longrightarrow> safe E (use_api url k)"
  unfolding use_api_def by (auto intro: safe_same)

lemma safe_keep_token: "safe E k \<Longrightarrow> safe E (keep_token B tok k)"
  unfolding keep_token_def by (intro safe_same) auto

lemma safe_health: "safe E (health_check B url st)"
  unfolding health_check_def Let_def
  by (auto split: option.split intro!: always_Halt safe_send simp: honest_def)

lemma safe_handler: "safe (be_obd B) (bay_handler B rt)"
proof (cases rt)
  case GetState
  then show ?thesis
    by (auto simp: handle_state_def Let_def intro!: safe_reads safe_reads2 safe_status safe_api safe_health always_Halt)
next
  case GetDevices
  then show ?thesis by (auto simp: handle_devices_def split: sum.split intro!: safe_reads always_Halt)
next
  case (PostLogin body)
  then show ?thesis
    by (auto simp: handle_login_def split: sum.split intro!: safe_use_api safe_login safe_keep_token always_Halt)
next
  case (PostRegister body)
  then show ?thesis
    by (auto simp: handle_register_def Let_def split: sum.split intro!: safe_use_api safe_api safe_keep_token always_Halt)
next
  case PostLogout
  then show ?thesis by (auto simp: handle_logout_def intro!: safe_same always_Halt)
next
  case PostQuit
  then show ?thesis by (auto simp: handle_quit_def intro!: safe_stop always_Fork safe_same always_Halt)
next
  case (GetExplain code vin nar)
  then show ?thesis by (auto simp: handle_explain_def split: sum.split intro!: safe_explain always_Halt)
qed (auto simp: handle_scan_status_def handle_scan_cancel_def intro!: safe_handle_scan safe_status safe_stop always_Halt)

section \<open>Who scans\<close>

text \<open>The slot is the last job, while it is busy. A quiet step changes no more of a job than its words.\<close>

definition slots :: "'w bay \<Rightarrow> nat set" where
  "slots b = {i. current b = Some i \<and> jb_busy (by_jobs b ! i)}"

definition same_words :: "scan_job \<Rightarrow> scan_job \<Rightarrow> bool" where
  "same_words j k \<longleftrightarrow> k = j\<lparr>jb_phase := jb_phase k, jb_log := jb_log k\<rparr>"

definition bay_quiet :: "'w bay \<Rightarrow> 'w bay \<Rightarrow> bool" where
  "bay_quiet b c \<longleftrightarrow> list_all2 same_words (by_jobs b) (by_jobs c)"

definition bay_takes :: "nat \<Rightarrow> 'w bay \<Rightarrow> 'w bay \<Rightarrow> bool" where
  "bay_takes i b c \<longleftrightarrow> slots b = {} \<and> slots c = {i}"

definition bay_frees :: "nat \<Rightarrow> 'w bay \<Rightarrow> 'w bay \<Rightarrow> bool" where
  "bay_frees i b c \<longleftrightarrow> (\<exists>res err. c = finish_job i res err b)"

definition bay_drift :: "'w bay \<Rightarrow> 'w bay \<Rightarrow> bool" where
  "bay_drift b c \<longleftrightarrow> (\<exists>w. c = b\<lparr>by_world := w\<rparr>)"

definition bay_start :: "'w bay_env \<Rightarrow> 'w bay \<Rightarrow> bool" where
  "bay_start B b \<longleftrightarrow> (\<exists>url w. b = new_bay B url w)"

lemma same_words_refl [simp]: "same_words j j"
  by (simp add: same_words_def)

lemma quiet_same: "by_jobs c = by_jobs b \<Longrightarrow> bay_quiet b c"
  by (simp add: bay_quiet_def list_all2_same)

lemma same_words_note: "same_words j (note_job hms ph j)"
  by (simp add: same_words_def note_job_def Let_def)

lemma same_words_keeps: "same_words j k \<Longrightarrow> jb_busy k = jb_busy j \<and> jb_done k = jb_done j \<and> jb_err k = jb_err j \<and> jb_result k = jb_result j"
  unfolding same_words_def by (cases j, cases k) simp

lemma quiet_note: "bay_quiet b (on_job i (note_job hms ph) b)"
  unfolding bay_quiet_def on_job_def list_all2_conv_all_nth
proof (simp, intro allI impI)
  fix m assume "m < length (by_jobs b)"
  then show "same_words (by_jobs b ! m) ((by_jobs b)[i := note_job hms ph (by_jobs b ! i)] ! m)"
    by (cases "m = i") (simp_all add: same_words_note)
qed

lemma quiet_nth: "bay_quiet b c \<Longrightarrow> length (by_jobs c) = length (by_jobs b)
    \<and> (\<forall>i < length (by_jobs b). same_words (by_jobs b ! i) (by_jobs c ! i))"
  by (simp add: bay_quiet_def list_all2_conv_all_nth)

lemma quiet_slots: "bay_quiet b c \<Longrightarrow> slots c = slots b"
  using quiet_nth [of b c] same_words_keeps [of "by_jobs b ! (length (by_jobs b) - 1)" "by_jobs c ! (length (by_jobs b) - 1)"]
  by (cases "by_jobs b = []") (auto simp: slots_def current_def)

lemma slots_on_job:
  assumes "\<And>j. \<not> jb_busy (f j)"
  shows "slots (on_job i f b) = slots b - {i}"
proof (cases "i < length (by_jobs b)")
  case True
  have "jb_busy ((by_jobs b)[i := f (by_jobs b ! i)] ! m) \<longleftrightarrow> m \<noteq> i \<and> jb_busy (by_jobs b ! m)" for m
    using True assms by (cases "m = i") simp_all
  then show ?thesis by (auto simp: slots_def current_def on_job_def)
next
  case False
  then have "on_job i f b = b" by (simp add: on_job_def list_update_beyond)
  then show ?thesis using False by (auto simp: slots_def current_def split: if_splits)
qed

lemma frees_slots: "bay_frees i b c \<Longrightarrow> slots c = slots b - {i}"
  unfolding bay_frees_def finish_job_def by (auto intro!: slots_on_job split: option.splits)

abbreviation bay_plays :: "nat option \<Rightarrow> 'w bay_thread \<Rightarrow> bool" where
  "bay_plays \<equiv> plays bay_quiet bay_takes bay_frees (\<lambda>r. r = Panicked)"

lemma bp_reads: "(\<And>x. bay_plays h (k x)) \<Longrightarrow> bay_plays h (Act (do { x \<leftarrow> reads f; ret (k x) }))"
  by (rule plays_reads) (simp_all add: quiet_same)

lemma bp_reads2: "(\<And>x y. bay_plays h (k x y)) \<Longrightarrow> bay_plays h (Act (do { (x, y) \<leftarrow> reads f; ret (k x y) }))"
  by (cases h) (auto intro!: plays_free plays_held quiet_same split: prod.splits)

lemma bp_same: "(\<And>b. by_jobs (f b) = by_jobs b) \<Longrightarrow> bay_plays h k \<Longrightarrow> bay_plays h (Act (do { modify f; ret k }))"
  by (rule plays_modify) (simp_all add: quiet_same)

lemma bp_note: "bay_plays h k \<Longrightarrow> bay_plays h (b_note B ph k)"
  unfolding b_note_def by (intro bp_reads) (auto split: option.split intro!: plays_modify quiet_note)

lemma bp_send: "(\<And>r. bay_plays h (k r)) \<Longrightarrow> bay_plays h (Act (do { r \<leftarrow> send_request B rq; ret (k r) }))"
  by (cases h) (auto simp: send_request_def intro!: plays_free plays_held quiet_same split: prod.splits)

lemma bp_api: "(\<And>r. bay_plays h (k r)) \<Longrightarrow> bay_plays h (api_json B ctx meth path body k)"
  unfolding api_json_def by (intro bp_reads2) (auto split: sum.split intro!: bp_send)

lemma bp_explain: "(\<And>r. bay_plays h (k r)) \<Longrightarrow> bay_plays h (bay_explain B code vin nar k)"
  unfolding bay_explain_def by (rule bp_api)

lemma bp_stop: "(\<And>c. bay_plays h (k c)) \<Longrightarrow> bay_plays h (stop_scan B k)"
  unfolding stop_scan_def
  by (intro bp_reads) (auto split: option.split intro!: bp_reads bp_note bp_same simp: cancel_job_def)

lemma bp_status: "(\<And>st. bay_plays h (k st)) \<Longrightarrow> bay_plays h (job_status B k)"
  unfolding job_status_def by (intro bp_reads) (auto split: option.split intro!: bp_reads)

lemma bp_finish: "bay_plays (Some i) (finish B i res err)"
  unfolding finish_def
  by (rule plays_release, force simp: bay_frees_def, rule bp_same) (simp_all add: cancel_job_def plays_Halt)

lemma bp_explain_all: "(\<And>exps. bay_plays (Some i) (k exps)) \<Longrightarrow> bay_plays (Some i) (explain_all B vin cs exps k)"
proof (induction cs arbitrary: exps)
  case (Cons c cs)
  then show ?case by (auto intro!: bp_note bp_explain plays_dead split: sum.split option.split)
qed simp

lemma bp_notes: "bay_plays h k \<Longrightarrow> bay_plays h (foldr (b_note B) msgs k)"
  by (induction msgs) (simp_all add: bp_note)

lemma bp_scan_end:
  "bay_plays (Some i) (scan_failed B i e)" "bay_plays (Some i) (scan_passed B i mock result)"
  unfolding scan_failed_def scan_passed_def scan_uploaded_def upload_scan_def Let_def
  by (auto intro!: bp_reads bp_note bp_finish bp_api bp_explain_all split: sum.split)

lemma bp_run_scan: "bay_plays (Some i) (run_scan (B :: 'a bay_env) i ad mock)"
  unfolding run_scan_def
proof (rule plays_held, rule disjI1)
  fix b :: "'a bay" and t u
  assume run: "run_state (State (\<lambda>b. case adapter_pass B i ad (by_world b) of
       (r, msgs, w) \<Rightarrow> (foldr (b_note B) msgs (case r of Inl e \<Rightarrow> scan_failed B i e | Inr result \<Rightarrow> scan_passed B i mock result),
          b\<lparr>by_world := w\<rparr>))) b = (t, u)"
  obtain r msgs w where pass: "adapter_pass B i ad (by_world b) = (r, msgs, w)" by (metis prod_cases3)
  show "bay_quiet b u \<and> bay_plays (Some i) t"
    using run pass by (auto intro!: quiet_same bp_notes bp_scan_end split: sum.split)
qed

lemma bp_start: "bay_plays None (Act (start_job (B :: 'a bay_env) ad mock))"
proof (rule plays_free)
  fix b :: "'a bay" and t u
  assume run: "run_state (start_job B ad mock) b = (t, u)"
  show "(bay_quiet b u \<and> bay_plays None t) \<or> (\<exists>i. bay_takes i b u \<and> bay_plays (Some i) t)"
  proof (cases "slots b = {}")
    case True
    then have "\<not> (case current b of None \<Rightarrow> False | Some i \<Rightarrow> jb_busy (by_jobs b ! i))"
      by (auto simp: slots_def split: option.splits)
    then have t: "t = Fork (run_scan B (length (by_jobs b)) ad mock) (Halt (Replied 202 (BStarted 50000)))"
      "u = b\<lparr>by_jobs := by_jobs b @ [new_scan_job B (by_world b)]\<rparr>"
      using run by (auto simp: start_job_def)
    have "bay_takes (length (by_jobs b)) b u"
      using True t(2) by (auto simp: bay_takes_def slots_def current_def new_scan_job_def)
    moreover have "bay_plays (Some (length (by_jobs b))) t"
      unfolding t(1) by (intro plays_pass bp_run_scan plays_Halt)
    ultimately show ?thesis by blast
  next
    case False
    then have "(case current b of None \<Rightarrow> False | Some i \<Rightarrow> jb_busy (by_jobs b ! i))"
      by (auto simp: slots_def)
    then show ?thesis using run by (auto simp: start_job_def intro: quiet_same plays_Halt)
  qed
qed

lemma bp_use_api: "bay_plays h k \<Longrightarrow> bay_plays h (use_api url k)"
  unfolding use_api_def by (auto intro: bp_same)

lemma bp_keep_token: "bay_plays h k \<Longrightarrow> bay_plays h (keep_token B tok k)"
  unfolding keep_token_def by (intro bp_same) auto

lemma bp_handler: "bay_plays None (bay_handler B rt)"
proof (cases rt)
  case GetState
  have "bay_plays None (health_check B url st)" for url st
    unfolding health_check_def Let_def by (auto split: option.split intro!: plays_Halt bp_send)
  then show ?thesis using GetState
    by (auto simp: handle_state_def Let_def intro!: bp_reads bp_reads2 bp_status bp_api plays_Halt)
next
  case (PostLogin body)
  then show ?thesis
    by (auto simp: handle_login_def bay_login_def Let_def split: sum.split intro!: bp_use_api bp_api bp_keep_token plays_Halt)
next
  case (PostRegister body)
  then show ?thesis
    by (auto simp: handle_register_def Let_def split: sum.split intro!: bp_use_api bp_api bp_keep_token plays_Halt)
next
  case (GetExplain code vin nar)
  then show ?thesis by (auto simp: handle_explain_def split: sum.split intro!: bp_explain plays_Halt)
qed (auto simp: handle_devices_def handle_logout_def handle_quit_def handle_scan_def handle_scan_status_def
      handle_scan_cancel_def split: sum.split intro!: bp_reads bp_same bp_status bp_stop bp_start plays_Fork plays_Halt)

text \<open>The two contracts of a pool, for the bay server.\<close>

abbreviation bay_reach :: "'w bay_env \<Rightarrow> 'w bay_thread list \<Rightarrow> 'w bay \<Rightarrow> bool" where
  "bay_reach B \<equiv> pool_reach (bay_start B) (range (bay_handler B)) bay_drift"

interpretation bay_inv: pool_invariant "bay_start B" "range (bay_handler B)" bay_drift "bay_ok (be_obd B)" for B :: "'w bay_env"
  by unfold_locales
    (auto simp: bay_start_def new_bay_def bay_ok_def bay_drift_def intro: safe_handler bay_ok_same)

lemma start_slots: "bay_start B b \<Longrightarrow> slots b = {}"
  by (auto simp: bay_start_def new_bay_def slots_def current_def)

lemma drift_slots: "bay_drift b c \<Longrightarrow> slots c = slots b"
  by (auto simp: bay_drift_def slots_def current_def)

lemma takes_slots: "bay_takes i b c \<Longrightarrow> slots b = {} \<and> slots c = {i}"
  by (simp add: bay_takes_def)

lemma bp_handlers: "t \<in> range (bay_handler B) \<Longrightarrow> bay_plays None t"
  using bp_handler by blast

interpretation bay_slot: slot_pool "bay_start B" "range (bay_handler B)" bay_drift bay_quiet bay_takes bay_frees
    "\<lambda>r. r = Panicked" slots for B :: "'w bay_env"
  by unfold_locales (fact start_slots bp_handlers drift_slots quiet_slots takes_slots frees_slots)+

section \<open>The end of a scan\<close>

definition pending :: "nat \<Rightarrow> 'w bay \<Rightarrow> bool" where
  "pending i b \<longleftrightarrow> i < length (by_jobs b) \<and> jb_busy (by_jobs b ! i) \<and> jb_err (by_jobs b ! i) = [] \<and> jb_result (by_jobs b ! i) = None"

definition over :: "nat \<Rightarrow> 'w bay \<Rightarrow> bool" where
  "over i b \<longleftrightarrow> i < length (by_jobs b) \<and> \<not> jb_busy (by_jobs b ! i) \<and> jb_done (by_jobs b ! i)
     \<and> (jb_err (by_jobs b ! i) = [] \<or> jb_result (by_jobs b ! i) = None)"

text \<open>How a scan may end: its job is over, or the program died on an explanation that was null.\<close>

definition scan_end :: "'w bay_env \<Rightarrow> nat \<Rightarrow> bay_reply \<Rightarrow> 'w bay \<Rightarrow> bool" where
  "scan_end B i r b \<longleftrightarrow> (r = NoReply \<and> over i b) \<or> (r = Panicked \<and> pending i b \<and> (\<exists>raw. be_decode B raw = Inr None))"

lemma pending_quiet: "bay_quiet b c \<Longrightarrow> pending i b \<Longrightarrow> pending i c"
  using quiet_nth [of b c] same_words_keeps [of "by_jobs b ! i" "by_jobs c ! i"] by (auto simp: pending_def)

lemma over_quiet: "bay_quiet b c \<Longrightarrow> over i b \<Longrightarrow> over i c"
  using quiet_nth [of b c] same_words_keeps [of "by_jobs b ! i" "by_jobs c ! i"] by (auto simp: over_def)

lemma over_finish: "pending i b \<Longrightarrow> err = None \<or> res = None \<Longrightarrow> over i (finish_job i res err b)"
  by (auto simp: pending_def over_def finish_job_def on_job_def split: option.splits)

definition scan_ends :: "'w bay_env \<Rightarrow> nat \<Rightarrow> 'w bay_thread \<Rightarrow> bool" where
  "scan_ends B i t \<longleftrightarrow> (\<forall>b. pending i b \<longrightarrow> ends bay_quiet (scan_end B i) t b)"

lemma scan_endsD: "scan_ends B i t \<Longrightarrow> pending i b \<Longrightarrow> ends bay_quiet (scan_end B i) t b"
  by (simp add: scan_ends_def)

text \<open>A section that is quiet itself.\<close>

lemma se_Act:
  assumes "\<And>b t u. run_state m b = (t, u) \<Longrightarrow> bay_quiet b u \<and> scan_ends B i t"
  shows "scan_ends B i (Act m)"
  unfolding scan_ends_def
proof (intro allI impI ends_Act)
  fix b c t u
  assume "pending i b" "bay_quiet b c" "run_state m c = (t, u)"
  then show "ends bay_quiet (scan_end B i) t u"
    using assms pending_quiet scan_endsD by metis
qed

lemma se_reads: "(\<And>x. scan_ends B i (k x)) \<Longrightarrow> scan_ends B i (Act (do { x \<leftarrow> reads f; ret (k x) }))"
  by (rule se_Act) (auto simp: quiet_same)

lemma se_reads2: "(\<And>x y. scan_ends B i (k x y)) \<Longrightarrow> scan_ends B i (Act (do { (x, y) \<leftarrow> reads f; ret (k x y) }))"
  by (rule se_Act) (auto simp: quiet_same split: prod.splits)

lemma se_modify: "(\<And>b. bay_quiet b (f b)) \<Longrightarrow> scan_ends B i k \<Longrightarrow> scan_ends B i (Act (do { modify f; ret k }))"
  by (rule se_Act) auto

lemma se_send: "(\<And>r. scan_ends B i (k r)) \<Longrightarrow> scan_ends B i (Act (do { r \<leftarrow> send_request B rq; ret (k r) }))"
  by (rule se_Act) (auto simp: send_request_def quiet_same split: prod.splits)

lemma se_note: "scan_ends B i k \<Longrightarrow> scan_ends B i (b_note B ph k)"
  unfolding b_note_def by (rule se_reads) (simp split: option.split add: se_modify quiet_note)

lemma se_api:
  assumes "\<And>r. r = Inr None \<Longrightarrow> \<exists>raw. be_decode B raw = Inr None \<Longrightarrow> scan_ends B i (k r)"
    and "\<And>r. r \<noteq> Inr None \<Longrightarrow> scan_ends B i (k r)"
  shows "scan_ends B i (api_json B ctx meth path body k)"
proof -
  have "scan_ends B i (k (read_reply B base r))" for base r
    using assms by (cases "read_reply B base r = Inr None")
      (auto simp: read_reply_def Let_def split: sum.splits prod.splits if_splits)
  then show ?thesis
    unfolding api_json_def using assms(2) by (intro se_reads2) (simp add: se_send split: sum.split)
qed

lemma se_finish: "err = None \<or> res = None \<Longrightarrow> scan_ends B i (finish B i res err)"
  unfolding finish_def scan_ends_def
proof (intro allI impI ends_modify)
  fix b c e :: "'a bay"
  assume ok: "err = None \<or> res = None" and "pending i b" "bay_quiet b c" "bay_quiet (finish_job i res err c) e"
  then have "over i e" using over_finish [OF pending_quiet ok] over_quiet by metis
  then have "over i (cancel_job B i e)" by (simp add: over_def cancel_job_def)
  then show "ends bay_quiet (scan_end B i) (Halt NoReply) (cancel_job B i e)"
    by (auto intro: ends_Halt simp: scan_end_def)
qed

lemma se_explain_all: "(\<And>exps. scan_ends B i (k exps)) \<Longrightarrow> scan_ends B i (explain_all B vin cs exps k)"
proof (induction cs arbitrary: exps)
  case (Cons c cs)
  have "scan_ends B i (Halt Panicked)" if "\<exists>raw. be_decode B raw = Inr None"
    using that by (auto intro!: ends_Halt simp: scan_end_def scan_ends_def)
  then show ?case
    unfolding explain_all.simps bay_explain_def
    using Cons by (intro se_note se_api) (auto split: sum.split option.split)
qed simp

lemma se_uploaded: "scan_ends B i (scan_uploaded B i result r)"
  unfolding scan_uploaded_def by (auto split: sum.split intro!: se_note se_finish se_explain_all)

lemma se_failed: "scan_ends B i (scan_failed B i e)"
  unfolding scan_failed_def by (auto intro!: se_reads se_note se_finish)

lemma se_passed: "scan_ends B i (scan_passed B i mock result)"
  unfolding scan_passed_def upload_scan_def Let_def by (auto intro!: se_note se_finish se_api se_uploaded)

lemma se_notes: "scan_ends B i k \<Longrightarrow> scan_ends B i (foldr (b_note B) msgs k)"
  by (induction msgs) (simp_all add: se_note)

lemma se_run_scan: "scan_ends B i (run_scan B i ad mock)"
  unfolding run_scan_def
  by (rule se_Act) (auto simp: quiet_same intro!: se_notes se_failed se_passed split: prod.splits sum.split)

section \<open>A bay for examples\<close>

text \<open>No device, a clock that stands still, and an API that answers every request with one text.\<close>

definition plain_files :: "nat files" where
  "plain_files = \<lparr>user_config_dir = Inr ''/home/shop/.config'', temp_dir = ''/tmp'', mkdir_all = (\<lambda>_ w. (None, w)),
     write_path = (\<lambda>_ _ w. (None, w)), read_path = (\<lambda>_ _. Inr ''old''), remove_path = (\<lambda>_ w. w)\<rparr>"

definition plain_bay :: "nat \<Rightarrow> nat bay_env" where
  "plain_bay status = \<lparr>be_obd = bench (\<lambda>_. ''STOPPED>''), be_goos = ''linux'', be_devices = (\<lambda>_. Inr []), be_ctx = (\<lambda>_ _. None),
     be_cancel = (\<lambda>_ w. w), be_now = (\<lambda>w. w), be_hms = (\<lambda>_. ''09:00:00''), be_marshal = (\<lambda>_. Inr ''{}''),
     be_new_request = (\<lambda>_. None), be_do = (\<lambda>_ w. (Inr (status, ''{}''), w)), be_decode = (\<lambda>_. Inr (Some [])),
     be_error_field = (\<lambda>_. Some ''denied''), be_path_escape = id, be_query_escape = id, be_files = plain_files,
     be_shutdown = id\<rparr>"

definition busy_pool :: "nat bay_thread list \<times> nat bay" where
  "busy_pool = run_sched [0, 0, 0] ([bay_handler (plain_bay 200) (PostScan (Inr (True, [], 0)))], new_bay (plain_bay 200) ''http://api'' 0)"

lemma busy_pool_reached: "bay_reach (plain_bay 200) (fst busy_pool) (snd busy_pool)"
proof -
  let ?B = "plain_bay 200"
  have "bay_reach ?B [] (new_bay ?B ''http://api'' 0)"
    by (rule pool_reach.start) (auto simp: bay_start_def)
  from pool_reach.arrive [OF this rangeI [of "bay_handler ?B" "PostScan (Inr (True, [], 0))"]]
  have "bay_reach ?B [bay_handler ?B (PostScan (Inr (True, [], 0)))] (new_bay ?B ''http://api'' 0)" by simp
  then show ?thesis
    by (rule pool_reach_sched) (simp add: busy_pool_def)
qed

lemma trim_old: "trim_space ''old'' = ''old''"
  by code_simp

lemma busy_pool_eq:
  "busy_pool = ([Fork (run_scan (plain_bay 200) 0 (MockAdapter ''MOCKTESTVIN000001'' [''P0300'', ''P0171'']) True)
      (Halt (Replied 202 (BStarted 50000)))],
     (new_bay (plain_bay 200) ''http://api'' 0)\<lparr>by_jobs := [new_scan_job (plain_bay 200) 0]\<rparr>)"
  by (simp add: busy_pool_def run_sched_def pool_step_def handle_scan_def new_bay_def load_saved_token_def plain_bay_def
      plain_files_def build_adapter_def start_job_def current_def trim_old)

section \<open>Properties\<close>

text \<open>
  C7. In the bay there is one scan at a time: whatever requests come and however their threads interleave, at most the last job is
  busy, a job is done exactly when it is not busy, a busy one has neither a result nor an error, and no log is longer than 50 lines.
\<close>
theorem bay_one_scan:
  assumes "bay_reach B ts b"
  shows "list_all (\<lambda>j. \<not> jb_busy j) (butlast (by_jobs b)) \<and> list_all scan_job_ok (by_jobs b)"
  using bay_inv.reach_inv [OF assms] by (simp add: bay_ok_def)

theorem bay_one_scan_witness:
  "length (by_jobs (snd busy_pool)) = 1 \<and> list_all scan_job_ok (by_jobs (snd busy_pool))"
  using bay_one_scan [OF busy_pool_reached] by (simp add: busy_pool_eq)

text \<open>
  C24. What the bay uploads is honest: every scan it sends has a VIN, comes over USB or from the mock, one with a VIN that starts with MOCK
  comes from the mock adapter, and its codes are stored, pending or permanent ones (as Go's walk over a map gives entries of it), in every state that any requests reach.
\<close>
theorem bay_uploads_honest:
  assumes "bay_reach B ts b"
  shows "list_all (honest (be_obd B)) (by_sent b)"
  using bay_inv.reach_inv [OF assms] by (simp add: bay_ok_def)

theorem bay_uploads_honest_witness:
  "by_sent (snd busy_pool) = [] \<and> list_all (honest (be_obd (plain_bay 200))) (by_sent (snd busy_pool))"
  using bay_uploads_honest [OF busy_pool_reached] by (simp add: busy_pool_eq new_bay_def)

text \<open>
  C9. Nobody disturbs a scan: while the last job is busy there is one thread that alone may end it. A turn of any other thread, a request to scan or
  to cancel included, leaves that thread as it is, makes no new job, and changes of a job its phase and log only.
\<close>
theorem bay_scan_undisturbed:
  assumes "bay_reach B ts b" and "by_jobs b \<noteq> []" and "jb_busy (last (by_jobs b))"
  shows "\<exists>n < length ts. list_all (\<lambda>m. m = n \<or> (case pool_step m (ts, b) of (us, c) \<Rightarrow> us ! n = ts ! n \<and> bay_quiet b c)) [0..<length ts]"
proof -
  have "slots b \<noteq> {}"
    using assms(2,3) by (auto simp: slots_def current_def last_conv_nth)
  then obtain n i where t: "bay_slot.taken n i ts b"
    using bay_slot.reach_account [OF assms(1)] by (auto simp: bay_slot.idle_def)
  then have "n < length ts" by (simp add: bay_slot.taken_def)
  moreover have "us ! n = ts ! n \<and> bay_quiet b c" if "m \<noteq> n" "pool_step m (ts, b) = (us, c)" for m us c
    using bay_slot.taken_other [OF t that(2,1)] quiet_same by metis
  ultimately show ?thesis by (fastforce simp: list_all_iff split: prod.splits)
qed

theorem bay_scan_undisturbed_witness:
  "\<exists>n < length (fst busy_pool). list_all (\<lambda>m. m = n \<or> (case pool_step m (fst busy_pool, snd busy_pool) of
     (us, c) \<Rightarrow> us ! n = fst busy_pool ! n \<and> bay_quiet (snd busy_pool) c)) [0..<length (fst busy_pool)]"
  using bay_scan_undisturbed [OF busy_pool_reached] by (simp add: busy_pool_eq new_scan_job_def new_bay_def)




definition offline_bay :: "nat bay_env" where
  "offline_bay = (plain_bay 200)\<lparr>be_do := (\<lambda>_ w. (Inl (Msg ''connection refused''), w))\<rparr>"


end
