(* ===== verification/ObdCtl.thy ===== *)
theory ObdCtl
  imports BayProps
begin

text \<open>
  The command line client \<^verbatim>\<open>cmd/obdctl/main.go\<close>: sign in, scan, check the VIN, upload, explain. It runs alone, so it is an action; a
  call of \<^verbatim>\<open>fatal\<close> is the result \<open>Some e\<close>. The flags are the result of \<^verbatim>\<open>flag.Parse\<close>; HTTP, JSON and the files are
  parameters, and lines of output that print a decoded value keep the value.
\<close>

section \<open>Flags and state\<close>

record ctl_flags =
  fl_mock :: bool
  fl_device :: string
  fl_baud :: int
  fl_list :: bool
  fl_vin :: string
  fl_codes :: string
  fl_api :: string
  fl_email :: string
  fl_password :: string
  fl_token :: string
  fl_login :: bool
  fl_no_upload :: bool
  fl_allow_vin :: bool

definition default_flags :: "(string \<Rightarrow> string) \<Rightarrow> ctl_flags" where
  "default_flags getenv = \<lparr>fl_mock = False, fl_device = [], fl_baud = 38400, fl_list = False, fl_vin = [],
     fl_codes = ''P0300,P0171'', fl_api = env_or getenv ''API_URL'' ''http://localhost:8080'',
     fl_email = env_or getenv ''AUTOSERVICE_EMAIL'' [], fl_password = env_or getenv ''AUTOSERVICE_PASSWORD'' [],
     fl_token = [], fl_login = False, fl_no_upload = False, fl_allow_vin = False\<rparr>"

datatype ctl_line = OutLine string | OutScan scan_result | ErrLine string | ErrUploaded "gval option" | ErrExplained "any_map option"

record 'w ctl =
  ct_lines :: "ctl_line list"
  ct_sent :: "api_request list"
  ct_world :: 'w

record 'w ctl_env =
  ce_obd :: "'w env"
  ce_goos :: string
  ce_devices :: "'w \<Rightarrow> gerr + string list"
  ce_encode :: "scan_result \<Rightarrow> gerr option"
  ce_marshal :: "api_body \<Rightarrow> gerr + string"
  ce_new_request :: "string \<Rightarrow> gerr option"
  ce_do :: "api_request \<Rightarrow> 'w \<Rightarrow> (gerr + nat \<times> string) \<times> 'w"
  ce_decode :: "string \<Rightarrow> gerr + any_map option"
  ce_token_of :: "string \<Rightarrow> gerr + string"
  ce_files :: "'w files"

definition say :: "ctl_line \<Rightarrow> ('w ctl, unit) state" where
  "say l = modify (\<lambda>s. s\<lparr>ct_lines := ct_lines s @ [l]\<rparr>)"

definition ctl_send :: "'w ctl_env \<Rightarrow> api_request \<Rightarrow> ('w ctl, gerr + nat \<times> string) state" where
  "ctl_send C rq = State (\<lambda>s. case ce_do C rq (ct_world s) of
     (r, w) \<Rightarrow> (r, s\<lparr>ct_world := w, ct_sent := ct_sent s @ [rq]\<rparr>))"

section \<open>The API\<close>

definition ctl_request :: "string \<Rightarrow> string \<Rightarrow> string option \<Rightarrow> api_body \<Rightarrow> string \<Rightarrow> api_request" where
  "ctl_request meth url auth about raw =
     \<lparr>rq_ctx = None, rq_method = meth, rq_url = url, rq_auth = auth, rq_about = about, rq_content = raw\<rparr>"

definition api_login :: "'w ctl_env \<Rightarrow> string \<Rightarrow> string \<Rightarrow> string \<Rightarrow> ('w ctl, gerr + string) state" where
  "api_login C base email password =
     (let body = FieldsBody [(''email'', email), (''password'', password)];
          raw = (case ce_marshal C body of Inl _ \<Rightarrow> [] | Inr t \<Rightarrow> t);
          url = trim_right_char (CHR ''/'') base @ ''/v1/auth/login''
      in case ce_new_request C url of
           Some e \<Rightarrow> ret (Inl e)
         | None \<Rightarrow> do {
             r \<leftarrow> ctl_send C (ctl_request ''POST'' url None body raw);
             ret (case r of
                    Inl e \<Rightarrow> Inl (Wrapped (''API unreachable at '' @ base @ '': '') e [])
                  | Inr (status, reply) \<Rightarrow>
                      if status \<ge> 300 then Inl (Msg (''login failed ('' @ show_nat status @ ''): '' @ reply))
                      else (case ce_token_of C reply of
                              Inl _ \<Rightarrow> Inl (Msg ''login response missing token'')
                            | Inr tok \<Rightarrow> if tok = [] then Inl (Msg ''login response missing token'') else Inr tok))
           })"

definition ctl_upload :: "'w ctl_env \<Rightarrow> string \<Rightarrow> string \<Rightarrow> scan_result \<Rightarrow> ('w ctl, gerr + any_map option) state" where
  "ctl_upload C base token result =
     (case ce_marshal C (ScanBody result) of
        Inl e \<Rightarrow> ret (Inl e)
      | Inr raw \<Rightarrow>
          (let url = trim_right_char (CHR ''/'') base @ ''/v1/scans''
           in case ce_new_request C url of
                Some e \<Rightarrow> ret (Inl e)
              | None \<Rightarrow> do {
                  r \<leftarrow> ctl_send C (ctl_request ''POST'' url (Some (''Bearer '' @ token)) (ScanBody result) raw);
                  ret (case r of
                         Inl e \<Rightarrow> Inl (Wrapped (''API unreachable at '' @ base @ '': '') e [])
                       | Inr (status, reply) \<Rightarrow>
                           if status \<ge> 300 then Inl (Msg (''upload failed ('' @ show_nat status @ ''): '' @ reply))
                           else ce_decode C reply)
                }))"

text \<open>The code and the VIN go into the address as they are.\<close>

definition ctl_explain :: "'w ctl_env \<Rightarrow> string \<Rightarrow> string \<Rightarrow> string \<Rightarrow> string \<Rightarrow> ('w ctl, gerr + any_map option) state" where
  "ctl_explain C base token code vin =
     (let url = trim_right_char (CHR ''/'') base @ ''/v1/codes/'' @ code @ ''/explain?vin='' @ vin
      in case ce_new_request C url of
           Some e \<Rightarrow> ret (Inl e)
         | None \<Rightarrow> do {
             r \<leftarrow> ctl_send C (ctl_request ''GET'' url (Some (''Bearer '' @ token)) NoBody []);
             ret (case r of
                    Inl e \<Rightarrow> Inl e
                  | Inr (status, reply) \<Rightarrow> if status \<ge> 300 then Inl (Msg reply) else ce_decode C reply)
           })"

section \<open>The parts of the program\<close>

definition ctl_ports :: "'w ctl_env \<Rightarrow> 'w \<Rightarrow> gerr + serial_port list" where
  "ctl_ports C w = list_serial_ports (ce_obd C) (ce_goos C) (ce_devices C w)"

definition list_devices :: "'w ctl_env \<Rightarrow> ('w ctl, gerr option) state" where
  "list_devices C = do {
     r \<leftarrow> reads (\<lambda>s. ctl_ports C (ct_world s));
     case r of
       Inl e \<Rightarrow> ret (Some e)
     | Inr [] \<Rightarrow> do { say (OutLine ''No /dev/ttyUSB* or /dev/ttyACM* devices found.''); ret None }
     | Inr ps \<Rightarrow> do { modify (\<lambda>s. s\<lparr>ct_lines := ct_lines s @ map (\<lambda>p. OutLine (display_label p)) ps\<rparr>); ret None }
   }"

text \<open>The bearer token, and whether the program is done after the login.\<close>

definition sign_in :: "'w ctl_env \<Rightarrow> ctl_flags \<Rightarrow> ('w ctl, gerr + string \<times> bool) state" where
  "sign_in C fl = do {
     saved \<leftarrow> reads (\<lambda>s. load_saved_token (ce_files C) (ct_world s));
     let given = trim_space (fl_token fl);
         bearer = (if given = [] then saved else given)
     in if \<not> (fl_login fl \<or> bearer = []) then ret (Inr (bearer, False))
        else if fl_email fl = [] \<or> fl_password fl = []
        then ret (Inl (Msg ''login required: pass --email/--password (or AUTOSERVICE_EMAIL/PASSWORD), or --token''))
        else do {
          r \<leftarrow> api_login C (fl_api fl) (fl_email fl) (fl_password fl);
          case r of
            Inl e \<Rightarrow> ret (Inl e)
          | Inr tok \<Rightarrow> do {
              e \<leftarrow> State (\<lambda>s. case save_token (ce_files C) tok (ct_world s) of (e, w) \<Rightarrow> (e, s\<lparr>ct_world := w\<rparr>));
              (case e of Some x \<Rightarrow> say (ErrLine (''warning: could not save token: '' @ err_text x)) | None \<Rightarrow> ret ());
              say (ErrLine (''logged in; token saved to '' @ token_path (ce_files C)));
              ret (Inr (tok, fl_login fl))
            }
        }
   }"

text \<open>The first port that is not a J2534 device.\<close>

fun pick_port :: "serial_port list \<Rightarrow> string" where
  "pick_port [] = []"
| "pick_port (p # ps) = (if sp_kind p = KindJ2534OpenPort then pick_port ps else sp_path p)"

definition mock_vin :: "bool \<Rightarrow> string \<Rightarrow> string" where
  "mock_vin allow vin = (if vin \<noteq> [] \<and> allow then vin else ''MOCKTESTVIN000001'')"

definition choose_adapter :: "'w ctl_env \<Rightarrow> ctl_flags \<Rightarrow> ('w ctl, gerr + bay_adapter) state" where
  "choose_adapter C fl =
     (if fl_mock fl then do {
        (if fl_vin fl \<noteq> [] \<and> fl_allow_vin fl then say (ErrLine (''warning: mock scan using overridden VIN '' @ fl_vin fl))
         else if fl_vin fl \<noteq> []
         then say (ErrLine ''note: ignoring --vin on --mock (use --allow-vin-override to force); VIN will be MOCKTESTVIN000001'')
         else ret ());
        ret (Inr (MockAdapter (mock_vin (fl_allow_vin fl) (fl_vin fl)) (split_csv (fl_codes fl))))
      }
      else if fl_device fl = [] then do {
        r \<leftarrow> reads (\<lambda>s. ctl_ports C (ct_world s));
        case r of
          Inl e \<Rightarrow> ret (Inl e)
        | Inr ports \<Rightarrow>
            if ports = [] then ret (Inl (Msg ''no USB serial device found; pass --device or use --mock''))
            else if pick_port ports = [] then ret (Inl J2534Unsupported)
            else do {
              say (ErrLine (''using device '' @ pick_port ports));
              ret (Inr (UsbPort (pick_port ports) (fl_baud fl)))
            }
      }
      else
        let info = inspect_serial_port (ce_obd C) (ce_goos C) (fl_device fl)
        in if sp_kind info = KindJ2534OpenPort
           then ret (Inl (Wrapped [] J2534Unsupported ('' ('' @ display_label info @ '')'')))
           else ret (Inr (UsbPort (fl_device fl) (fl_baud fl))))"

definition ctl_pass :: "'w ctl_env \<Rightarrow> bay_adapter \<Rightarrow> ('w ctl, gerr + scan_result) state" where
  "ctl_pass C ad = State (\<lambda>s.
     case ad of
       MockAdapter vin codes \<Rightarrow>
         (case run_state (scan (mock_adapter (ce_obd C))) (new_mock_adapter vin codes (ct_world s)) of
            (r, m) \<Rightarrow> (r, s\<lparr>ct_world := m_world m\<rparr>))
     | UsbPort path bd \<Rightarrow>
         (case run_state (scan (usb_adapter (ce_obd C) (ce_goos C))) ((new_usb_adapter path (ct_world s))\<lparr>baud := bd\<rparr>) of
            (r, u) \<Rightarrow> (r, s\<lparr>ct_world := world u\<rparr>)))"

text \<open>
  The rules for the VIN: from the flag and what the control unit said to what the program goes on with, and the VIN that it warns to have
  overridden.
\<close>

definition vin_policy :: "bool \<Rightarrow> bool \<Rightarrow> string \<Rightarrow> string \<Rightarrow> string option \<times> (gerr + string)" where
  "vin_policy mock allow vin ecu =
     (if vin \<noteq> [] \<and> ecu = [] \<and> \<not> mock \<and> \<not> allow
      then (None, Inl (Msg ''ECU did not return a VIN; fix OBD link or pass --allow-vin-override (not for hardware validation)''))
      else
        let v1 = (if vin \<noteq> [] \<and> ecu = [] then vin else ecu);
            differs = (vin \<noteq> [] \<and> v1 \<noteq> [] \<and> vin \<noteq> v1)
        in if differs \<and> \<not> allow
           then (None, Inl (Msg (''ECU VIN '' @ v1 @ '' differs from --vin '' @ vin
                                 @ ''; omit --vin to trust the ECU, or pass --allow-vin-override'')))
           else
             let v2 = (if differs then vin else v1);
                 old = (if differs then Some v1 else None)
             in if v2 = []
                then (old, Inl (Msg ''VIN missing from ECU; for mock use --mock (gets MOCKTESTVIN000001), for hardware fix the adapter link''))
                else if has_prefix v2 ''MOCK'' \<and> \<not> mock then (old, Inl (Msg ''refusing mock VIN on a non-mock adapter''))
                else (old, Inr v2))"

definition with_vin :: "string \<Rightarrow> scan_result \<Rightarrow> scan_result" where
  "with_vin v r = r\<lparr>sr_vehicle := (sr_vehicle r)\<lparr>vi_vin := v\<rparr>\<rparr>"

fun ctl_explain_all :: "'w ctl_env \<Rightarrow> string \<Rightarrow> string \<Rightarrow> string \<Rightarrow> string list \<Rightarrow> ('w ctl, unit) state" where
  "ctl_explain_all C base token vin [] = ret ()"
| "ctl_explain_all C base token vin (c # cs) = do {
     r \<leftarrow> ctl_explain C base token c vin;
     (case r of
        Inl e \<Rightarrow> say (ErrLine (''explain '' @ c @ '' : '' @ err_text e))
      | Inr m \<Rightarrow> do { say (ErrLine (''--- explain '' @ c @ '' ---'')); say (ErrExplained m) });
     ctl_explain_all C base token vin cs
   }"

text \<open>From the result of the scan to the end.\<close>

definition deliver :: "'w ctl_env \<Rightarrow> ctl_flags \<Rightarrow> string \<Rightarrow> scan_result \<Rightarrow> ('w ctl, gerr option) state" where
  "deliver C fl bearer result0 =
     (case vin_policy (fl_mock fl) (fl_allow_vin fl) (fl_vin fl) (vi_vin (sr_vehicle result0)) of
        (old, checked) \<Rightarrow> do {
          (case old of None \<Rightarrow> ret () | Some o' \<Rightarrow> say (ErrLine (''warning: overriding ECU VIN '' @ o' @ '' with '' @ fl_vin fl)));
          case checked of
            Inl e \<Rightarrow> ret (Some e)
          | Inr v \<Rightarrow>
              (let result = with_vin v result0
               in case ce_encode C result of
                    Some e \<Rightarrow> ret (Some e)
                  | None \<Rightarrow> do {
                      say (OutScan result);
                      if fl_no_upload fl then do {
                        say (ErrLine ''warning: --no-upload set; scan was not persisted to API'');
                        ret None
                      }
                      else do {
                        r \<leftarrow> ctl_upload C (fl_api fl) bearer result;
                        case r of
                          Inl e \<Rightarrow> ret (Some e)
                        | Inr rec \<Rightarrow> do {
                            say (ErrUploaded (field rec ''id''));
                            ctl_explain_all C (fl_api fl) bearer v (map dtc_code (sr_dtcs result));
                            ret None
                          }
                      }
                    })
        })"

definition obdctl :: "'w ctl_env \<Rightarrow> ctl_flags \<Rightarrow> ('w ctl, gerr option) state" where
  "obdctl C fl =
     (if fl_list fl then list_devices C
      else if trim_space (fl_api fl) = [] then ret (Some (Msg ''--api / API_URL is required''))
      else do {
        s \<leftarrow> sign_in C fl;
        case s of
          Inl e \<Rightarrow> ret (Some e)
        | Inr (bearer, only_login) \<Rightarrow>
            if only_login then ret None
            else do {
              a \<leftarrow> choose_adapter C fl;
              case a of
                Inl e \<Rightarrow> ret (Some e)
              | Inr ad \<Rightarrow> do {
                  r \<leftarrow> ctl_pass C ad;
                  case r of Inl e \<Rightarrow> ret (Some e) | Inr result \<Rightarrow> deliver C fl bearer result
                }
            }
      })"

section \<open>Lemmas\<close>

text \<open>What the program has sent, as an invariant in the calculus of actions.\<close>

definition sent_ok :: "(api_request \<Rightarrow> bool) \<Rightarrow> 'w ctl \<Rightarrow> bool" where
  "sent_ok P s \<longleftrightarrow> list_all P (ct_sent s)"

lemma sent_say: "keeps (sent_ok P) (say l)"
  unfolding say_def by (rule keeps_modify) (simp add: sent_ok_def)

lemma sent_send: "P rq \<Longrightarrow> keeps (sent_ok P) (ctl_send C rq)"
  by (auto simp: keeps_def spec_def ctl_send_def sent_ok_def split: prod.splits)

lemma sent_state: "(\<And>s. ct_sent (snd (f s)) = ct_sent s) \<Longrightarrow> keeps (sent_ok P) (State f)"
  by (auto simp: keeps_def spec_def sent_ok_def split: prod.splits) (metis snd_conv)

lemmas sent_intro = keeps_bind keeps_ret keeps_reads keeps_if keeps_case_option keeps_case_sum keeps_case_prod keeps_let sent_say

definition ctl_honest :: "'v env \<Rightarrow> bool \<Rightarrow> api_request \<Rightarrow> bool" where
  "ctl_honest E mock rq \<longleftrightarrow> (case rq_about rq of
     ScanBody r \<Rightarrow> rq_auth rq \<noteq> None \<and> vi_vin (sr_vehicle r) \<noteq> [] \<and> (has_prefix (vi_vin (sr_vehicle r)) ''MOCK'' \<longrightarrow> mock)
       \<and> sr_link_type r = (if mock then LinkMock else LinkUSB) \<and> (walks_map E \<longrightarrow> list_all reported (sr_dtcs r))
   | _ \<Rightarrow> rq_auth rq = None \<longrightarrow> rq_method rq = ''POST'')"

lemma policy_vin: "vin_policy mock allow vin ecu = (old, Inr v) \<Longrightarrow> v \<noteq> [] \<and> (has_prefix v ''MOCK'' \<longrightarrow> mock)"
  by (auto simp: vin_policy_def Let_def split: if_splits)

lemma sent_login: "keeps (sent_ok (ctl_honest E mock)) (api_login C base email pw)"
  unfolding api_login_def Let_def
  by (auto simp: ctl_honest_def ctl_request_def intro!: sent_intro sent_send split: option.split)

lemma sent_upload:
  "vi_vin (sr_vehicle r) \<noteq> [] \<Longrightarrow> (has_prefix (vi_vin (sr_vehicle r)) ''MOCK'' \<longrightarrow> mock)
   \<Longrightarrow> sr_link_type r = (if mock then LinkMock else LinkUSB) \<Longrightarrow> (walks_map E \<Longrightarrow> list_all reported (sr_dtcs r))
   \<Longrightarrow> keeps (sent_ok (ctl_honest E mock)) (ctl_upload C base tok r)"
  unfolding ctl_upload_def Let_def
  by (auto simp: ctl_honest_def ctl_request_def intro!: sent_intro sent_send split: option.split sum.split)

lemma sent_explain: "keeps (sent_ok (ctl_honest E mock)) (ctl_explain C base tok code vin)"
  unfolding ctl_explain_def Let_def
  by (auto simp: ctl_honest_def ctl_request_def intro!: sent_intro sent_send split: option.split)

lemma sent_explain_all: "keeps (sent_ok (ctl_honest E mock)) (ctl_explain_all C base tok vin cs)"
  by (induction cs) (auto intro!: sent_intro sent_explain split: sum.split)

lemma sent_deliver:
  assumes "sr_link_type r = (if fl_mock fl then LinkMock else LinkUSB)" and "walks_map (ce_obd C) \<Longrightarrow> list_all reported (sr_dtcs r)"
  shows "keeps (sent_ok (ctl_honest (ce_obd C) (fl_mock fl))) (deliver C fl bearer r)"
proof (cases "vin_policy (fl_mock fl) (fl_allow_vin fl) (fl_vin fl) (vi_vin (sr_vehicle r))")
  case (Pair old checked)
  have "keeps (sent_ok (ctl_honest (ce_obd C) (fl_mock fl))) (ctl_upload C base tok (with_vin v r))" if "checked = Inr v" for v base tok
    using policy_vin [of "fl_mock fl" "fl_allow_vin fl" "fl_vin fl" "vi_vin (sr_vehicle r)" old v] Pair that assms by (auto simp: with_vin_def intro!: sent_upload)
  then show ?thesis
    unfolding deliver_def Pair Let_def
    by (auto intro!: sent_intro sent_explain_all split: option.split sum.split)
qed

lemma sent_sign_in: "keeps (sent_ok (ctl_honest E mock)) (sign_in C fl)"
  unfolding sign_in_def Let_def
  by (auto intro!: sent_intro sent_login sent_state split: option.split sum.split prod.split)

lemma sent_choose: "keeps (sent_ok P) (choose_adapter C fl)"
  unfolding choose_adapter_def Let_def by (auto intro!: sent_intro split: sum.split)

lemma choose_link: "run_state (choose_adapter C fl) s = (Inr ad, t) \<Longrightarrow> ad_link_of ad = (if fl_mock fl then LinkMock else LinkUSB)"
  by (auto simp: choose_adapter_def ad_link_of_def Let_def say_def split: if_splits sum.splits)

lemma pass_link: "run_state (ctl_pass C ad) s = (Inr r, t) \<Longrightarrow> sr_link_type r = ad_link_of ad"
  by (cases ad) (auto simp: ctl_pass_def ad_link_of_def dest: scan_result_link split: prod.splits)

lemma pass_reported: "walks_map (ce_obd C) \<Longrightarrow> run_state (ctl_pass C ad) s = (Inr r, t) \<Longrightarrow> list_all reported (sr_dtcs r)"
  by (cases ad) (auto simp: ctl_pass_def dest: mock_scan_reported usb_scan_reported split: prod.splits)

lemma sent_pass: "keeps (sent_ok P) (ctl_pass C ad)"
  unfolding ctl_pass_def by (rule sent_state) (auto split: bay_adapter.split prod.splits)

lemma sent_list: "keeps (sent_ok P) (list_devices C)"
  unfolding list_devices_def
  by (intro keeps_bind keeps_reads) (auto intro!: sent_intro keeps_modify simp: sent_ok_def split: sum.split list.split)

lemma sent_obdctl: "keeps (sent_ok (ctl_honest (ce_obd C) (fl_mock fl))) (obdctl C fl)"
proof -
  let ?P = "sent_ok (ctl_honest (ce_obd C) (fl_mock fl)) :: 'a ctl \<Rightarrow> bool"
  let ?R = "\<lambda>ad x. sr_link_type x = ad_link_of ad \<and> (walks_map (ce_obd C) \<longrightarrow> list_all reported (sr_dtcs x))"
  have after: "keeps ?P (do { r \<leftarrow> ctl_pass C ad; case r of Inl e \<Rightarrow> ret (Some e) | Inr result \<Rightarrow> deliver C fl bearer result })"
    if "ad_link_of ad = (if fl_mock fl then LinkMock else LinkUSB)" for ad bearer
  proof (rule keepsI, rule spec_bind [where R = "\<lambda>r s. ?P s \<and> (\<forall>x. r = Inr x \<longrightarrow> ?R ad x)"])
    show "spec ?P (ctl_pass C ad) (\<lambda>r s. ?P s \<and> (\<forall>x. r = Inr x \<longrightarrow> ?R ad x))"
      using sent_pass [of "ctl_honest (ce_obd C) (fl_mock fl)" C ad] pass_link pass_reported by (fastforce simp: keeps_def spec_def split: prod.splits)
    show "spec (\<lambda>s. ?P s \<and> (\<forall>x. r = Inr x \<longrightarrow> ?R ad x))
       (case r of Inl e \<Rightarrow> ret (Some e) | Inr result \<Rightarrow> deliver C fl bearer result) (\<lambda>_. ?P)" for r
      using sent_deliver [of _ fl C bearer] that by (cases r) (auto simp: keeps_def spec_def)
  qed
  have chosen: "keeps ?P (do { a \<leftarrow> choose_adapter C fl; case a of Inl e \<Rightarrow> ret (Some e)
      | Inr ad \<Rightarrow> do { r \<leftarrow> ctl_pass C ad; case r of Inl e \<Rightarrow> ret (Some e) | Inr result \<Rightarrow> deliver C fl bearer result } })" for bearer
  proof (rule keepsI, rule spec_bind [where R = "\<lambda>r s. ?P s \<and> (\<forall>x. r = Inr x \<longrightarrow> ad_link_of x = (if fl_mock fl then LinkMock else LinkUSB))"])
    show "spec ?P (choose_adapter C fl) (\<lambda>r s. ?P s \<and> (\<forall>x. r = Inr x \<longrightarrow> ad_link_of x = (if fl_mock fl then LinkMock else LinkUSB)))"
      using sent_choose [of "ctl_honest (ce_obd C) (fl_mock fl)" C fl] choose_link by (fastforce simp: keeps_def spec_def split: prod.splits)
    show "spec (\<lambda>s. ?P s \<and> (\<forall>x. a = Inr x \<longrightarrow> ad_link_of x = (if fl_mock fl then LinkMock else LinkUSB)))
       (case a of Inl e \<Rightarrow> ret (Some e)
        | Inr ad \<Rightarrow> do { r \<leftarrow> ctl_pass C ad; case r of Inl e \<Rightarrow> ret (Some e) | Inr result \<Rightarrow> deliver C fl bearer result }) (\<lambda>_. ?P)" for a
      using after by (cases a) (auto simp: keeps_def spec_def)
  qed
  show ?thesis
    unfolding obdctl_def by (intro sent_intro sent_list sent_sign_in chosen)
qed

lemma pick_port_find:
  "pick_port ps = (case find (\<lambda>p. sp_kind p \<noteq> KindJ2534OpenPort) ps of None \<Rightarrow> [] | Some p \<Rightarrow> sp_path p)"
  by (induction ps) auto

section \<open>Properties\<close>

text \<open>
  C26. The VIN that is delivered follows the rules: the flag counts only when there is nothing to contradict it or the override is allowed, an empty VIN never
  passes, and one that starts with MOCK passes only for the mock adapter. In every other case the program ends with an error.
\<close>
theorem vin_policy_correct:
  "snd (vin_policy mock allow vin ecu) = Inr v \<longleftrightarrow>
     v = (if vin = [] \<or> vin = ecu then ecu else vin) \<and> v \<noteq> [] \<and> (mock \<or> \<not> has_prefix v ''MOCK'')
     \<and> (vin = [] \<or> vin = ecu \<or> allow \<or> (mock \<and> ecu = []))"
  unfolding vin_policy_def Let_def by auto

theorem vin_policy_correct_witness:
  "snd (vin_policy False True ''JTD'' ''WDB'') = Inr ''JTD'' \<and> snd (vin_policy False False ''JTD'' ''WDB'') \<noteq> Inr ''JTD''"
  using vin_policy_correct [of False True "''JTD''" "''WDB''" "''JTD''"] vin_policy_correct [of False False "''JTD''" "''WDB''" "''JTD''"]
  by (simp add: has_prefix_def)

text \<open>
  C25. Whatever the flags, the devices and the API do, \<^verbatim>\<open>obdctl\<close> sends only scans with a VIN, with the link type of the adapter that was asked
  for, with stored, pending or permanent codes only (as Go's walk over a map gives entries of it), and a VIN that starts with MOCK only from the mock
  adapter; and every request but the login carries a token.
\<close>
theorem obdctl_uploads_honest:
  assumes "ct_sent s = []"
  shows "list_all (ctl_honest (ce_obd C) (fl_mock fl)) (ct_sent (snd (run_state (obdctl C fl) s)))"
  using keepsD [OF sent_obdctl, of C fl s] assms by (simp add: sent_ok_def)

text \<open>
  The two programs agree on the device: where the bay server finds a port with a path, \<^verbatim>\<open>obdctl\<close> takes the same one, and where it finds none,
  \<^verbatim>\<open>obdctl\<close> stops as well.
\<close>
theorem ports_agree:
  assumes "list_all (\<lambda>p. sp_path p \<noteq> []) ports"
  shows "first_elm_path ports = Inr q \<longleftrightarrow> pick_port ports = q \<and> q \<noteq> []"
proof -
  have path: "sp_path p \<noteq> []" if "find (\<lambda>p. sp_kind p \<noteq> KindJ2534OpenPort) ports = Some p" for p
    using assms find_SomeD [OF that] by (auto simp: list_all_iff)
  have "first_elm_path ports = Inr q \<longleftrightarrow>
      (\<exists>p. find (\<lambda>p. sp_kind p \<noteq> KindJ2534OpenPort) ports = Some p \<and> sp_path p = q)"
    by (cases "ports = []") (simp_all add: first_elm_path_def first_elm_loop_Inr)
  then show ?thesis using path by (auto simp: pick_port_find split: option.splits)
qed

text \<open>A shop with an adapter on one port and an API that takes everything.\<close>

definition plain_ctl :: "nat ctl_env" where
  "plain_ctl = \<lparr>ce_obd = bench (\<lambda>_. ''STOPPED>''), ce_goos = ''linux'', ce_devices = (\<lambda>_. Inr []), ce_encode = (\<lambda>_. None),
     ce_marshal = (\<lambda>_. Inr ''{}''), ce_new_request = (\<lambda>_. None), ce_do = (\<lambda>_ w. (Inr (200, ''{}''), w)),
     ce_decode = (\<lambda>_. Inr (Some [])), ce_token_of = (\<lambda>_. Inr ''t''), ce_files = plain_files\<rparr>"

definition elm_port :: serial_port where
  "elm_port = \<lparr>sp_path = ''/dev/ttyUSB0'', sp_kind = KindELMCandidate, sp_vid = [], sp_pid = [], sp_manufacturer = [],
     sp_product = [], sp_label = []\<rparr>"

theorem obdctl_uploads_honest_witness:
  "list_all (ctl_honest (ce_obd plain_ctl) True) (ct_sent (snd (run_state
     (obdctl plain_ctl ((default_flags (\<lambda>_. []))\<lparr>fl_mock := True\<rparr>)) \<lparr>ct_lines = [], ct_sent = [], ct_world = 0\<rparr>)))"
  using obdctl_uploads_honest [of "\<lparr>ct_lines = [], ct_sent = [], ct_world = 0\<rparr>" plain_ctl "(default_flags (\<lambda>_. []))\<lparr>fl_mock := True\<rparr>"]
  by (simp add: default_flags_def)

theorem ports_agree_witness:
  "first_elm_path [elm_port\<lparr>sp_kind := KindJ2534OpenPort\<rparr>, elm_port] = Inr ''/dev/ttyUSB0''"
  using ports_agree [of "[elm_port\<lparr>sp_kind := KindJ2534OpenPort\<rparr>, elm_port]" "''/dev/ttyUSB0''"]
  by (simp add: elm_port_def)

text \<open>
  A VIN flag on a mock scan is not ignored, as the note that is printed says: the scan comes back with the mock's VIN, the two differ, and the program ends
  with an error before it has printed or sent anything of the scan.
\<close>
theorem mock_vin_flag_fatal:
  assumes "fl_mock fl" and "\<not> fl_allow_vin fl" and "fl_vin fl \<notin> {[], ''MOCKTESTVIN000001''}"
    and "vi_vin (sr_vehicle r) = mock_vin (fl_allow_vin fl) (fl_vin fl)"
  shows "\<exists>e. run_state (deliver C fl bearer r) s = (Some e, s)"
  using assms by (simp add: deliver_def vin_policy_def mock_vin_def)

definition some_scan :: "string \<Rightarrow> scan_result" where
  "some_scan vin = \<lparr>sr_link_type = LinkMock, sr_adapter_name = [], sr_protocol = [],
     sr_vehicle = \<lparr>vi_vin = vin, vi_ecu = [], vi_proto = []\<rparr>, sr_dtcs = [], sr_obs = None, sr_scanned_at = 0, sr_duration = 0\<rparr>"

theorem mock_vin_flag_fatal_witness:
  "\<exists>e. run_state (deliver plain_ctl ((default_flags (\<lambda>_. []))\<lparr>fl_mock := True, fl_vin := ''JTD''\<rparr>) [] (some_scan ''MOCKTESTVIN000001''))
     \<lparr>ct_lines = [], ct_sent = [], ct_world = 0\<rparr> = (Some e, \<lparr>ct_lines = [], ct_sent = [], ct_world = 0\<rparr>)"
  by (rule mock_vin_flag_fatal) (simp_all add: default_flags_def some_scan_def mock_vin_def)

end
