(* ===== verification/Launch.thy ===== *)
theory Launch
  imports Bay
begin

text \<open>
  The start of the bay server (\<^verbatim>\<open>main\<close> of \<^verbatim>\<open>cmd/bayui/main.go\<close>): take the address, or show the page of the server that has it already;
  and the search for a program that opens a browser. Looking up and starting a program and listening on an address are parameters.
  Also the log file (\<^verbatim>\<open>setupLog\<close>) and the static page (\<^verbatim>\<open>serveIndex\<close> of \<^verbatim>\<open>cmd/bayui/server.go\<close>), whose embedded text is an argument.
\<close>

record launcher =
  la_goos :: string
  la_look_path :: "string \<Rightarrow> bool"
  la_start :: "string \<Rightarrow> string list \<Rightarrow> gerr option"

definition browser_cands :: "string \<Rightarrow> string \<Rightarrow> (string \<times> string list) list" where
  "browser_cands goos url =
     (if goos = ''windows'' then [(''cmd'', [''/c'', ''start'', [], url])]
      else if goos = ''darwin'' then [(''open'', [url])]
      else [(''xdg-open'', [url]), (''gio'', [''open'', url]), (''firefox'', [url]), (''google-chrome'', [url]), (''chromium'', [url])])"

text \<open>The loop over the candidates: the last error so far, and what was opened.\<close>

fun try_browsers :: "launcher \<Rightarrow> gerr option \<Rightarrow> (string \<times> string list) list \<Rightarrow> gerr + string" where
  "try_browsers L last_err [] = Inl (case last_err of None \<Rightarrow> Msg ''no browser opener found'' | Some e \<Rightarrow> e)"
| "try_browsers L last_err ((name, args) # cs) =
     (if \<not> la_look_path L name then try_browsers L last_err cs
      else case la_start L name args of Some e \<Rightarrow> try_browsers L (Some e) cs | None \<Rightarrow> Inr name)"

definition open_browser :: "launcher \<Rightarrow> string \<Rightarrow> gerr + string" where
  "open_browser L url = try_browsers L None (browser_cands (la_goos L) url)"

text \<open>\<open>EAddrInUse\<close> is the error that \<^verbatim>\<open>errors.Is\<close> finds as \<^verbatim>\<open>syscall.EADDRINUSE\<close>.\<close>

datatype listen_error = EAddrInUse string | ListenError string

fun listen_text :: "listen_error \<Rightarrow> string" where
  "listen_text (EAddrInUse s) = s"
| "listen_text (ListenError s) = s"

definition addr_in_use :: "listen_error \<Rightarrow> bool" where
  "addr_in_use e =
     (case e of EAddrInUse _ \<Rightarrow> True | ListenError s \<Rightarrow> contains s ''address already in use'')"

datatype launch = Serving "string list" | AlreadyRunning "string list" | LaunchFatal string

definition browser_line :: "launcher \<Rightarrow> string \<Rightarrow> string list" where
  "browser_line L url =
     (case open_browser L url of
        Inl e \<Rightarrow> [''open browser: '' @ err_text e @ '' '' @ em_dash @ '' visit '' @ url]
      | Inr name \<Rightarrow> [''opened '' @ url @ '' via '' @ name])"

definition launch_bay :: "launcher \<Rightarrow> string \<Rightarrow> string \<Rightarrow> bool \<Rightarrow> listen_error option \<Rightarrow> launch" where
  "launch_bay L addr api open_it listened =
     (let url = ''http://'' @ addr @ ''/''
      in case listened of
           Some e \<Rightarrow>
             if addr_in_use e
             then AlreadyRunning ((''already running on '' @ url @ '' '' @ em_dash @ '' opening the browser'')
                    # (if open_it then browser_line L url else []))
             else LaunchFatal (listen_text e)
         | None \<Rightarrow> Serving ([''MechMind bay UI on '' @ url @ '' (USB stays in this process; browser is display only)'',
                            ''API target '' @ api] @ (if open_it then browser_line L url else [])))"

text \<open>A browser is opened by the first candidate that is there and starts.\<close>

lemma try_browsers_find:
  "try_browsers L e cs = Inr name \<longleftrightarrow>
     (\<exists>args. find (\<lambda>(n, as). la_look_path L n \<and> la_start L n as = None) cs = Some (name, args))"
  by (induction cs arbitrary: e) (auto split: option.splits if_splits)

section \<open>The log file and the page\<close>

text \<open>The file that the log goes to beside standard error, if there is one; opening it to append creates it.\<close>

definition setup_log :: "'w files \<Rightarrow> (string \<Rightarrow> 'w \<Rightarrow> gerr option \<times> 'w) \<Rightarrow> 'w \<Rightarrow> string option \<times> 'w" where
  "setup_log F open_append w =
     (case user_config_dir F of
        Inl _ \<Rightarrow> (None, w)
      | Inr d \<Rightarrow>
          (case mkdir_all F (d @ ''/mechmind'') w of
             (Some _, w') \<Rightarrow> (None, w')
           | (None, w') \<Rightarrow>
               (case open_append (d @ ''/mechmind/bayui.log'') w' of
                  (Some _, w'') \<Rightarrow> (None, w'')
                | (None, w'') \<Rightarrow> (Some (d @ ''/mechmind/bayui.log''), w''))))"

datatype static_reply = PlainError nat string | HtmlPage string

definition serve_index :: "gerr + string \<Rightarrow> string \<Rightarrow> static_reply" where
  "serve_index embedded path =
     (if path \<noteq> ''/'' then PlainError 404 ''404 page not found''
      else case embedded of Inl e \<Rightarrow> PlainError 500 (err_text e) | Inr raw \<Rightarrow> HtmlPage raw)"

text \<open>The log and the saved token lie in the same directory, unless there is no directory for the configuration: then there is no log.\<close>

lemma log_beside_token: "fst (setup_log F open_append w) = Some p \<Longrightarrow> p = token_dir F @ ''/bayui.log''"
  by (auto simp: setup_log_def token_dir_def split: sum.splits prod.splits option.splits)

end
