(* ===== verification/EndToEnd.thy ===== *)
theory EndToEnd
  imports Api ObdCtl
begin

text \<open>
  The programs of the shop and the server together: the scan that \<^verbatim>\<open>obdctl\<close> or the bay server uploads, as
  \<^verbatim>\<open>createScan\<close> of \<^verbatim>\<open>internal/api/server.go\<close> takes it in and \<^verbatim>\<open>getScan\<close> gives it out. The
  network and the JSON of the body are between them: \<open>carries\<close> says what the decoder has to deliver.
\<close>

section \<open>The body on its way\<close>

text \<open>The fields that both clients fill from the result, and what the server reads of them; frames and observations may be written differently.\<close>

definition code_and_status :: "dtc \<Rightarrow> string \<times> string" where
  "code_and_status d = (dtc_code d, dtc_status d)"

definition carries :: "scan_result \<Rightarrow> scan_request \<Rightarrow> bool" where
  "carries r b \<longleftrightarrow> cr_vin b = vi_vin (sr_vehicle r) \<and> cr_link b = sr_link_type r \<and> cr_adapter b = sr_adapter_name r
     \<and> cr_protocol b = sr_protocol r \<and> map code_and_status (cr_dtcs b) = map code_and_status (sr_dtcs r)"

text \<open>The body as it is when nothing is lost.\<close>

definition request_of :: "scan_result \<Rightarrow> scan_request" where
  "request_of r = \<lparr>cr_vin = vi_vin (sr_vehicle r), cr_link = sr_link_type r, cr_adapter = sr_adapter_name r,
     cr_protocol = sr_protocol r, cr_notes = [], cr_dtcs = sr_dtcs r, cr_obs = sr_obs r\<rparr>"

lemma carries_request_of: "carries r (request_of r)"
  by (simp add: carries_def request_of_def)

text \<open>What the schema asks of a scan that comes in.\<close>

definition sendable :: "scan_result \<Rightarrow> bool" where
  "sendable r \<longleftrightarrow> vi_vin (sr_vehicle r) \<noteq> [] \<and> sr_link_type r \<in> {LinkUSB, LinkMock} \<and> list_all reported (sr_dtcs r)"

lemma ctl_sendable: "ctl_honest E mock rq \<Longrightarrow> walks_map E \<Longrightarrow> rq_about rq = ScanBody r \<Longrightarrow> sendable r"
  by (auto simp: ctl_honest_def sendable_def)

lemma bay_sendable: "honest E rq \<Longrightarrow> walks_map E \<Longrightarrow> rq_about rq = ScanBody r \<Longrightarrow> sendable r"
  by (auto simp: honest_def sendable_def)

lemma carried_codes:
  assumes "carries r b" and "list_all reported (sr_dtcs r)"
  shows "list_all reported (cr_dtcs b)"
    and "map code_and_status (read_back (cr_dtcs b)) = sort_key fst (map code_and_status (sr_dtcs r))"
proof -
  have statuses: "map dtc_status (cr_dtcs b) = map dtc_status (sr_dtcs r)"
    using arg_cong [of _ _ "map snd", OF assms(1) [unfolded carries_def, THEN conjunct2, THEN conjunct2, THEN conjunct2, THEN conjunct2]]
    by (simp add: comp_def code_and_status_def)
  have "set (map dtc_status (cr_dtcs b)) \<subseteq> {DTCConfirmed, DTCPending, DTCPermanent}"
    unfolding statuses using assms(2) by (auto simp: list_all_iff reported_def)
  then show rep: "list_all reported (cr_dtcs b)"
    by (auto simp: list_all_iff reported_def)
  have same: "code_and_status (c\<lparr>dtc_status := stored_status (dtc_status c), dtc_desc := describe_code (dtc_code c)\<rparr>) = code_and_status c"
    if "c \<in> set (cr_dtcs b)" for c
    using rep that by (auto simp: list_all_iff reported_def code_and_status_def stored_status_def obd_consts)
  have "map code_and_status (read_back (cr_dtcs b)) = map code_and_status (sort_key dtc_code (cr_dtcs b))"
    using same by (simp add: read_back_def)
  also have "\<dots> = sort_key fst (map code_and_status (cr_dtcs b))"
    using map_sort_key [of code_and_status fst "cr_dtcs b"] by (simp add: code_and_status_def)
  finally show "map code_and_status (read_back (cr_dtcs b)) = sort_key fst (map code_and_status (sr_dtcs r))"
    using assms(1) by (simp add: carries_def)
qed

lemma reported_accepted:
  "list_all reported cs \<Longrightarrow> list_all (\<lambda>c. stored_status (dtc_status c) \<in> {''pending'', ''confirmed'', ''permanent'', ''cleared''}) cs"
  by (auto simp: list_all_iff reported_def stored_status_def obd_consts)

section \<open>At the server\<close>

text \<open>The claims of a technician of a shop, both in the database.\<close>

definition works_at :: "'w api_env \<Rightarrow> db \<Rightarrow> claims \<Rightarrow> uuid \<Rightarrow> uuid \<Rightarrow> bool" where
  "works_at A d c tech org \<longleftrightarrow> cl_tech c = ae_show A tech \<and> cl_org c = ae_show A org
     \<and> tech \<in> set (map t_id (techs d)) \<and> org \<in> set (map o_id (orgs d))"

lemma get_scan_same: "same_scans d d' \<Longrightarrow> fst (run_state (get_scan i) d') = fst (run_state (get_scan i) d)"
proof -
  assume same: "same_scans d d'"
  then have "Scans.with_vin d' = Scans.with_vin d" "scan_of d' = scan_of d"
    by (simp_all add: same_scans_def Scans.with_vin_def scan_of_def list_dtcs_def fun_eq_iff)
  then show ?thesis using same by (simp add: get_scan_def same_scans_def cong: list.case_cong prod.case_cong)
qed

lemma vin_decode_same:
  assumes "run_state (enqueue_vin_decode show_id vid vin) d = (q, d')"
  shows "same_scans d d' \<and> clock d' = clock d"
  using assms by (auto simp: enqueue_vin_decode_def enqueue_job_def fresh_id_def same_scans_def split: if_splits)

text \<open>Storing a scan does not move the clock.\<close>

lemma clock_create_scan: "keeps (\<lambda>d. clock d = now) (create_scan p inp)"
proof -
  let ?P = "\<lambda>d. clock d = now"
  have dtcs: "keeps ?P (insert_dtcs sid cs)" for sid cs
    by (induction cs) (auto intro!: keeps_bind keeps_ret keeps_modify)
  have session: "keeps ?P (insert_session row)" for row
    unfolding insert_session_def by (intro keeps_bind keeps_reads keeps_if keeps_ret keeps_modify) simp
  have vehicle: "keeps ?P (vehicle_for vin)" for vin
    unfolding vehicle_for_def fresh_id_def
    by (intro keeps_bind keeps_reads keeps_case_option keeps_ret keeps_modify) (simp_all add: keeps_def spec_def)
  have fresh: "keeps ?P fresh_id"
    by (simp add: keeps_def spec_def fresh_id_def)
  have body: "keeps ?P (create_scan_body tech org inp)" for tech org
    unfolding create_scan_body_def
    by (intro keeps_bind vehicle session dtcs fresh keeps_reads keeps_case_sum keeps_ret)
  have "keeps ?P (transaction (create_scan_body tech org inp))" for tech org
  proof (rule keepsI, rule specI)
    fix d x t
    assume d: "clock d = now" and run: "run_state (transaction (create_scan_body tech org inp)) d = (x, t)"
    obtain q e where q: "run_state (create_scan_body tech org inp) d = (q, e)" by fastforce
    with keepsD [OF body d] have "clock e = now" by (metis snd_conv)
    with run d q show "clock t = now" by (cases q) (auto simp: transaction_def)
  qed
  then show ?thesis
    unfolding create_scan_def by (intro keeps_if keeps_ret keeps_case_sum)
qed

lemma sendable_stored:
  assumes "db_ok d" and "works_at A d c tech org" and "uuid_law A" and "sendable r" and "carries r b"
  shows "\<exists>rec d'. run_state (create_scan (ae_parse A) \<lparr>ci_tech = cl_tech c, ci_org = cl_org c, ci_vin = cr_vin b,
      ci_link = (if cr_link b = [] then LinkUSB else cr_link b), ci_adapter = cr_adapter b, ci_protocol = cr_protocol b,
      ci_notes = cr_notes b, ci_dtcs = cr_dtcs b, ci_obs = cr_obs b\<rparr>) d = (Inr rec, d')
    \<and> run_state (get_scan (sc_id rec)) d' = (Inr (rec\<lparr>sc_dtcs := read_back (cr_dtcs b)\<rparr>), d') \<and> clock d' = clock d
    \<and> sc_vin rec = vi_vin (sr_vehicle r) \<and> sc_tech rec = tech \<and> sc_org rec = org \<and> sc_obs rec = cr_obs b"
    (is "\<exists>rec d'. run_state (create_scan _ ?inp) d = _ \<and> _")
proof -
  have ok: "scans_ok d" using assms(1) by (simp add: db_ok_def)
  have ids: "ae_parse A (cl_tech c) = Inr tech" "ae_parse A (cl_org c) = Inr org"
    using assms(2,3) by (simp_all add: works_at_def uuid_law_def)
  obtain rec d' where run: "run_state (create_scan (ae_parse A) ?inp) d = (Inr rec, d')"
    using create_scan_accepts [OF ok, of ?inp "ae_parse A" tech org] ids assms(2,4,5)
      reported_accepted [OF carried_codes(1) [OF assms(5)]]
    by (auto simp: works_at_def sendable_def carries_def obd_consts)
  moreover have "clock d' = clock d"
    using keepsD [OF clock_create_scan [of "clock d"], of d] run by (metis snd_conv)
  ultimately show ?thesis
    using create_scan_found [OF ok run] ids assms(5) by (simp add: carries_def)
qed

lemma upload_read_back:
  assumes "db_ok (sv_db s)" and "uuid_law A" and "token_claims A header s = Some c" and "works_at A (sv_db s) c tech org"
    and "sendable r" and "carries r b"
  shows "\<exists>rec out t. run_state (router A header (CreateScan (Inr b))) s = ((201, PScan rec), t)
    \<and> run_state (router A header (GetScan (ae_show A (sc_id rec)))) t = ((200, PScan out), t)
    \<and> sc_vin out = vi_vin (sr_vehicle r) \<and> sc_tech out = tech \<and> sc_org out = org \<and> sc_obs out = cr_obs b
    \<and> map code_and_status (sc_dtcs out) = sort_key fst (map code_and_status (sr_dtcs r))"
proof -
  obtain rec d1 where stored: "run_state (create_scan (ae_parse A) \<lparr>ci_tech = cl_tech c, ci_org = cl_org c, ci_vin = cr_vin b,
        ci_link = (if cr_link b = [] then LinkUSB else cr_link b), ci_adapter = cr_adapter b, ci_protocol = cr_protocol b,
        ci_notes = cr_notes b, ci_dtcs = cr_dtcs b, ci_obs = cr_obs b\<rparr>) (sv_db s) = (Inr rec, d1)"
      "run_state (get_scan (sc_id rec)) d1 = (Inr (rec\<lparr>sc_dtcs := read_back (cr_dtcs b)\<rparr>), d1)" "clock d1 = clock (sv_db s)"
    and rec: "sc_vin rec = vi_vin (sr_vehicle r)" "sc_tech rec = tech" "sc_org rec = org" "sc_obs rec = cr_obs b"
    using sendable_stored [OF assms(1,4,2,5,6)] by blast
  obtain q d2 where queued: "run_state (enqueue_vin_decode (ae_show A) (sc_vehicle rec) (sc_vin rec)) d1 = (q, d2)" by fastforce
  note same = vin_decode_same [OF queued]
  let ?t = "s\<lparr>sv_db := d2\<rparr>"
  have org: "cl_org c = ae_show A org" "cl_org c \<noteq> []" using assms(2,4) by (simp_all add: works_at_def uuid_law_def)
  have create: "run_state (router A header (CreateScan (Inr b))) s = ((201, PScan rec), ?t)"
    by (simp add: router_def run_require_auth assms(3) create_scan_h_def run_on_store stored(1) queued org(2))
  have "token_claims A header ?t = Some c"
    using token_claims_db [of d2 s A header] same stored(3) assms(3) by simp
  moreover have "fst (run_state (get_scan (sc_id rec)) d2) = Inr (rec\<lparr>sc_dtcs := read_back (cr_dtcs b)\<rparr>)"
    using get_scan_same [OF conjunct1 [OF same]] stored(2) by simp
  moreover have "snd (run_state (get_scan i) d2) = d2" for i
    by (simp add: get_scan_def)
  ultimately have get: "run_state (router A header (GetScan (ae_show A (sc_id rec)))) ?t
      = ((200, PScan (rec\<lparr>sc_dtcs := read_back (cr_dtcs b)\<rparr>)), ?t)"
    using assms(2) org(1) rec(3) by (simp add: router_def run_require_auth get_scan_h_def run_on_store uuid_law_def)
  have "list_all reported (sr_dtcs r)" using assms(5) by (simp add: sendable_def)
  with create get rec carried_codes(2) [OF assms(6)] show ?thesis
    by (intro exI [of _ rec] exI [of _ "rec\<lparr>sc_dtcs := read_back (cr_dtcs b)\<rparr>"] exI [of _ ?t]) simp
qed

section \<open>Properties\<close>


text \<open>A mock scan by \<^verbatim>\<open>obdctl\<close> with a token at hand.\<close>

definition mock_flags :: ctl_flags where
  "mock_flags = (default_flags (\<lambda>_. []))\<lparr>fl_mock := True, fl_token := ''t''\<rparr>"

definition idle_ctl :: "nat ctl" where
  "idle_ctl = \<lparr>ct_lines = [], ct_sent = [], ct_world = 0\<rparr>"

lemma mock_upload:
  "\<exists>rq r. rq \<in> set (ct_sent (snd (run_state (obdctl plain_ctl mock_flags) idle_ctl))) \<and> rq_about rq = ScanBody r
     \<and> vi_vin (sr_vehicle r) = ''MOCKTESTVIN000001''
     \<and> map code_and_status (sr_dtcs r) = [(''P0300'', ''confirmed''), (''P0171'', ''confirmed'')]"
proof -
  have "endless (ce_obd plain_ctl)" by (simp add: plain_ctl_def endless_def bench_def)
  from mock_scan_complete [OF this, of "''MOCKTESTVIN000001''" "[''P0300'', ''P0171'']" 0]
  obtain r t where pass: "run_state (scan (mock_adapter (ce_obd plain_ctl)))
        (new_mock_adapter ''MOCKTESTVIN000001'' [''P0300'', ''P0171''] 0) = (Inr r, t)"
    and r: "sr_dtcs r = map mock_dtc [''P0300'', ''P0171'']" "vi_vin (sr_vehicle r) = ''MOCKTESTVIN000001''"
    by auto
  have env: "env_or (\<lambda>_. []) k v = v" for k v by (simp add: env_or_def)
  have flags: "fl_mock mock_flags" "fl_vin mock_flags = []" "\<not> fl_list mock_flags" "\<not> fl_login mock_flags" "\<not> fl_no_upload mock_flags"
    "trim_space (fl_token mock_flags) = ''t''" "trim_space (fl_api mock_flags) \<noteq> []" "split_csv (fl_codes mock_flags) = [''P0300'', ''P0171'']"
    by (simp_all add: mock_flags_def default_flags_def env, code_simp+)
  have choose: "run_state (choose_adapter plain_ctl mock_flags) idle_ctl = (Inr (MockAdapter ''MOCKTESTVIN000001'' [''P0300'', ''P0171'']), idle_ctl)"
    by (simp add: choose_adapter_def flags mock_vin_def)
  have policy: "vin_policy (fl_mock mock_flags) a (fl_vin mock_flags) ''MOCKTESTVIN000001'' = (None, Inr ''MOCKTESTVIN000001'')" for a
    by (simp add: vin_policy_def flags)
  let ?r = "r\<lparr>sr_vehicle := (sr_vehicle r)\<lparr>vi_vin := ''MOCKTESTVIN000001''\<rparr>\<rparr>"
  have ran: "run_state (ctl_pass plain_ctl (MockAdapter ''MOCKTESTVIN000001'' [''P0300'', ''P0171''])) idle_ctl
      = (Inr r, idle_ctl\<lparr>ct_world := m_world t\<rparr>)"
    using pass by (simp add: ctl_pass_def idle_ctl_def)
  have explained: "\<exists>rq. rq \<in> set (ct_sent (snd (run_state (deliver plain_ctl mock_flags tok r) (idle_ctl\<lparr>ct_world := w\<rparr>)))) \<and> rq_about rq = ScanBody ?r" for tok w
    by (simp add: deliver_def r policy flags(5) ObdCtl.with_vin_def plain_ctl_def say_def ctl_upload_def ctl_send_def ctl_explain_def
        ctl_request_def field_def Let_def conj_disj_distribR ex_disj_distrib)
  have "\<exists>rq. rq \<in> set (ct_sent (snd (run_state (obdctl plain_ctl mock_flags) idle_ctl))) \<and> rq_about rq = ScanBody ?r"
    using explained
    by (simp add: obdctl_def sign_in_def flags choose ran)
  then show ?thesis using r by (auto simp: mock_dtc_def code_and_status_def DTCConfirmed_def)
qed


end
