(* ===== verification/Pipeline.thy ===== *)
theory Pipeline
  imports EndToEnd
begin

text \<open>
  From a scan to its vehicle: the request puts a \<^verbatim>\<open>vin_decode\<close> job in the queue, a tick of the worker takes it, asks NHTSA and
  stores the answer, and the explanation of a code shows it. The tick goes on to other jobs; \<open>settled\<close> is what it leaves alone.
\<close>

section \<open>The decoded vehicle\<close>

lemma find_upserted:
  assumes "ve_vehicle e = vid"
  shows "find (\<lambda>e. ve_vehicle e = vid)
    (if vid \<in> set (map ve_vehicle es) then map (\<lambda>x. if ve_vehicle x = vid then e else x) es else es @ [e]) = Some e"
  using assms by (induction es) (auto split: if_splits)

definition vehicle_keys :: "db \<Rightarrow> (uuid \<times> string) list" where
  "vehicle_keys d = map (\<lambda>v. (v_id v, v_vin v)) (vehicles d)"

lemma vehicle_keys_ids: "map v_id (vehicles d) = map fst (vehicle_keys d)"
  by (simp add: vehicle_keys_def comp_def)

definition decoded_as :: "lean_vin \<Rightarrow> timestamp \<Rightarrow> vehicle_enrichment \<Rightarrow> bool" where
  "decoded_as l now e \<longleftrightarrow> ve_make e = lv_make l \<and> ve_model e = lv_model l \<and> ve_year e = lv_year l \<and> ve_body e = lv_body l
     \<and> ve_fuel e = lv_fuel l \<and> ve_in_scope e = in_market_scope (lv_make l) (lv_year l) \<and> ve_source e = ''nhtsa_vpic'' \<and> ve_at e = now"

lemma run_identity:
  "\<exists>d1. run_state (upsert_vehicle_identity vid mk mdl year engine) d = (Inr (), d1) \<and> vehicle_keys d1 = vehicle_keys d
     \<and> enrichments d1 = enrichments d \<and> jobs d1 = jobs d \<and> clock d1 = clock d"
  by (simp add: upsert_vehicle_identity_def vehicle_keys_def comp_def)

lemma run_enrichment:
  assumes "vid \<in> set (map fst (vehicle_keys d))"
  shows "\<exists>e d1. run_state (upsert_vehicle_enrichment (enrichment_of vid l)) d = (Inr (), d1)
     \<and> get_vehicle_enrichment d1 vid = Inr e \<and> decoded_as l (clock d) e
     \<and> vehicle_keys d1 = vehicle_keys d \<and> jobs d1 = jobs d \<and> clock d1 = clock d"
proof -
  let ?e = "(enrichment_of vid l)\<lparr>ve_at := clock d\<rparr>"
  let ?d1 = "d\<lparr>enrichments := if vid \<in> set (map ve_vehicle (enrichments d))
    then map (\<lambda>x. if ve_vehicle x = vid then ?e else x) (enrichments d) else enrichments d @ [?e]\<rparr>"
  have "run_state (upsert_vehicle_enrichment (enrichment_of vid l)) d = (Inr (), ?d1)"
    using assms unfolding vehicle_keys_ids [symmetric] by (simp add: upsert_vehicle_enrichment_def Let_def enrichment_of_def)
  moreover have "get_vehicle_enrichment ?d1 vid = Inr ?e"
    using find_upserted [of ?e vid "enrichments d"] by (simp add: get_vehicle_enrichment_def enrichment_of_def)
  moreover have "decoded_as l (clock d) ?e"
    by (simp add: decoded_as_def enrichment_of_def)
  ultimately show ?thesis
    by (intro exI [of _ ?e] exI [of _ ?d1]) (simp add: vehicle_keys_def)
qed

lemma run_attach:
  assumes "vid \<in> set (map fst (vehicle_keys d))"
  shows "\<exists>n d1. run_state (attach_recalls vid mk mdl year) d = (Inr n, d1) \<and> vehicle_keys d1 = vehicle_keys d
     \<and> enrichments d1 = enrichments d \<and> jobs d1 = jobs d \<and> clock d1 = clock d"
  using assms unfolding vehicle_keys_ids [symmetric] by (simp add: attach_recalls_def Let_def vehicle_keys_def)

text \<open>The answer is stored, and at most a \<^verbatim>\<open>recalls_mmy\<close> job added.\<close>

lemma run_decoded:
  assumes "vid \<in> set (map fst (vehicle_keys (wk_db k)))"
  shows "\<exists>k' e extra. run_state (store_decoded vehicle_id vin vid l) k = (None, k')
    \<and> get_vehicle_enrichment (wk_db k') vid = Inr e \<and> decoded_as l (clock (wk_db k)) e
    \<and> vehicle_keys (wk_db k') = vehicle_keys (wk_db k) \<and> clock (wk_db k') = clock (wk_db k)
    \<and> jobs (wk_db k') = jobs (wk_db k) @ extra \<and> list_all (\<lambda>j. j_kind j = ''recalls_mmy'') extra"
proof -
  obtain d1 where d1: "run_state (upsert_vehicle_identity vid (lv_make l) (lv_model l) (lv_year l) (engine_text l)) (wk_db k) = (Inr (), d1)"
    "vehicle_keys d1 = vehicle_keys (wk_db k)" "jobs d1 = jobs (wk_db k)" "clock d1 = clock (wk_db k)"
    using run_identity by blast
  obtain e d2 where d2: "run_state (upsert_vehicle_enrichment (enrichment_of vid l)) d1 = (Inr (), d2)"
    "get_vehicle_enrichment d2 vid = Inr e" "decoded_as l (clock d1) e"
    "vehicle_keys d2 = vehicle_keys d1" "jobs d2 = jobs d1" "clock d2 = clock d1"
    using run_enrichment [of vid d1 l] assms d1(2) by auto
  obtain n d3 where d3: "run_state (attach_recalls vid (lv_make l) (lv_model l) (lv_year l)) d2 = (Inr n, d3)"
    "vehicle_keys d3 = vehicle_keys d2" "enrichments d3 = enrichments d2" "jobs d3 = jobs d2" "clock d3 = clock d2"
    using run_attach [of vid d2] assms d1(2) d2(4) by metis
  have found: "get_vehicle_enrichment d vid = Inr e" if "enrichments d = enrichments d2" for d
    using d2(2) that by (simp add: get_vehicle_enrichment_def)
  show ?thesis
  proof (cases "in_market_scope (lv_make l) (lv_year l)")
    case False
    let ?k = "k\<lparr>wk_db := d2, wk_log := wk_log k @ [''vin '' @ vin @ '' decoded '' @ lv_make l @ '' '' @ lv_model l @ '' ''
       @ show_int (lv_year l) @ '' '' @ em_dash @ '' outside NG 2010+ top-5 scope; skipping recalls'']\<rparr>"
    have "run_state (store_decoded vehicle_id vin vid l) k = (None, ?k)"
      using False d1(1) d2(1) by (simp add: store_decoded_def on_db_def log_line_def)
    then show ?thesis
      using d1 d2 by (intro exI [of _ ?k] exI [of _ e] exI [of _ "[]"]) simp
  next
    case True
    show ?thesis
    proof (cases "n = 0")
      case False
      have "run_state (store_decoded vehicle_id vin vid l) k = (None, k\<lparr>wk_db := d3\<rparr>)"
        using True False d1(1) d2(1) d3(1) by (simp add: store_decoded_def on_db_def)
      then show ?thesis
        using d1 d2 d3 found by (intro exI [of _ "k\<lparr>wk_db := d3\<rparr>"] exI [of _ e] exI [of _ "[]"]) simp
    next
      case zero: True
      let ?j = "new_job (next_id d3) ''recalls_mmy'' (recalls_payload vehicle_id l) (clock d3) (clock d3)"
      let ?k = "k\<lparr>wk_db := d3\<lparr>next_id := Suc (next_id d3), jobs := jobs d3 @ [?j]\<rparr>\<rparr>"
      have "run_state (store_decoded vehicle_id vin vid l) k = (None, ?k)"
        using True zero d1(1) d2(1) d3(1)
        by (simp add: store_decoded_def on_db_def enqueue_job_def fresh_id_def job_kinds_def)
      then show ?thesis
        using d1 d2 d3 found
        by (intro exI [of _ ?k] exI [of _ e] exI [of _ "[?j]"]) (simp add: vehicle_keys_def new_job_def)
    qed
  qed
qed

section \<open>The rest of the tick\<close>

definition settled :: "vehicle_enrichment list \<Rightarrow> (uuid \<times> string) list \<Rightarrow> db \<Rightarrow> bool" where
  "settled es ks d \<longleftrightarrow> enrichments d = es \<and> vehicle_keys d = ks
     \<and> list_all (\<lambda>j. due (clock d) j \<longrightarrow> j_kind j = ''recalls_mmy'') (jobs d)"

lemma settled_upd: "settled es ks d \<Longrightarrow> (\<And>j. \<not> due (clock d) (f j)) \<Longrightarrow> settled es ks (upd_job i f d)"
  by (auto simp: settled_def upd_job_def vehicle_keys_def list_all_iff)

lemma settled_answers:
  "settled es ks d \<Longrightarrow> settled es ks (claim_mark i d)"
  "settled es ks d \<Longrightarrow> settled es ks (complete_db i d)"
  "settled es ks d \<Longrightarrow> settled es ks (fail_db i msg (Tick (ticks (clock d) + 120000)) d)"
  unfolding claim_mark_def complete_db_def fail_db_def
  by (auto intro!: settled_upd simp: due_def less_eq_timestamp_def)

lemma settled_recalls: "keeps (\<lambda>s. settled es ks (wk_db s)) (recalls_mmy E payload)"
proof -
  have ops: "db_keeps (settled es ks) (attach_recalls vid mk mdl year)" "db_keeps (settled es ks) (upsert_recall_catalog r)" for vid mk mdl year r
    by (auto simp: db_keeps_def attach_recalls_def upsert_recall_catalog_def Let_def settled_def vehicle_keys_def)
  have store: "keeps (\<lambda>s. settled es ks (wk_db s)) (store_recalls mk mdl year rs)" for mk mdl year rs
    by (induction rs) (auto intro!: enriched_basic ops)
  show ?thesis
    unfolding recalls_mmy_def recalls_for_def attach_to_def by (auto intro!: enriched_basic ops store)
qed

lemma tick_on:
  assumes "map_of (settings (wk_db k)) ''enrichment_enabled'' \<noteq> Some ''false''"
  shows "run_state (tick E) k = run_state (tick_loop E 5) k"
  using assms by (simp add: tick_def on_db_def setting_def del: tick_loop.simps split: option.split)

lemma tick_loop_done:
  assumes "claim_pick {} (wk_db k) = Some j" and "run_state (process E j) (k\<lparr>wk_db := claim_mark (j_id j) (wk_db k)\<rparr>) = (None, k2)"
  shows "run_state (tick_loop E (Suc n)) k = run_state (tick_loop E n) (k2\<lparr>wk_db := complete_db (j_id j) (wk_db k2)\<rparr>)"
  using assms by (simp add: run_on_db_claim, simp add: on_db_def complete_job_def)

lemma settled_tick_loop: "settled es ks (wk_db k) \<Longrightarrow> settled es ks (wk_db (snd (run_state (tick_loop E n) k)))"
proof (induction n arbitrary: k)
  case (Suc n)
  show ?case
  proof (cases "claim_pick {} (wk_db k)")
    case None
    then show ?thesis using Suc.prems by (simp add: run_on_db_claim)
  next
    case (Some j)
    let ?k1 = "k\<lparr>wk_db := claim_mark (j_id j) (wk_db k)\<rparr>"
    have "j_kind j = ''recalls_mmy''"
      using claim_pick_Some [OF Some] Suc.prems by (simp add: settled_def list_all_iff)
    then have p: "process E j = recalls_mmy E (j_payload j)" by (simp add: process_def)
    obtain e k2 where k2: "run_state (process E j) ?k1 = (e, k2)" by fastforce
    have "settled es ks (wk_db ?k1)" using settled_answers(1) [OF Suc.prems] by simp
    with keepsD [OF settled_recalls, of es ks ?k1 E "j_payload j"] k2 p have s2: "settled es ks (wk_db k2)" by simp
    show ?thesis
    proof (cases e)
      case None
      then show ?thesis
        using tick_loop_done [OF Some, of E k2 n] k2 Suc.IH settled_answers(2) [OF s2] by (simp del: tick_loop.simps)
    next
      case fails: (Some x)
      then have "\<exists>lg. run_state (tick_loop E (Suc n)) k = run_state (tick_loop E n)
          (k2\<lparr>wk_log := lg, wk_db := fail_db (j_id j) (err_text x) (Tick (ticks (clock (wk_db k2)) + 120000)) (wk_db k2)\<rparr>)"
        using Some k2 by (simp add: run_on_db_claim, simp add: on_db_def fail_job_def log_line_def) (rule exI, rule refl)
      then show ?thesis using Suc.IH settled_answers(3) [OF s2] by fastforce
    qed
  qed
qed simp

section \<open>The scan and its job\<close>

text \<open>A request that is answered with 201 has stored the vehicle and put its job behind the others.\<close>

lemma created_job:
  assumes "db_ok (sv_db s)" and "run_state (router A header (CreateScan (Inr b))) s = ((201, PScan rec), t)"
  shows "\<exists>i. jobs (sv_db t) = jobs (sv_db s) @ [new_job i ''vin_decode''
        [(''vehicle_id'', VStr (ae_show A (sc_vehicle rec))), (''vin'', VStr (cr_vin b))] (clock (sv_db s)) (clock (sv_db s))]
     \<and> clock (sv_db t) = clock (sv_db s) \<and> settings (sv_db t) = settings (sv_db s)
     \<and> cr_vin b \<noteq> [] \<and> (sc_vehicle rec, cr_vin b) \<in> set (vehicle_keys (sv_db t)) \<and> distinct (map snd (vehicle_keys (sv_db t)))"
proof -
  have ok: "scans_ok (sv_db s)" using assms(1) by (simp add: db_ok_def)
  obtain c where c: "token_claims A header s = Some c" "cl_org c \<noteq> []"
    using assms(2) by (auto simp: router_def run_require_auth create_scan_h_def write_err_def split: option.splits if_splits)
  define inp where "inp = \<lparr>ci_tech = cl_tech c, ci_org = cl_org c, ci_vin = cr_vin b,
      ci_link = (if cr_link b = [] then LinkUSB else cr_link b), ci_adapter = cr_adapter b, ci_protocol = cr_protocol b,
      ci_notes = cr_notes b, ci_dtcs = cr_dtcs b, ci_obs = cr_obs b\<rparr>"
  obtain r d1 where r: "run_state (create_scan (ae_parse A) inp) (sv_db s) = (r, d1)" by fastforce
  then have "r = Inr rec" and t: "sv_db t = snd (run_state (enqueue_vin_decode (ae_show A) (sc_vehicle rec) (sc_vin rec)) d1)"
    using assms(2) c
    by (auto simp: router_def run_require_auth create_scan_h_def run_on_store write_err_def inp_def split: sum.splits)
  with r have run: "run_state (create_scan (ae_parse A) inp) (sv_db s) = (Inr rec, d1)" "ci_vin inp = cr_vin b"
    by (simp_all add: inp_def)
  obtain tech org where vin: "ci_vin inp \<noteq> []" and body: "run_state (create_scan_body tech org inp) (sv_db s) = (Inr rec, d1)"
    using run(1) by (auto simp: create_scan_def transaction_Inr split: if_splits sum.splits)
  then have st: "stored tech org inp rec (sv_db s) d1" and d1: "scans_ok d1"
    using create_scan_body_run [OF body ok] by simp_all
  have same: "jobs d1 = jobs (sv_db s)" "settings d1 = settings (sv_db s)" "clock d1 = clock (sv_db s)"
    using keepsD [OF keeps_frame_create_scan, of "sv_db s" "sv_db s" "ae_parse A" inp]
      keepsD [OF clock_create_scan [of "clock (sv_db s)"], of "sv_db s" "ae_parse A" inp] run(1)
    by (simp_all add: frame_defs)
  obtain v where v: "v \<in> set (vehicles d1)" "v_id v = sc_vehicle rec" "v_vin v = cr_vin b"
    using st run(2) by (auto simp: stored_def)
  have "(v_id v, v_vin v) \<in> set (vehicle_keys d1)"
    using v(1) by (simp add: vehicle_keys_def)
  with v have "(sc_vehicle rec, cr_vin b) \<in> set (vehicle_keys d1)" by simp
  moreover have "sc_vin rec = cr_vin b"
    using create_scan_found [OF ok run(1)] run(2) by simp
  moreover have "distinct (map snd (vehicle_keys d1))"
    using d1 by (simp add: scans_ok_def vehicle_keys_def comp_def)
  ultimately show ?thesis
    using same t vin run(2)
    by (auto simp: enqueue_vin_decode_def enqueue_job_def fresh_id_def job_kinds_def vehicle_keys_def)
qed

lemma explain_shows:
  assumes "(vid, vin) \<in> set (vehicle_keys d)" and "distinct (map snd (vehicle_keys d))" and "vin \<noteq> []"
    and "get_vehicle_enrichment d vid = Inr e"
  shows "\<exists>ex. run_state (explain_code code vin org) d = (Inr ex, d) \<and> ex_vehicle ex = Some e"
proof -
  obtain v where v: "v \<in> set (vehicles d)" "v_id v = vid" "v_vin v = vin"
    using assms(1) by (auto simp: vehicle_keys_def)
  have "inj_on v_vin (set (vehicles d))"
    using assms(2) by (simp add: vehicle_keys_def comp_def distinct_map)
  then have "find (\<lambda>v. v_vin v = vin) (vehicles d) = Some v"
    using v by (cases "find (\<lambda>v. v_vin v = vin) (vehicles d)") (auto simp: find_None_iff dest!: find_SomeD inj_onD)
  then show ?thesis
    using assms(3,4) v(2) by (simp add: explain_code_def vehicle_part_def Let_def)
qed

section \<open>Properties\<close>


text \<open>A worker to whom NHTSA answers every VIN with a Corolla, and a scan with no codes.\<close>

definition vpic_env :: "unit worker_env" where
  "vpic_env = \<lparr>we_client = (we_client no_net)\<lparr>h_do := (\<lambda>_ w. (Inr (200, ''{}''), w)),
       js_vpic := (\<lambda>_. Inr [[(''Make'', VStr ''TOYOTA''), (''Model'', VStr ''Corolla''), (''ModelYear'', VStr ''2015'')]])\<rparr>,
     we_parse = read_us, we_show = show_us, we_pause = (\<lambda>w. (None, w))\<rparr>"

definition empty_scan :: scan_request where
  "empty_scan = \<lparr>cr_vin = ''V'', cr_link = ''usb'', cr_adapter = ''elm'', cr_protocol = [], cr_notes = [], cr_dtcs = [], cr_obs = None\<rparr>"


end
