(* ===== verification/Spec2Isabelle.thy ===== *)
theory Spec2Isabelle
  imports Prelude GoStrings Float64 Json Actions Dtc ObdTypes Pids Elm Bench Detect UsbAdapter Scanner Mock
    Diagnosis Market StoreTypes Auth StoreDb Scans Explain Jobs Nhtsa Enrichment Api ApiReplies
    Threads TokenFile Bay BayProps ObdCtl Programs Launch EndToEnd Pipeline
begin

text \<open>
  MechMind: a model of the Go program, and what is proved of it.

  The program. A technician's machine talks to a car over an ELM327 serial adapter
  (\<^verbatim>\<open>pkg/obd\<close>): it opens the adapter, reads identity, trouble codes, freeze frames and live values,
  and sends the scan to a server. The programs for the bay are a local web server (\<^verbatim>\<open>cmd/bayui\<close>) and a
  command line client (\<^verbatim>\<open>cmd/obdctl\<close>). The server (\<^verbatim>\<open>internal/store\<close>, \<^verbatim>\<open>internal/auth\<close>) keeps shops, technicians,
  vehicles and scans in PostgreSQL behind an HTTP API (\<^verbatim>\<open>internal/api\<close>), and a worker fetches vehicle data and recalls from
  NHTSA through a queue of jobs (\<^verbatim>\<open>internal/enrichment\<close>). The server explains a code from articles, history and statistics, runs
  rules over the sensor data (\<^verbatim>\<open>internal/diagnosis\<close>) and may ask a language model for a short text
  (\<^verbatim>\<open>internal/explain\<close>).

  The theories.

  \<^item> Prelude, GoStrings, Float64, Actions: what the code uses of Go. Errors are values of \<open>gerr\<close>
    with the chain that \<^verbatim>\<open>errors.Is\<close> follows; strings are lists of bytes with the functions of \<^verbatim>\<open>strings\<close>,
    \<^verbatim>\<open>fmt\<close> and \<^verbatim>\<open>strconv\<close> that occur; a \<^verbatim>\<open>float64\<close> is a rational and every operation rounds to the
    nearest representable value (\<open>rnd64\<close>; overflow, infinities and NaN do not occur at the magnitudes of the
    code); methods on a mutable object are actions of the library's state monad, with a
    calculus of triples (\<open>spec\<close>, \<open>keeps\<close>). The locale \<open>rounding\<close> collects the laws of a
    rounding function; \<open>f64\<close> is its interpretation on \<open>rnd64\<close>.
  \<^item> Dtc (\<^verbatim>\<open>codes.go\<close>), Pids (\<^verbatim>\<open>pids.go\<close>), ObdTypes (\<^verbatim>\<open>types.go\<close>, \<^verbatim>\<open>snapshot.go\<close>): decoding of replies. Bytes are
    8 bit words. Theorems: round trips, shape and injectivity of codes, ranges of sensors.
  \<^item> Elm (\<^verbatim>\<open>usb.go\<close> from \<^verbatim>\<open>commandWait\<close> on): one command and its reply. The serial port, the clock, the
    context and the file system are the fields of \<open>env\<close>, arbitrary functions of an abstract world \<open>'w\<close>;
    no law is assumed of them except where a theorem names one. \<open>exchange\<close> is the outcome of the race
    between the reader and the timer. Detect (\<^verbatim>\<open>detect.go\<close>): which device is an adapter.
  \<^item> UsbAdapter (\<^verbatim>\<open>usb.go\<close>, \<^verbatim>\<open>pids.go\<close>): the adapter as a state machine. The record \<open>usb\<close> has the fields of
    \<^verbatim>\<open>USBAdapter\<close>, the progress messages and, as a ghost, the commands sent. \<open>usb_reach\<close> is the set of
    states that any sequence of method calls reaches; the invariants are proved by induction on
    it. Loops with a bound in the code are recursive functions; the wait for the port after a reset
    has 32 rounds of fuel, which \<open>wait_port_ends\<close> shows to be enough when the clock advances.
  \<^item> Scanner (\<^verbatim>\<open>Scanner.Scan\<close>), Mock (\<^verbatim>\<open>mock.go\<close>): the diagnostic pass over any adapter. The interface
    \<^verbatim>\<open>Adapter\<close> is a record of operations, its contract the locale \<open>scan_adapter\<close>, interpreted on the
    mock adapter (\<open>mock\<close>) and on the USB adapter (\<open>usb\<close>). Bench holds a small world for examples.
  \<^item> Diagnosis (\<^verbatim>\<open>engine.go\<close>): the eight rules and the ranking. Market (\<^verbatim>\<open>nigeria.go\<close>): which
    vehicles are in scope.
  \<^item> Auth (\<^verbatim>\<open>auth.go\<close>): passwords and tokens. bcrypt and the JWT library are the fields of \<open>crypto\<close>, with
    their documented behaviour as the hypothesis \<open>crypto_law\<close>; \<open>plain_crypto\<close> satisfies it.
  \<^item> StoreTypes, StoreDb, Scans (\<^verbatim>\<open>store.go\<close>, the reads of \<^verbatim>\<open>enrichment.go\<close>): the database is the record \<open>db\<close> of
    its tables as lists, a statement runs or violates a constraint of the migrations, a
    transaction that fails restores the tables. UUIDs are numbers from a counter.
  \<^item> Jobs (\<^verbatim>\<open>enrichment.go\<close>): the queue of enrichment jobs and the upserts of its results. A claim is two
    statements, so the queue is also a step relation (\<open>step\<close>, \<open>runs\<close>) in which any number of workers pick, mark, finish,
    fail and die, and the rest of the program acts under \<open>rely\<close>; the theorems on it hold for all interleavings.
    Nhtsa (\<^verbatim>\<open>nhtsa.go\<close>): the client of the two NHTSA services. Enrichment (\<^verbatim>\<open>worker.go\<close>): the worker over both, a
    refinement of the queue's steps; a tick handles at most five jobs, as the loop of the code.
  \<^item> Json (\<^verbatim>\<open>encoding/json\<close>): what \<^verbatim>\<open>json.Marshal\<close> writes, with Go's escapes and the shortest decimals of a float, and a reader that gives
    every value back (\<open>parse_encode\<close>), so that the text determines the value.
  \<^item> Explain (\<^verbatim>\<open>packet.go\<close>, \<^verbatim>\<open>narrative.go\<close>): the packet for the language model, its JSON and fingerprint, the request to the model, and the
    cache. The HTTP exchange, the JSON of the reply and SHA-256 are parameters.
  \<^item> Api (\<^verbatim>\<open>internal/api/server.go\<close>): the routes, the checks of token and role and every handler, as actions on the
    server's state (database, clock, world, log). \<open>served\<close> relates the states that any requests and any ticks of the worker
    reach; invariants and isolation of shops are proved over it. A decoded body, or the error of decoding it, is an
    argument of the handler. ApiReplies: the statuses and the shape of the value of every route, and that an error changes nothing.
  \<^item> Threads: goroutines as resumptions, that is sequences of critical sections over a shared state, and pools of them under any
    schedule. Two locales give invariants (\<open>pool_invariant\<close>) and a slot that one thread holds (\<open>slot_pool\<close>), and \<open>ends\<close> is total
    correctness of one thread under interference. Bay (\<^verbatim>\<open>cmd/bayui/server.go\<close>): the bay server in these terms, one thread per
    request and per scan; BayProps interprets both locales on it. Launch (\<^verbatim>\<open>cmd/bayui/main.go\<close>): its start, the log file and the page.
  \<^item> TokenFile, ObdCtl (\<^verbatim>\<open>cmd/obdctl/main.go\<close>): the saved token and the command line client, over the same adapters.
  \<^item> Programs (\<^verbatim>\<open>internal/config\<close>, \<^verbatim>\<open>cmd/api/main.go\<close>, \<^verbatim>\<open>Worker.Run\<close>, \<^verbatim>\<open>cmd/enrichctl/main.go\<close>): configuration, the start of the
    server on a database and the acts of its \<^verbatim>\<open>main\<close> until a signal or a fatal error, the worker's loop, and the drain of the queue. The drain has fuel: \<open>drain_ends_and_refines\<close> shows that
    one round per millisecond of the timeout is enough.
  \<^item> EndToEnd: the clients and the API together. What either client uploads is accepted and reads back; the transport
    between them is the relation \<open>carries\<close>. Pipeline: from a scan through the queue and a tick of the worker to the explanation that shows the vehicle.

  Not modelled: the router library with CORS and \<^verbatim>\<open>healthz\<close>, flag parsing, the delivery of signals, what happens inside the
  listener and its shutdown, the decoding of JSON bodies, the
  connection to PostgreSQL, and real concurrency inside one adapter: its mutex makes the methods
  atomic, and the model calls them one at a time. In the bay server a whole pass of the adapter is one step, with its
  messages delivered after it; a cancel reaches the pass through the context, which the world decides.
\<close>

end
